(* ===== verification/Srt_Prelude.thy ===== *)
theory Srt_Prelude
  imports Main "HOL-Library.Word" "HOL-Library.Signed_Division"
begin

unbundle bit_operations_syntax

text \<open>
  Shared vocabulary of the development.

  \<^item> Machine integers at their width (\<open>u8\<close> \<dots> \<open>u64\<close>) and byte strings.
  \<^item> \<open>outcome\<close>: what a fallible Rust function does -- return \<open>Ok\<close>, return \<open>Err\<close>, or panic
    (slice index out of range, \<open>unwrap\<close> of the wrong variant).  Reads of the wire model carry
    the panic explicitly, so that its absence is a theorem about every parser.
  \<^item> Clock readings: \<open>Instant\<close> and \<open>Duration\<close> are natural numbers of nanoseconds.  Rust's
    \<open>duration_since\<close> and \<open>saturating_duration_since\<close> both saturate at zero, which is what
    subtraction on \<^typ>\<open>nat\<close> does.
  \<^item> Big-endian words and the interface of a fixed-width field (\<open>be_field\<close>), interpreted for
    16 and 32 bits.
  \<^item> The interface of a wire format (\<open>wire_format\<close>): an encoder, a parser and the values that
    survive the trip.
  \<^item> The interface of an event-driven state machine with an invariant (\<open>inv_machine\<close>).
\<close>

section \<open>Machine types\<close>

type_synonym u8 = "8 word"
type_synonym u16 = "16 word"
type_synonym u32 = "32 word"
type_synonym u64 = "64 word"
type_synonym bytes = "8 word list"
type_synonym instant = nat
type_synonym duration = nat

named_theorems wire_simps \<open>evaluation of reads from concatenated fields\<close>
named_theorems seq_simps \<open>circular sequence arithmetic on integer representatives\<close>
named_theorems no_panic \<open>absence of panics\<close>

section \<open>Results of fallible code\<close>

datatype ('a, 'e) outcome = Ok (the_ok: 'a) | Err (the_err: 'e) | Panic

definition bind_outcome :: "('a, 'e) outcome \<Rightarrow> ('a \<Rightarrow> ('b, 'e) outcome) \<Rightarrow> ('b, 'e) outcome" where
  "bind_outcome m f = (case m of Ok x \<Rightarrow> f x | Err e \<Rightarrow> Err e | Panic \<Rightarrow> Panic)"

lemma bind_outcome_simps [simp]:
  "bind_outcome (Ok x) f = f x"
  "bind_outcome (Err e) f = Err e"
  "bind_outcome Panic f = Panic"
  by (simp_all add: bind_outcome_def)

lemma bind_outcome_Ok_iff:
  "bind_outcome m f = Ok y \<longleftrightarrow> (\<exists>x. m = Ok x \<and> f x = Ok y)"
  by (cases m) auto

lemma bind_outcome_Panic_iff [no_panic]:
  "bind_outcome m f = Panic \<longleftrightarrow> m = Panic \<or> (\<exists>x. m = Ok x \<and> f x = Panic)"
  by (cases m) auto

section \<open>Clock readings\<close>

definition from_micros :: "nat \<Rightarrow> duration" where
  "from_micros us = 1000 * us"

definition from_millis :: "nat \<Rightarrow> duration" where
  "from_millis ms = 1000000 * ms"

definition from_secs :: "nat \<Rightarrow> duration" where
  "from_secs s = 1000000000 * s"

definition as_micros :: "duration \<Rightarrow> nat" where
  "as_micros d = d div 1000"

definition as_millis :: "duration \<Rightarrow> nat" where
  "as_millis d = d div 1000000"

abbreviation (input) since :: "instant \<Rightarrow> instant \<Rightarrow> duration" where
  "since a b \<equiv> a - b"

lemma as_micros_from_micros [simp]: "as_micros (from_micros n) = n"
  by (simp add: as_micros_def from_micros_def)

lemma from_micros_mono [simp]: "from_micros a \<le> from_micros b \<longleftrightarrow> a \<le> b"
  by (simp add: from_micros_def)

lemma from_micros_as_micros_le: "from_micros (as_micros d) \<le> d"
  by (simp add: as_micros_def from_micros_def)

section \<open>Big-endian words\<close>

definition be16 :: "u16 \<Rightarrow> bytes" where
  "be16 w = [ucast (drop_bit 8 w), ucast w]"

definition be32 :: "u32 \<Rightarrow> bytes" where
  "be32 w = [ucast (drop_bit 24 w), ucast (drop_bit 16 w), ucast (drop_bit 8 w), ucast w]"

fun from_be16 :: "bytes \<Rightarrow> u16" where
  "from_be16 [a, b] = push_bit 8 (ucast a) OR ucast b"
| "from_be16 _ = 0"

fun from_be32 :: "bytes \<Rightarrow> u32" where
  "from_be32 [a, b, c, d] =
     push_bit 24 (ucast a) OR push_bit 16 (ucast b) OR push_bit 8 (ucast c) OR ucast d"
| "from_be32 _ = 0"

lemma length_be16 [simp]: "length (be16 w) = 2"
  by (simp add: be16_def)

lemma length_be32 [simp]: "length (be32 w) = 4"
  by (simp add: be32_def)

lemma from_be16_be16 [simp]: "from_be16 (be16 w) = w"
  by (rule bit_word_eqI) (auto simp: be16_def bit_simps)

lemma from_be32_be32 [simp]: "from_be32 (be32 w) = w"
proof (rule bit_word_eqI)
  fix n assume "n < LENGTH(32)"
  then consider "n < 8" | "8 \<le> n" "n < 16" | "16 \<le> n" "n < 24" | "24 \<le> n" "n < 32"
    by fastforce
  then show "bit (from_be32 (be32 w)) n = bit w n"
    by cases (auto simp: be32_def bit_simps)
qed

lemma length_2_conv: "length xs = 2 \<longleftrightarrow> (\<exists>a b. xs = [a, b])"
  by (auto simp: numeral_2_eq_2 length_Suc_conv)

lemma length_4_conv: "length xs = 4 \<longleftrightarrow> (\<exists>a b c d. xs = [a, b, c, d])"
proof -
  have four: "(4::nat) = Suc (Suc (Suc (Suc 0)))" by simp
  show ?thesis unfolding four by (auto simp: length_Suc_conv)
qed

lemma be16_from_be16:
  assumes "length bs = 2" shows "be16 (from_be16 bs) = bs"
proof -
  obtain a b where bs: "bs = [a, b]" using assms by (auto simp: length_2_conv)
  have "ucast (drop_bit 8 (push_bit 8 (ucast a) OR ucast b :: u16)) = a"
    by (rule bit_word_eqI) (auto simp: bit_simps dest: bit_imp_le_length)
  moreover have "ucast (push_bit 8 (ucast a) OR ucast b :: u16) = b"
    by (rule bit_word_eqI) (auto simp: bit_simps)
  ultimately show ?thesis by (simp add: bs be16_def)
qed

lemma be32_from_be32:
  assumes "length bs = 4" shows "be32 (from_be32 bs) = bs"
proof -
  obtain a b c d where bs: "bs = [a, b, c, d]" using assms by (auto simp: length_4_conv)
  let ?w = "push_bit 24 (ucast a) OR push_bit 16 (ucast b) OR push_bit 8 (ucast c) OR ucast d :: u32"
  have "ucast (drop_bit 24 ?w) = a" "ucast (drop_bit 16 ?w) = b"
    "ucast (drop_bit 8 ?w) = c" "ucast ?w = d"
    by (rule bit_word_eqI, auto simp: bit_simps dest: bit_imp_le_length)+
  then show ?thesis by (simp add: bs be32_def)
qed

section \<open>Fixed-width fields\<close>

text \<open>
  The interface between the parsers and the byte buffer: a field of a fixed width, written by
  \<open>put\<close>, and read at an offset by \<open>rd\<close>, which panics when the slice does not fit.
\<close>

locale be_field =
  fixes width :: nat
    and put :: "'w \<Rightarrow> bytes"
    and get :: "bytes \<Rightarrow> 'w"
    and rd :: "bytes \<Rightarrow> nat \<Rightarrow> ('w, 'e) outcome"
  assumes length_put: "length (put x) = width"
    and get_put: "get (put x) = x"
    and put_get: "length bs = width \<Longrightarrow> put (get bs) = bs"
    and rd_eq: "rd buf off =
      (if off + width \<le> length buf then Ok (get (take width (drop off buf))) else Panic)"
begin

lemma rd_here: "rd (put x @ rest) 0 = Ok x"
  by (simp add: rd_eq length_put get_put)

lemma rd_here_end: "rd (put x) 0 = Ok x"
  by (simp add: rd_eq length_put get_put)

lemma rd_skip: "length xs \<le> off \<Longrightarrow> rd (xs @ rest) off = rd rest (off - length xs)"
  by (auto simp: rd_eq)

lemma rd_in_bounds: "off + width \<le> length buf \<Longrightarrow> rd buf off = Ok (get (take width (drop off buf)))"
  by (simp add: rd_eq)

lemma rd_Panic_iff: "rd buf off = Panic \<longleftrightarrow> length buf < off + width"
  by (auto simp: rd_eq)

lemma rd_not_Err: "rd buf off \<noteq> Err e"
  by (simp add: rd_eq)

lemma rd_inverse:
  assumes "rd buf off = Ok x"
  shows "take width (drop off buf) = put x"
proof -
  have le: "off + width \<le> length buf" and "x = get (take width (drop off buf))"
    using assms by (auto simp: rd_eq split: if_splits)
  then show ?thesis by (simp add: put_get)
qed

lemma put_inject: "put x = put y \<longleftrightarrow> x = y"
  using get_put by metis

end

section \<open>Wire formats\<close>

text \<open>
  The contract of a codec: the values \<open>wf\<close> an encoder is used on survive parsing.  Encoding is
  then injective on them, and no well-formed value is confused with a rejected datagram.
\<close>

locale wire_format =
  fixes enc :: "'a \<Rightarrow> bytes"
    and dec :: "bytes \<Rightarrow> ('a, 'e) outcome"
    and wf :: "'a \<Rightarrow> bool"
  assumes dec_enc: "wf x \<Longrightarrow> dec (enc x) = Ok x"
begin

lemma enc_inj: "wf x \<Longrightarrow> wf y \<Longrightarrow> enc x = enc y \<Longrightarrow> x = y"
  using dec_enc by (metis outcome.inject(1))

lemma enc_inj_on: "inj_on enc (Collect wf)"
  by (rule inj_onI) (auto intro: enc_inj)

end

section \<open>State machines with an invariant\<close>

text \<open>
  The contract every sans-I/O component offers to its driver: from the initial state, each event
  keeps the invariant, so every run does.  \<open>ok\<close> restricts the events that may be applied in a
  state.
\<close>

locale inv_machine =
  fixes step :: "'s \<Rightarrow> 'ev \<Rightarrow> 's"
    and ok :: "'s \<Rightarrow> 'ev \<Rightarrow> bool"
    and inv :: "'s \<Rightarrow> bool"
  assumes step_inv: "inv s \<Longrightarrow> ok s e \<Longrightarrow> inv (step s e)"
begin

primrec run_ok :: "'s \<Rightarrow> 'ev list \<Rightarrow> bool" where
  "run_ok s [] = True"
| "run_ok s (e # es) = (ok s e \<and> run_ok (step s e) es)"

lemma run_inv: "inv s \<Longrightarrow> run_ok s es \<Longrightarrow> inv (foldl step s es)"
  by (induction es arbitrary: s) (auto simp: step_inv)

lemma run_ok_append: "run_ok s (es @ es') \<longleftrightarrow> run_ok s es \<and> run_ok (foldl step s es) es'"
  by (induction es arbitrary: s) auto

lemma run_relation:
  assumes step_rel: "\<And>s e. inv s \<Longrightarrow> ok s e \<Longrightarrow> R s (step s e)"
    and refl: "\<And>s. R s s" and trans: "\<And>a b c. R a b \<Longrightarrow> R b c \<Longrightarrow> R a c"
    and "inv s" "run_ok s es"
  shows "R s (foldl step s es)"
  using assms(4,5)
proof (induction es arbitrary: s)
  case Nil
  then show ?case by (simp add: refl)
next
  case (Cons e es)
  then have "R s (step s e)" and "R (step s e) (foldl step (step s e) es)"
    by (auto simp: step_rel step_inv)
  then show ?case by (auto intro: trans)
qed

end

section \<open>Lists\<close>

lemma nth_drop_0: "n < length xs \<Longrightarrow> hd (drop n xs) = xs ! n"
  by (simp add: hd_drop_conv_nth)

lemma takeWhile_length_le: "length (takeWhile P xs) \<le> length xs"
  by (simp add: length_takeWhile_le)

lemma takeWhile_none_left:
  assumes "length (takeWhile P xs) < length xs"
  shows "\<not> P (xs ! length (takeWhile P xs))"
  using assms by (rule nth_length_takeWhile)

end
