(* ===== verification/Seq_Number.thy ===== *)
theory Seq_Number
  imports Srt_Prelude
begin

text \<open>
  The protocol integers of \<open>src/packet/types.rs\<close>: 31-bit sequence numbers with circular
  arithmetic, 26-bit message numbers, socket ids and wire timestamps.

  The newtypes keep their raw 32-bit word.  \<open>seq_of i\<close> is the sequence number an unbounded
  index \<open>i\<close> has on the wire; the interface \<open>seq_space\<close> states the circular laws on such
  representatives and is interpreted on the translated operations.
\<close>

section \<open>Sequence numbers\<close>

datatype seq_number = SeqNumber (raw: u32)

definition SEQ_MASK :: u32 where
  "SEQ_MASK = 0x7FFFFFFF"

definition seq_new :: "u32 \<Rightarrow> seq_number" where
  "seq_new value = SeqNumber (value AND SEQ_MASK)"

definition seq_value :: "seq_number \<Rightarrow> u32" where
  "seq_value s = raw s"

text \<open>The argument \<open>n\<close> is an \<open>i32\<close>; \<^term>\<open>word_of_int n :: u32\<close> is the cast \<open>n as u32\<close>.\<close>

definition seq_add :: "seq_number \<Rightarrow> int \<Rightarrow> seq_number" where
  "seq_add s n = SeqNumber ((raw s + word_of_int n) AND SEQ_MASK)"

definition seq_next :: "seq_number \<Rightarrow> seq_number" where
  "seq_next s = seq_add s 1"

definition seq_prev :: "seq_number \<Rightarrow> seq_number" where
  "seq_prev s = seq_add s (- 1)"

definition seq_diff :: "seq_number \<Rightarrow> seq_number \<Rightarrow> int" where
  "seq_diff s t =
     (let d = (raw s - raw t) AND SEQ_MASK
      in if d > SEQ_MASK div 2 then uint d - 2 ^ 31 else uint d)"

text \<open>The private field of \<open>SeqNumber\<close> is only written masked.\<close>

definition seq_ok :: "seq_number \<Rightarrow> bool" where
  "seq_ok s \<longleftrightarrow> raw s \<le> SEQ_MASK"

section \<open>Message numbers, socket ids, timestamps\<close>

datatype msg_number = MsgNumber (msg_raw: u32)

definition MSG_MASK :: u32 where
  "MSG_MASK = 0x03FFFFFF"

definition msg_new :: "u32 \<Rightarrow> msg_number" where
  "msg_new value = MsgNumber (value AND MSG_MASK)"

definition msg_value :: "msg_number \<Rightarrow> u32" where
  "msg_value m = msg_raw m"

definition msg_next :: "msg_number \<Rightarrow> msg_number" where
  "msg_next m = MsgNumber ((msg_raw m + 1) AND MSG_MASK)"

definition msg_ok :: "msg_number \<Rightarrow> bool" where
  "msg_ok m \<longleftrightarrow> msg_raw m \<le> MSG_MASK"

datatype socket_id = SocketId (sid: u32)

definition SID_HANDSHAKE :: socket_id where
  "SID_HANDSHAKE = SocketId 0"

datatype timestamp = Timestamp (ts_us: u32)

section \<open>Representatives\<close>

definition seq_of :: "int \<Rightarrow> seq_number" where
  "seq_of i = SeqNumber (word_of_int i AND SEQ_MASK)"

lemma and_SEQ_MASK: "x AND SEQ_MASK = take_bit 31 x"
  by (simp add: SEQ_MASK_def take_bit_eq_mask mask_numeral)

lemma and_MSG_MASK: "x AND MSG_MASK = take_bit 26 x"
  by (simp add: MSG_MASK_def take_bit_eq_mask mask_numeral)

lemma uint_and_SEQ_MASK: "uint (x AND SEQ_MASK) = uint x mod 2 ^ 31"
  by (simp add: and_SEQ_MASK unsigned_take_bit_eq take_bit_eq_mod [of 31 "uint x"])

lemma uint_and_MSG_MASK: "uint (x AND MSG_MASK) = uint x mod 2 ^ 26"
  by (simp add: and_MSG_MASK unsigned_take_bit_eq take_bit_eq_mod [of 26 "uint x"])

lemma mod_mod_31: "(i mod 2 ^ 32) mod 2 ^ 31 = i mod (2 ^ 31 :: int)"
  by (rule mod_mod_cancel) (simp add: le_imp_power_dvd)

lemma uint_seq_of: "uint (raw (seq_of i)) = i mod 2 ^ 31"
proof -
  have "uint (raw (seq_of i)) = uint (word_of_int i :: u32) mod 2 ^ 31"
    by (simp only: seq_of_def seq_number.sel uint_and_SEQ_MASK)
  also have "\<dots> = (i mod 2 ^ 32) mod 2 ^ 31"
    by (simp add: unsigned_of_int take_bit_eq_mod)
  finally show ?thesis by (simp only: mod_mod_31)
qed

lemma seq_eqI: "uint (raw s) = uint (raw t) \<Longrightarrow> s = t"
  by (cases s; cases t) (simp add: word_uint_eq_iff)

lemma seq_of_eq_iff: "seq_of i = seq_of j \<longleftrightarrow> i mod 2 ^ 31 = j mod 2 ^ 31"
  by (metis uint_seq_of seq_eqI)

lemma seq_ok_uint: "seq_ok s \<longleftrightarrow> uint (raw s) < 2 ^ 31"
  by (auto simp: seq_ok_def SEQ_MASK_def word_le_def)

lemma seq_ok_seq_of [simp]: "seq_ok (seq_of i)"
  by (simp add: seq_ok_uint uint_seq_of)

lemma seq_of_uint_raw: "seq_ok s \<Longrightarrow> seq_of (uint (raw s)) = s"
  by (rule seq_eqI) (simp add: uint_seq_of seq_ok_uint)

lemma seq_new_ok [simp]: "seq_ok (seq_new v)"
  by (simp add: seq_ok_uint seq_new_def uint_and_SEQ_MASK)

lemma seq_new_value: "seq_ok s \<Longrightarrow> seq_new (seq_value s) = s"
  by (rule seq_eqI) (simp add: seq_new_def seq_value_def uint_and_SEQ_MASK seq_ok_uint)

lemma uint_seq_add: "uint (raw (seq_add s n)) = (uint (raw s) + n) mod 2 ^ 31"
proof -
  have "uint (raw (seq_add s n)) = uint (raw s + word_of_int n) mod 2 ^ 31"
    by (simp only: seq_add_def seq_number.sel uint_and_SEQ_MASK)
  also have "\<dots> = ((uint (raw s) + n) mod 2 ^ 32) mod 2 ^ 31"
    by (simp add: uint_word_ariths unsigned_of_int take_bit_eq_mod mod_add_right_eq)
  finally show ?thesis by (simp only: mod_mod_31)
qed

lemma seq_add_seq_of: "seq_add (seq_of i) n = seq_of (i + n)"
  by (rule seq_eqI) (simp only: uint_seq_add uint_seq_of mod_add_left_eq)

lemma uint_seq_sub: "uint ((raw s - raw t) AND SEQ_MASK) = (uint (raw s) - uint (raw t)) mod 2 ^ 31"
proof -
  have "uint ((raw s - raw t) AND SEQ_MASK) = ((uint (raw s) - uint (raw t)) mod 2 ^ 32) mod 2 ^ 31"
    by (simp only: uint_and_SEQ_MASK uint_word_ariths) simp
  then show ?thesis by (simp only: mod_mod_31)
qed

lemma seq_diff_uint:
  "seq_diff s t =
     (let d = (uint (raw s) - uint (raw t)) mod 2 ^ 31 in if d \<ge> 2 ^ 30 then d - 2 ^ 31 else d)"
proof -
  have "(d > SEQ_MASK div 2) \<longleftrightarrow> uint d \<ge> 2 ^ 30" for d :: u32
    by (auto simp: SEQ_MASK_def word_less_def uint_div)
  then show ?thesis
    by (simp only: seq_diff_def Let_def uint_seq_sub)
qed

lemma seq_diff_seq_of_mod:
  "seq_diff (seq_of i) (seq_of j) =
     (let d = (i - j) mod 2 ^ 31 in if d \<ge> 2 ^ 30 then d - 2 ^ 31 else d)"
  by (simp only: seq_diff_uint uint_seq_of mod_diff_eq)

lemma seq_diff_range: "- (2 ^ 30) \<le> seq_diff s t \<and> seq_diff s t < 2 ^ 30"
proof -
  let ?d = "(uint (raw s) - uint (raw t)) mod 2 ^ 31"
  have "0 \<le> ?d" "?d < 2 ^ 31" by simp_all
  then show ?thesis by (auto simp: seq_diff_uint Let_def)
qed

text \<open>
  The interface the buffers rely on: wire numbers stand for unbounded indices, addition is
  index addition, and the distance of two indices less than half the space apart is exact.
\<close>

locale seq_space =
  fixes rep :: "int \<Rightarrow> 's" and plus :: "'s \<Rightarrow> int \<Rightarrow> 's" and dist :: "'s \<Rightarrow> 's \<Rightarrow> int"
    and half :: int
  assumes plus_rep: "plus (rep i) n = rep (i + n)"
    and dist_rep: "- half \<le> i - j \<Longrightarrow> i - j < half \<Longrightarrow> dist (rep i) (rep j) = i - j"
    and half_pos: "0 < half"
begin

lemma dist_self: "dist (rep i) (rep i) = 0"
  using dist_rep [of i i] half_pos by simp

lemma dist_plus: "- half \<le> n \<Longrightarrow> n < half \<Longrightarrow> dist (plus (rep i) n) (rep i) = n"
  by (simp add: plus_rep dist_rep)

lemma rep_inj: "\<bar>i - j\<bar> < half \<Longrightarrow> rep i = rep j \<longleftrightarrow> i = j"
  using dist_rep [of i j] dist_self [of j] by auto

lemma dist_pos_iff: "\<bar>i - j\<bar> < half \<Longrightarrow> 0 < dist (rep i) (rep j) \<longleftrightarrow> j < i"
  by (subst dist_rep) auto

lemma dist_neg_iff: "\<bar>i - j\<bar> < half \<Longrightarrow> dist (rep i) (rep j) < 0 \<longleftrightarrow> i < j"
  by (subst dist_rep) auto

lemma dist_le_iff: "\<bar>i - j\<bar> < half \<Longrightarrow> dist (rep i) (rep j) \<le> 0 \<longleftrightarrow> i \<le> j"
  by (subst dist_rep) auto

end

interpretation sq: seq_space seq_of seq_add seq_diff "2 ^ 30"
proof
  show "seq_add (seq_of i) n = seq_of (i + n)" for i n
    by (rule seq_add_seq_of)
  show "seq_diff (seq_of i) (seq_of j) = i - j" if "- (2 ^ 30) \<le> i - j" "i - j < 2 ^ 30" for i j
  proof (cases "0 \<le> i - j")
    case True
    with that show ?thesis by (simp add: seq_diff_seq_of_mod Let_def)
  next
    case False
    have "(i - j) mod 2 ^ 31 = i - j + 2 ^ 31"
      using that False mod_add_self2 [of "i - j" "2 ^ 31"]
      by (subst mod_add_self2 [symmetric], subst mod_pos_pos_trivial) auto
    with that False show ?thesis by (simp add: seq_diff_seq_of_mod Let_def)
  qed
qed simp

lemma seq_next_seq_of [seq_simps]: "seq_next (seq_of i) = seq_of (i + 1)"
  by (simp add: seq_next_def sq.plus_rep)

lemma seq_prev_seq_of [seq_simps]: "seq_prev (seq_of i) = seq_of (i - 1)"
  by (simp add: seq_prev_def sq.plus_rep)

lemma seq_rep_ex: "seq_ok s \<Longrightarrow> \<exists>i. s = seq_of i"
  by (metis seq_of_uint_raw)

lemma seq_rep_near:
  assumes "seq_ok s" shows "s = seq_of (j + seq_diff s (seq_of j))"
proof -
  obtain i where i: "s = seq_of i" using seq_rep_ex [OF assms] by blast
  have "(j + seq_diff (seq_of i) (seq_of j)) mod 2 ^ 31 = i mod 2 ^ 31"
  proof (cases "(i - j) mod 2 ^ 31 \<ge> 2 ^ 30")
    case True
    have "(j + ((i - j) mod 2 ^ 31 - 2 ^ 31)) mod 2 ^ 31 = (j + (i - j) mod 2 ^ 31) mod 2 ^ 31"
      using mod_add_self2 [of "j + ((i - j) mod 2 ^ 31 - 2 ^ 31)" "2 ^ 31 :: int"]
      by (simp add: algebra_simps)
    then show ?thesis
      using True by (simp add: seq_diff_seq_of_mod Let_def mod_add_right_eq)
  next
    case False
    then show ?thesis by (simp add: seq_diff_seq_of_mod Let_def mod_add_right_eq)
  qed
  then show ?thesis unfolding i by (subst seq_of_eq_iff) simp
qed

lemma seq_add_ok [simp]: "seq_ok (seq_add s n)"
  by (simp add: seq_ok_uint uint_seq_add)

lemma msg_ok_uint: "msg_ok m \<longleftrightarrow> uint (msg_raw m) < 2 ^ 26"
  by (auto simp: msg_ok_def MSG_MASK_def word_le_def)

lemma msg_new_ok [simp]: "msg_ok (msg_new v)"
  by (simp add: msg_ok_uint msg_new_def uint_and_MSG_MASK)

lemma msg_new_value: "msg_ok m \<Longrightarrow> msg_new (msg_value m) = m"
  by (cases m) (simp add: msg_new_def msg_value_def msg_ok_uint word_uint_eq_iff uint_and_MSG_MASK)

lemma msg_next_ok [simp]: "msg_ok (msg_next m)"
  by (simp add: msg_ok_uint msg_next_def uint_and_MSG_MASK)

end
