(* ===== verification/Packet_Base.thy ===== *)
theory Packet_Base
  imports Seq_Number
begin

text \<open>
  The helpers of \<open>src/packet/mod.rs\<close> every codec uses: the header size, big-endian reads at an
  offset (which panic when the slice does not fit, as Rust's indexing does), appends to the
  output vector, and the error type of the parsers.
\<close>

definition HEADER_SIZE :: nat where
  "HEADER_SIZE = 16"

datatype packet_error =
    TooShort
  | UnknownControlType u16
  | BadHandshake string
  | BadCif string

definition read_u32 :: "bytes \<Rightarrow> nat \<Rightarrow> (u32, 'e) outcome" where
  "read_u32 buf off =
     (if off + 4 \<le> length buf then Ok (from_be32 (take 4 (drop off buf))) else Panic)"

definition read_u16 :: "bytes \<Rightarrow> nat \<Rightarrow> (u16, 'e) outcome" where
  "read_u16 buf off =
     (if off + 2 \<le> length buf then Ok (from_be16 (take 2 (drop off buf))) else Panic)"

definition put_u32 :: "bytes \<Rightarrow> u32 \<Rightarrow> bytes" where
  "put_u32 out value = out @ be32 value"

text \<open>The slice \<open>buf[from ..]\<close>, which panics when \<open>from\<close> is past the end.\<close>

definition slice_from :: "bytes \<Rightarrow> nat \<Rightarrow> (bytes, 'e) outcome" where
  "slice_from buf a = (if a \<le> length buf then Ok (drop a buf) else Panic)"

text \<open>The slice \<open>buf[from .. to]\<close>.\<close>

definition slice :: "bytes \<Rightarrow> nat \<Rightarrow> nat \<Rightarrow> (bytes, 'e) outcome" where
  "slice buf a b = (if a \<le> b \<and> b \<le> length buf then Ok (take (b - a) (drop a buf)) else Panic)"

interpretation f32: be_field 4 be32 from_be32 read_u32
  by unfold_locales (simp_all add: be32_from_be32 read_u32_def)

interpretation f16: be_field 2 be16 from_be16 read_u16
  by unfold_locales (simp_all add: be16_from_be16 read_u16_def)

lemmas field_reads [wire_simps] =
  f32.rd_here f32.rd_here_end f32.rd_skip f16.rd_here f16.rd_here_end f16.rd_skip

lemma slice_from_skip [wire_simps]:
  "length xs \<le> a \<Longrightarrow> slice_from (xs @ rest) a = slice_from rest (a - length xs)"
  by (auto simp: slice_from_def)

lemma slice_from_0 [wire_simps]: "slice_from xs 0 = Ok xs"
  by (simp add: slice_from_def)

lemma slice_skip [wire_simps]:
  "length xs \<le> a \<Longrightarrow> a \<le> b \<Longrightarrow> slice (xs @ rest) a b = slice rest (a - length xs) (b - length xs)"
  by (auto simp: slice_def)

lemma slice_here [wire_simps]: "b = length xs \<Longrightarrow> slice (xs @ rest) 0 b = Ok xs"
  by (simp add: slice_def)

lemma slice_here_end [wire_simps]: "b = length xs \<Longrightarrow> slice xs 0 b = Ok xs"
  by (simp add: slice_def)

lemmas read_Panic_iff [no_panic] = f32.rd_Panic_iff f16.rd_Panic_iff

lemma slice_Panic_iff [no_panic]:
  "slice buf a b = Panic \<longleftrightarrow> b < a \<or> length buf < b"
  "slice_from buf a = Panic \<longleftrightarrow> length buf < a"
  by (auto simp: slice_def slice_from_def)

lemma slice_Ok_length:
  "slice buf a b = Ok xs \<Longrightarrow> length xs = b - a"
  "slice_from buf a = Ok xs \<Longrightarrow> length xs = length buf - a"
  by (auto simp: slice_def slice_from_def split: if_splits)

section \<open>Bit fields of a word\<close>

lemma bit_below: "take_bit k x = x \<Longrightarrow> bit x n \<Longrightarrow> n < k"
  by (metis bit_take_bit_iff)

lemma and_3: "x AND 3 = take_bit 2 (x :: u32)"
  by (simp add: take_bit_eq_mask mask_numeral)

lemma and_single_bit:
  "w AND 0x20000000 \<noteq> 0 \<longleftrightarrow> bit (w :: u32) 29"
  "w AND 0x04000000 \<noteq> 0 \<longleftrightarrow> bit (w :: u32) 26"
  "w AND 0x80000000 \<noteq> 0 \<longleftrightarrow> bit (w :: u32) 31"
  using and_exp_eq_0_iff_not_bit [of w 29] and_exp_eq_0_iff_not_bit [of w 26]
    and_exp_eq_0_iff_not_bit [of w 31] by simp_all

lemma take_bit_of_bool: "take_bit (Suc 0) (of_bool b :: u32) = of_bool b"
  by (cases b) simp_all

end
