(* ===== verification/Packet_Data.thy ===== *)
theory Packet_Data
  imports Packet_Base
begin

text \<open>
  Data packets (\<open>src/packet/data.rs\<close>): the PP and KK fields, the header word layout, and the
  round trip between \<open>DataPacket::encode\<close> and \<open>DataPacket::parse\<close>.
\<close>

datatype packet_position = Middle | Last | First | Only

definition position_from_bits :: "u32 \<Rightarrow> packet_position" where
  "position_from_bits bits =
     (let b = bits AND 3 in
      if b = 0 then Middle else if b = 1 then Last else if b = 2 then First else Only)"

text \<open>The discriminants, read by the cast \<open>self.position as u32\<close>.\<close>

fun position_bits :: "packet_position \<Rightarrow> u32" where
  "position_bits Middle = 0"
| "position_bits Last = 1"
| "position_bits First = 2"
| "position_bits Only = 3"

datatype encryption_flags = EncNone | EncEven | EncOdd | EncBoth

definition encryption_from_bits :: "u32 \<Rightarrow> encryption_flags" where
  "encryption_from_bits bits =
     (let b = bits AND 3 in
      if b = 0 then EncNone else if b = 1 then EncEven else if b = 2 then EncOdd else EncBoth)"

fun encryption_bits :: "encryption_flags \<Rightarrow> u32" where
  "encryption_bits EncNone = 0"
| "encryption_bits EncEven = 1"
| "encryption_bits EncOdd = 2"
| "encryption_bits EncBoth = 3"

record data_packet =
  dp_seq :: seq_number
  dp_position :: packet_position
  dp_order :: bool
  dp_encryption :: encryption_flags
  dp_retransmitted :: bool
  dp_msg_number :: msg_number
  dp_timestamp :: timestamp
  dp_dst_socket_id :: socket_id
  dp_payload :: bytes

definition data_parse :: "bytes \<Rightarrow> (data_packet, packet_error) outcome" where
  "data_parse buf =
     (if length buf < HEADER_SIZE then Err TooShort
      else bind_outcome (read_u32 buf 0) (\<lambda>word0.
           bind_outcome (read_u32 buf 4) (\<lambda>word1.
           bind_outcome (read_u32 buf 8) (\<lambda>ts.
           bind_outcome (read_u32 buf 12) (\<lambda>dst.
           bind_outcome (slice_from buf HEADER_SIZE) (\<lambda>payload.
           Ok \<lparr> dp_seq = seq_new (word0 AND SEQ_MASK),
                dp_position = position_from_bits (drop_bit 30 word1),
                dp_order = (word1 AND 0x20000000 \<noteq> 0),
                dp_encryption = encryption_from_bits (drop_bit 27 word1),
                dp_retransmitted = (word1 AND 0x04000000 \<noteq> 0),
                dp_msg_number = msg_new (word1 AND MSG_MASK),
                dp_timestamp = Timestamp ts,
                dp_dst_socket_id = SocketId dst,
                dp_payload = payload \<rparr>))))))"

definition header_word1 :: "data_packet \<Rightarrow> u32" where
  "header_word1 p =
     push_bit 30 (position_bits (dp_position p))
     OR push_bit 29 (of_bool (dp_order p))
     OR push_bit 27 (encryption_bits (dp_encryption p))
     OR push_bit 26 (of_bool (dp_retransmitted p))
     OR msg_value (dp_msg_number p)"

definition encode_header :: "data_packet \<Rightarrow> bytes" where
  "encode_header p =
     be32 (seq_value (dp_seq p)) @ be32 (header_word1 p)
     @ be32 (ts_us (dp_timestamp p)) @ be32 (sid (dp_dst_socket_id p))"

definition data_encode :: "data_packet \<Rightarrow> bytes \<Rightarrow> bytes" where
  "data_encode p out = out @ encode_header p @ dp_payload p"

definition data_wf :: "data_packet \<Rightarrow> bool" where
  "data_wf p \<longleftrightarrow> seq_ok (dp_seq p) \<and> msg_ok (dp_msg_number p)"

section \<open>The second header word\<close>

lemma position_bits_width: "take_bit 2 (position_bits p) = position_bits p"
  by (cases p) simp_all

lemma encryption_bits_width: "take_bit 2 (encryption_bits e) = encryption_bits e"
  by (cases e) simp_all

lemma position_round: "bits AND 3 = position_bits p \<Longrightarrow> position_from_bits bits = p"
  by (cases p) (simp_all add: position_from_bits_def)

lemma encryption_round: "bits AND 3 = encryption_bits e \<Longrightarrow> encryption_from_bits bits = e"
  by (cases e) (simp_all add: encryption_from_bits_def)

lemma msg_value_width: "msg_ok m \<Longrightarrow> take_bit 26 (msg_value m) = msg_value m"
  by (metis and_MSG_MASK msg_new_def msg_new_value msg_number.sel msg_value_def)

lemma bit_header_word1:
  assumes "msg_ok (dp_msg_number p)" "n < 32"
  shows "bit (header_word1 p) n \<longleftrightarrow>
    (if n < 26 then bit (msg_value (dp_msg_number p)) n
     else if n = 26 then dp_retransmitted p
     else if n < 29 then bit (encryption_bits (dp_encryption p)) (n - 27)
     else if n = 29 then dp_order p
     else bit (position_bits (dp_position p)) (n - 30))"
  using assms(2) bit_below [OF msg_value_width [OF assms(1)], of n]
    bit_below [OF position_bits_width [of "dp_position p"], of "n - 30"]
    bit_below [OF encryption_bits_width [of "dp_encryption p"], of "n - 27"]
  by (auto simp: header_word1_def bit_simps)

lemma header_word1_fields:
  assumes "msg_ok (dp_msg_number p)"
  shows "position_from_bits (drop_bit 30 (header_word1 p)) = dp_position p"
    and "encryption_from_bits (drop_bit 27 (header_word1 p)) = dp_encryption p"
    and "header_word1 p AND MSG_MASK = msg_value (dp_msg_number p)"
    and "bit (header_word1 p) 29 = dp_order p"
    and "bit (header_word1 p) 26 = dp_retransmitted p"
proof -
  have "drop_bit 30 (header_word1 p) AND 3 = position_bits (dp_position p)"
  proof (rule bit_word_eqI)
    fix n
    show "bit (drop_bit 30 (header_word1 p) AND 3) n = bit (position_bits (dp_position p)) n"
      using bit_below [OF position_bits_width [of "dp_position p"], of n]
      by (cases "n < 2") (auto simp: and_3 bit_simps bit_header_word1 [OF assms])
  qed
  then show "position_from_bits (drop_bit 30 (header_word1 p)) = dp_position p"
    by (rule position_round)
  have "drop_bit 27 (header_word1 p) AND 3 = encryption_bits (dp_encryption p)"
  proof (rule bit_word_eqI)
    fix n
    show "bit (drop_bit 27 (header_word1 p) AND 3) n = bit (encryption_bits (dp_encryption p)) n"
      using bit_below [OF encryption_bits_width [of "dp_encryption p"], of n]
      by (cases "n < 2") (auto simp: and_3 bit_simps bit_header_word1 [OF assms])
  qed
  then show "encryption_from_bits (drop_bit 27 (header_word1 p)) = dp_encryption p"
    by (rule encryption_round)
  show "header_word1 p AND MSG_MASK = msg_value (dp_msg_number p)"
    by (rule bit_word_eqI)
      (auto simp: and_MSG_MASK bit_simps bit_header_word1 [OF assms]
        dest: bit_below [OF msg_value_width [OF assms]])
qed (simp_all add: bit_header_word1 [OF assms])

section \<open>Round trip and totality\<close>

lemma length_encode_header [simp]: "length (encode_header p) = HEADER_SIZE"
  by (simp add: encode_header_def HEADER_SIZE_def)

lemma seq_value_masked: "seq_ok s \<Longrightarrow> seq_value s AND SEQ_MASK = seq_value s"
  by (metis seq_new_def seq_new_value seq_number.sel seq_value_def)

lemma data_parse_encode:
  assumes "data_wf p" shows "data_parse (data_encode p []) = Ok p"
  using assms header_word1_fields [of p]
  by (simp add: data_parse_def data_encode_def encode_header_def HEADER_SIZE_def wire_simps data_wf_def
      and_single_bit seq_new_value seq_value_masked msg_new_value)

interpretation data_fmt: wire_format "\<lambda>p. data_encode p []" data_parse data_wf
  by unfold_locales (rule data_parse_encode)

lemma data_parse_no_panic [no_panic]: "data_parse buf \<noteq> Panic"
  by (simp add: data_parse_def HEADER_SIZE_def no_panic)

lemma data_parse_wf: "data_parse buf = Ok p \<Longrightarrow> data_wf p"
  by (auto simp: data_parse_def data_wf_def bind_outcome_Ok_iff split: if_splits)

lemma data_encode_append: "data_encode p out = out @ data_encode p []"
  by (simp add: data_encode_def)

text \<open>A data packet's F bit is clear.\<close>

lemma data_encode_F_bit:
  assumes "data_wf p" shows "\<not> bit (hd (data_encode p [])) 7"
proof -
  have "take_bit 31 (seq_value (dp_seq p)) = seq_value (dp_seq p)"
    using assms seq_value_masked by (simp add: data_wf_def and_SEQ_MASK)
  then have "\<not> bit (seq_value (dp_seq p)) 31"
    using bit_below by blast
  then show ?thesis
    by (simp add: data_encode_def encode_header_def be32_def bit_simps)
qed

end
