(* ===== verification/Utf8_Lossy.thy ===== *)
theory Utf8_Lossy
  imports Srt_Prelude
begin

text \<open>
  Rust's \<open>String::from_utf8_lossy\<close>, which the handshake codec applies to the StreamID and
  congestion-controller blocks.  A \<open>String\<close> is the byte list of its UTF-8 encoding; one scanning
  step consumes either one encoded scalar value or one maximal invalid prefix, which is replaced
  by U+FFFD (bytes EF BF BD).
\<close>

definition safe_get :: "bytes \<Rightarrow> nat \<Rightarrow> u8" where
  "safe_get bs i = (if i < length bs then bs ! i else 0)"

definition is_cont :: "u8 \<Rightarrow> bool" where
  "is_cont b \<longleftrightarrow> b AND 192 = 128"

definition char_width :: "u8 \<Rightarrow> nat" where
  "char_width b =
     (if b < 0x80 then 1
      else if 0xC2 \<le> b \<and> b \<le> 0xDF then 2
      else if 0xE0 \<le> b \<and> b \<le> 0xEF then 3
      else if 0xF0 \<le> b \<and> b \<le> 0xF4 then 4
      else 0)"

definition second_ok :: "u8 \<Rightarrow> u8 \<Rightarrow> bool" where
  "second_ok b c \<longleftrightarrow>
     (b = 0xE0 \<and> 0xA0 \<le> c \<and> c \<le> 0xBF)
   \<or> (0xE1 \<le> b \<and> b \<le> 0xEC \<and> 0x80 \<le> c \<and> c \<le> 0xBF)
   \<or> (b = 0xED \<and> 0x80 \<le> c \<and> c \<le> 0x9F)
   \<or> (0xEE \<le> b \<and> b \<le> 0xEF \<and> 0x80 \<le> c \<and> c \<le> 0xBF)
   \<or> (b = 0xF0 \<and> 0x90 \<le> c \<and> c \<le> 0xBF)
   \<or> (0xF1 \<le> b \<and> b \<le> 0xF3 \<and> 0x80 \<le> c \<and> c \<le> 0xBF)
   \<or> (b = 0xF4 \<and> 0x80 \<le> c \<and> c \<le> 0x8F)"

text \<open>One scanning step on a nonempty input: the bytes consumed, and whether they are valid.\<close>

definition utf8_step :: "bytes \<Rightarrow> nat \<times> bool" where
  "utf8_step bs =
     (let b = safe_get bs 0; w = char_width b in
      if w = 1 then (1, True)
      else if w = 2 then (if is_cont (safe_get bs 1) then (2, True) else (1, False))
      else if w = 3 then
        (if \<not> second_ok b (safe_get bs 1) then (1, False)
         else if \<not> is_cont (safe_get bs 2) then (2, False) else (3, True))
      else if w = 4 then
        (if \<not> second_ok b (safe_get bs 1) then (1, False)
         else if \<not> is_cont (safe_get bs 2) then (2, False)
         else if \<not> is_cont (safe_get bs 3) then (3, False) else (4, True))
      else (1, False))"

lemma utf8_step_pos: "0 < fst (utf8_step bs)"
  by (simp add: utf8_step_def Let_def)

function utf8_valid :: "bytes \<Rightarrow> bool" where
  "utf8_valid bs =
     (if bs = [] then True
      else snd (utf8_step bs) \<and> utf8_valid (drop (fst (utf8_step bs)) bs))"
  by pat_completeness auto
termination
  by (relation "measure length") (auto simp: utf8_step_pos)

function from_utf8_lossy :: "bytes \<Rightarrow> bytes" where
  "from_utf8_lossy bs =
     (if bs = [] then []
      else (if snd (utf8_step bs) then take (fst (utf8_step bs)) bs else [0xEF, 0xBF, 0xBD])
           @ from_utf8_lossy (drop (fst (utf8_step bs)) bs))"
  by pat_completeness auto
termination
  by (relation "measure length") (auto simp: utf8_step_pos)

declare utf8_valid.simps [simp del] from_utf8_lossy.simps [simp del]

lemma utf8_valid_Nil [simp]: "utf8_valid []"
  by (subst utf8_valid.simps) simp

lemma from_utf8_lossy_Nil [simp]: "from_utf8_lossy [] = []"
  by (subst from_utf8_lossy.simps) simp

lemma from_utf8_lossy_id: "utf8_valid bs \<Longrightarrow> from_utf8_lossy bs = bs"
proof (induction bs rule: utf8_valid.induct)
  case (1 bs)
  show ?case
  proof (cases "bs = []")
    case False
    with "1.prems" have "snd (utf8_step bs)" "utf8_valid (drop (fst (utf8_step bs)) bs)"
      by (auto simp: utf8_valid.simps [of bs])
    with "1.IH" False show ?thesis
      by (simp add: from_utf8_lossy.simps [of bs])
  qed simp
qed

lemma not_cont_0: "\<not> is_cont 0" "\<not> second_ok b 0"
  by (simp_all add: is_cont_def second_ok_def)

lemma safe_get_nonzero: "safe_get bs i \<noteq> 0 \<Longrightarrow> i < length bs"
  by (auto simp: safe_get_def split: if_splits)

lemma safe_get_cont: "is_cont (safe_get bs i) \<Longrightarrow> i < length bs"
  by (metis not_cont_0(1) safe_get_nonzero)

lemma safe_get_second: "second_ok b (safe_get bs i) \<Longrightarrow> i < length bs"
  by (metis not_cont_0(2) safe_get_nonzero)

lemma utf8_step_valid_length:
  assumes "snd (utf8_step bs)" "bs \<noteq> []" shows "fst (utf8_step bs) \<le> length bs"
proof -
  have "Suc 0 \<le> length bs" using assms(2) by (simp add: Suc_le_eq)
  with assms(1) show ?thesis
    using safe_get_cont [of bs 1] safe_get_cont [of bs 2] safe_get_cont [of bs 3]
      safe_get_second [of "safe_get bs 0" bs 1]
    by (auto simp: utf8_step_def Let_def split: if_splits)
qed

lemma safe_get_take: "i < n \<Longrightarrow> n \<le> length bs \<Longrightarrow> safe_get (take n bs @ rest) i = safe_get bs i"
  by (simp add: safe_get_def nth_append)

lemma utf8_step_prefix:
  assumes v: "snd (utf8_step bs)" and n: "fst (utf8_step bs) = n" and "n \<le> length bs"
  shows "utf8_step (take n bs @ rest) = (n, True)"
proof -
  have g: "i < n \<Longrightarrow> safe_get (take n bs @ rest) i = safe_get bs i" for i
    using safe_get_take [OF _ assms(3)] .
  have "0 < n" using utf8_step_pos [of bs] n by simp
  with v n show ?thesis
    using g [of 0] g [of 1] g [of 2] g [of 3]
    by (auto simp: utf8_step_def Let_def split: if_splits)
qed

lemma replacement_step: "utf8_step ([0xEF, 0xBF, 0xBD] @ rest) = (3, True)"
  by (simp add: utf8_step_def safe_get_def char_width_def second_ok_def is_cont_def)

lemma utf8_valid_cons_step:
  "utf8_step (xs @ rest) = (length xs, True) \<Longrightarrow> xs \<noteq> [] \<Longrightarrow> utf8_valid rest \<Longrightarrow> utf8_valid (xs @ rest)"
  by (subst utf8_valid.simps) simp

lemma from_utf8_lossy_valid: "utf8_valid (from_utf8_lossy bs)"
proof (induction bs rule: from_utf8_lossy.induct)
  case (1 bs)
  show ?case
  proof (cases "bs = []")
    case False
    let ?n = "fst (utf8_step bs)" and ?rest = "from_utf8_lossy (drop (fst (utf8_step bs)) bs)"
    have IH: "utf8_valid ?rest" using "1.IH" False by simp
    show ?thesis
    proof (cases "snd (utf8_step bs)")
      case True
      have le: "?n \<le> length bs" using True False by (rule utf8_step_valid_length)
      have "utf8_valid (take ?n bs @ ?rest)"
        using utf8_step_prefix [OF True refl le, of ?rest] le IH False utf8_step_pos [of bs]
        by (intro utf8_valid_cons_step) auto
      then show ?thesis using False True by (simp add: from_utf8_lossy.simps [of bs])
    next
      case inv: False
      have "utf8_valid ([0xEF, 0xBF, 0xBD] @ ?rest)"
        using replacement_step [of ?rest] IH by (intro utf8_valid_cons_step) simp_all
      then show ?thesis using False inv by (simp add: from_utf8_lossy.simps [of bs])
    qed
  qed simp
qed

end
