(* ===== verification/Packet_Handshake.thy ===== *)
theory Packet_Handshake
  imports Packet_Base Utf8_Lossy
begin

text \<open>
  The handshake CIF and its extension blocks (\<open>src/packet/handshake.rs\<close>): handshake types and
  rejection codes, HSREQ/HSRSP fields, the StreamID word swap, the extension loop, and the
  round trip of a consistent CIF.
\<close>

section \<open>Constants\<close>

definition SRT_VERSION :: u32 where "SRT_VERSION = 0x00010404"
definition SRT_MAGIC :: u16 where "SRT_MAGIC = 0x4A17"
definition HS_EXT_HSREQ :: u16 where "HS_EXT_HSREQ = 1"
definition HS_EXT_KMREQ :: u16 where "HS_EXT_KMREQ = 2"
definition HS_EXT_CONFIG :: u16 where "HS_EXT_CONFIG = 4"
definition CIF_SIZE :: nat where "CIF_SIZE = 48"

definition SRT_CMD_HSREQ :: u16 where "SRT_CMD_HSREQ = 1"
definition SRT_CMD_HSRSP :: u16 where "SRT_CMD_HSRSP = 2"
definition SRT_CMD_KMREQ :: u16 where "SRT_CMD_KMREQ = 3"
definition SRT_CMD_KMRSP :: u16 where "SRT_CMD_KMRSP = 4"
definition SRT_CMD_SID :: u16 where "SRT_CMD_SID = 5"
definition SRT_CMD_CONGESTION :: u16 where "SRT_CMD_CONGESTION = 6"
definition SRT_CMD_FILTER :: u16 where "SRT_CMD_FILTER = 7"
definition SRT_CMD_GROUP :: u16 where "SRT_CMD_GROUP = 8"

lemmas cmd_defs = SRT_CMD_HSREQ_def SRT_CMD_HSRSP_def SRT_CMD_KMREQ_def SRT_CMD_KMRSP_def
  SRT_CMD_SID_def SRT_CMD_CONGESTION_def SRT_CMD_FILTER_def SRT_CMD_GROUP_def

section \<open>Handshake types\<close>

datatype handshake_type = Waveahand | Induction | Conclusion | Agreement | Rejection u32

definition hs_type_from_u32 :: "u32 \<Rightarrow> (handshake_type, packet_error) outcome" where
  "hs_type_from_u32 value =
     (if value = 0 then Ok Waveahand
      else if value = 1 then Ok Induction
      else if value = 0xFFFFFFFF then Ok Conclusion
      else if value = 0xFFFFFFFE then Ok Agreement
      else if 1000 \<le> value \<and> value \<le> 0x7FFFFFFF then Ok (Rejection value)
      else Err (BadHandshake ''unknown handshake type''))"

fun hs_type_to_u32 :: "handshake_type \<Rightarrow> u32" where
  "hs_type_to_u32 Waveahand = 0"
| "hs_type_to_u32 Induction = 1"
| "hs_type_to_u32 Conclusion = 0xFFFFFFFF"
| "hs_type_to_u32 Agreement = 0xFFFFFFFE"
| "hs_type_to_u32 (Rejection code) = code"

fun hs_type_wf :: "handshake_type \<Rightarrow> bool" where
  "hs_type_wf (Rejection code) \<longleftrightarrow> 1000 \<le> code \<and> code \<le> 0x7FFFFFFF"
| "hs_type_wf _ \<longleftrightarrow> True"

section \<open>HSREQ and HSRSP\<close>

datatype hs_flags = HsFlags (flag_bits: u32)

definition FLAG_TSBPDSND :: u32 where "FLAG_TSBPDSND = 0x01"
definition FLAG_TSBPDRCV :: u32 where "FLAG_TSBPDRCV = 0x02"
definition FLAG_CRYPT :: u32 where "FLAG_CRYPT = 0x04"
definition FLAG_TLPKTDROP :: u32 where "FLAG_TLPKTDROP = 0x08"
definition FLAG_PERIODICNAK :: u32 where "FLAG_PERIODICNAK = 0x10"
definition FLAG_REXMITFLG :: u32 where "FLAG_REXMITFLG = 0x20"
definition FLAG_STREAM :: u32 where "FLAG_STREAM = 0x40"
definition FLAG_PACKET_FILTER :: u32 where "FLAG_PACKET_FILTER = 0x80"

definition flags_contains :: "hs_flags \<Rightarrow> u32 \<Rightarrow> bool" where
  "flags_contains f bits \<longleftrightarrow> flag_bits f AND bits = bits"

definition live_defaults :: hs_flags where
  "live_defaults = HsFlags (FLAG_TSBPDSND OR FLAG_TSBPDRCV OR FLAG_CRYPT OR FLAG_TLPKTDROP
     OR FLAG_PERIODICNAK OR FLAG_REXMITFLG)"

record hs_ext_fields =
  he_srt_version :: u32
  he_flags :: hs_flags
  he_recv_latency_ms :: u16
  he_send_latency_ms :: u16

definition hs_ext_parse :: "bytes \<Rightarrow> (hs_ext_fields, packet_error) outcome" where
  "hs_ext_parse content =
     (if length content < 12 then Err (BadHandshake ''HSREQ/HSRSP shorter than 3 words'')
      else bind_outcome (read_u32 content 8) (\<lambda>latency.
           bind_outcome (read_u32 content 0) (\<lambda>version.
           bind_outcome (read_u32 content 4) (\<lambda>flags.
           Ok \<lparr> he_srt_version = version,
                he_flags = HsFlags flags,
                he_recv_latency_ms = ucast (drop_bit 16 latency),
                he_send_latency_ms = ucast latency \<rparr>))))"

definition hs_ext_encode :: "hs_ext_fields \<Rightarrow> bytes \<Rightarrow> bytes" where
  "hs_ext_encode f out =
     (let latency = push_bit 16 (ucast (he_recv_latency_ms f)) OR ucast (he_send_latency_ms f)
      in out @ be32 (he_srt_version f) @ be32 (flag_bits (he_flags f)) @ be32 latency)"

section \<open>Byte strings in reversed words\<close>

function pack_bytes_words :: "bytes \<Rightarrow> bytes \<Rightarrow> bytes" where
  "pack_bytes_words bs out =
     (if bs = [] then out
      else let chunk = take 4 bs; word = chunk @ replicate (4 - length chunk) 0
           in pack_bytes_words (drop 4 bs) (out @ rev word))"
  by pat_completeness auto
termination
  by (relation "measure (\<lambda>(bs, out). length bs)") auto

declare pack_bytes_words.simps [simp del]

definition unpack_bytes_words :: "bytes \<Rightarrow> bytes" where
  "unpack_bytes_words content =
     rev (dropWhile (\<lambda>b. b = 0) (rev (pack_bytes_words content [])))"

section \<open>Extension blocks\<close>

datatype hs_extension =
    HsReq hs_ext_fields
  | HsRsp hs_ext_fields
  | StreamId bytes
  | ExtKmReq bytes
  | ExtKmRsp bytes
  | Congestion bytes
  | ExtInvalid u16 bytes
  | ExtUnknown u16 bytes

fun ext_cmd :: "hs_extension \<Rightarrow> u16" where
  "ext_cmd (HsReq _) = SRT_CMD_HSREQ"
| "ext_cmd (HsRsp _) = SRT_CMD_HSRSP"
| "ext_cmd (StreamId _) = SRT_CMD_SID"
| "ext_cmd (ExtKmReq _) = SRT_CMD_KMREQ"
| "ext_cmd (ExtKmRsp _) = SRT_CMD_KMRSP"
| "ext_cmd (Congestion _) = SRT_CMD_CONGESTION"
| "ext_cmd (ExtInvalid cmd _) = cmd"
| "ext_cmd (ExtUnknown cmd _) = cmd"

fun ext_content :: "hs_extension \<Rightarrow> bytes \<Rightarrow> bytes" where
  "ext_content (HsReq f) out = hs_ext_encode f out"
| "ext_content (HsRsp f) out = hs_ext_encode f out"
| "ext_content (StreamId s) out = pack_bytes_words s out"
| "ext_content (Congestion s) out = pack_bytes_words s out"
| "ext_content (ExtKmReq data) out = out @ data"
| "ext_content (ExtKmRsp data) out = out @ data"
| "ext_content (ExtInvalid _ data) out = out @ data"
| "ext_content (ExtUnknown _ data) out = out @ data"

text \<open>The length field is written as two zero bytes and filled in once the content is known.\<close>

definition ext_encode :: "hs_extension \<Rightarrow> bytes \<Rightarrow> bytes" where
  "ext_encode ext out =
     (let out1 = out @ be16 (ext_cmd ext);
          len_at = length out1;
          out2 = ext_content ext (out1 @ [0, 0]);
          content_len = length out2 - len_at - 2
      in take len_at out2 @ be16 (of_nat (content_len div 4)) @ drop (len_at + 2) out2)"

definition parse_extension :: "u16 \<Rightarrow> bytes \<Rightarrow> (hs_extension, packet_error) outcome" where
  "parse_extension cmd content =
     (if cmd = SRT_CMD_HSREQ \<or> cmd = SRT_CMD_HSRSP then
        (case hs_ext_parse content of
           Ok f \<Rightarrow> Ok (if cmd = SRT_CMD_HSREQ then HsReq f else HsRsp f)
         | Err e \<Rightarrow> Ok (ExtInvalid cmd content)
         | Panic \<Rightarrow> Panic)
      else if cmd = SRT_CMD_KMREQ then Ok (ExtKmReq content)
      else if cmd = SRT_CMD_KMRSP then Ok (ExtKmRsp content)
      else if cmd = SRT_CMD_SID then
        (if content = [] \<or> length content > 512 then Ok (ExtInvalid cmd content)
         else Ok (StreamId (from_utf8_lossy (unpack_bytes_words content))))
      else if cmd = SRT_CMD_CONGESTION then
        Ok (Congestion (from_utf8_lossy (unpack_bytes_words content)))
      else Ok (ExtUnknown cmd content))"

lemma bind_outcome_cong [fundef_cong]:
  "m = m' \<Longrightarrow> (\<And>x. m' = Ok x \<Longrightarrow> f x = g x) \<Longrightarrow> bind_outcome m f = bind_outcome m' g"
  by (cases m') auto

function parse_extensions :: "bytes \<Rightarrow> (hs_extension list, packet_error) outcome" where
  "parse_extensions buf =
     (if 4 \<le> length buf then
        bind_outcome (read_u16 buf 0) (\<lambda>cmd.
        bind_outcome (read_u16 buf 2) (\<lambda>len.
        let content_len = unat len * 4 in
        if length buf - 4 < content_len then Err (BadHandshake ''truncated extension block'')
        else bind_outcome (slice buf 4 (4 + content_len)) (\<lambda>content.
             bind_outcome (parse_extension cmd content) (\<lambda>ext.
             bind_outcome (slice_from buf (4 + content_len)) (\<lambda>rest.
             bind_outcome (parse_extensions rest) (\<lambda>exts.
             Ok (ext # exts)))))))
      else Ok [])"
  by pat_completeness auto
termination
  by (relation "measure length") (auto simp: slice_from_def split: if_splits)

declare parse_extensions.simps [simp del]

section \<open>The CIF\<close>

record handshake_cif =
  hc_version :: u32
  hc_encryption :: u16
  hc_extension_field :: u16
  hc_initial_seq :: seq_number
  hc_mss :: u32
  hc_flow_window :: u32
  hc_handshake_type :: handshake_type
  hc_socket_id :: socket_id
  hc_cookie :: u32
  hc_peer_ip :: bytes
  hc_extensions :: "hs_extension list"

definition parse_cif :: "bytes \<Rightarrow> (handshake_cif, packet_error) outcome" where
  "parse_cif buf =
     (if length buf < CIF_SIZE then Err TooShort
      else bind_outcome (read_u32 buf 8) (\<lambda>isn.
        if isn \<ge> SEQ_MASK then Err (BadHandshake ''ISN outside valid range'')
        else bind_outcome (read_u32 buf 20) (\<lambda>ty.
          bind_outcome (hs_type_from_u32 ty) (\<lambda>handshake_type.
          bind_outcome (slice buf 32 48) (\<lambda>peer_ip.
          bind_outcome (slice_from buf CIF_SIZE) (\<lambda>ext_buf.
          bind_outcome (parse_extensions ext_buf) (\<lambda>extensions.
          bind_outcome (read_u32 buf 0) (\<lambda>version.
          bind_outcome (read_u16 buf 4) (\<lambda>encryption.
          bind_outcome (read_u16 buf 6) (\<lambda>extension_field.
          bind_outcome (read_u32 buf 12) (\<lambda>mss.
          bind_outcome (read_u32 buf 16) (\<lambda>flow_window.
          bind_outcome (read_u32 buf 24) (\<lambda>socket_id.
          bind_outcome (read_u32 buf 28) (\<lambda>cookie.
          Ok \<lparr> hc_version = version, hc_encryption = encryption,
               hc_extension_field = extension_field, hc_initial_seq = seq_new isn,
               hc_mss = mss, hc_flow_window = flow_window,
               hc_handshake_type = handshake_type, hc_socket_id = SocketId socket_id,
               hc_cookie = cookie, hc_peer_ip = peer_ip,
               hc_extensions = extensions \<rparr>))))))))))))))"

fun ext_bit :: "hs_extension \<Rightarrow> u16" where
  "ext_bit (HsReq _) = HS_EXT_HSREQ"
| "ext_bit (HsRsp _) = HS_EXT_HSREQ"
| "ext_bit (ExtKmReq _) = HS_EXT_KMREQ"
| "ext_bit (ExtKmRsp _) = HS_EXT_KMREQ"
| "ext_bit (StreamId _) = HS_EXT_CONFIG"
| "ext_bit (Congestion _) = HS_EXT_CONFIG"
| "ext_bit (ExtUnknown _ _) = HS_EXT_CONFIG"
| "ext_bit (ExtInvalid cmd _) =
     (if cmd = SRT_CMD_HSREQ \<or> cmd = SRT_CMD_HSRSP then HS_EXT_HSREQ
      else if cmd = SRT_CMD_KMREQ \<or> cmd = SRT_CMD_KMRSP then HS_EXT_KMREQ
      else HS_EXT_CONFIG)"

definition extension_bits :: "handshake_cif \<Rightarrow> u16" where
  "extension_bits c = foldl (\<lambda>bits ext. bits OR ext_bit ext) 0 (hc_extensions c)"

definition encode_cif :: "handshake_cif \<Rightarrow> bytes \<Rightarrow> bytes" where
  "encode_cif c out =
     (let ext_field = (if hc_extensions c = [] then hc_extension_field c else extension_bits c)
      in foldl (\<lambda>out ext. ext_encode ext out)
           (out @ be32 (hc_version c) @ be16 (hc_encryption c) @ be16 ext_field
            @ be32 (seq_value (hc_initial_seq c)) @ be32 (hc_mss c) @ be32 (hc_flow_window c)
            @ be32 (hs_type_to_u32 (hc_handshake_type c)) @ be32 (sid (hc_socket_id c))
            @ be32 (hc_cookie c) @ hc_peer_ip c)
           (hc_extensions c))"

text \<open>The four octets of an IPv4 address, most significant first.\<close>

definition encode_peer_ip :: "u8 \<Rightarrow> u8 \<Rightarrow> u8 \<Rightarrow> u8 \<Rightarrow> bytes" where
  "encode_peer_ip a b c d = rev [a, b, c, d] @ replicate 12 0"

fun find_map :: "('a \<Rightarrow> 'b option) \<Rightarrow> 'a list \<Rightarrow> 'b option" where
  "find_map f [] = None"
| "find_map f (x # xs) = (case f x of Some y \<Rightarrow> Some y | None \<Rightarrow> find_map f xs)"

definition hs_ext :: "handshake_cif \<Rightarrow> hs_ext_fields option" where
  "hs_ext c = find_map (\<lambda>e. case e of HsReq f \<Rightarrow> Some f | HsRsp f \<Rightarrow> Some f | _ \<Rightarrow> None) (hc_extensions c)"

definition cif_stream_id :: "handshake_cif \<Rightarrow> bytes option" where
  "cif_stream_id c = find_map (\<lambda>e. case e of StreamId s \<Rightarrow> Some s | _ \<Rightarrow> None) (hc_extensions c)"

section \<open>Handshake types and HSREQ fields round-trip\<close>

lemma hs_type_from_to:
  assumes "hs_type_wf t" shows "hs_type_from_u32 (hs_type_to_u32 t) = Ok t"
proof (cases t)
  case (Rejection code)
  with assms have r: "1000 \<le> code" "code \<le> 0x7FFFFFFF" by auto
  then have "code \<noteq> 0" "code \<noteq> 1" "code \<noteq> 0xFFFFFFFF" "code \<noteq> 0xFFFFFFFE"
    by (auto simp: word_le_def)
  with r show ?thesis by (simp add: Rejection hs_type_from_u32_def)
qed (simp_all add: hs_type_from_u32_def)

lemma hs_type_from_Ok: "hs_type_from_u32 v = Ok t \<Longrightarrow> hs_type_to_u32 t = v \<and> hs_type_wf t"
  by (auto simp: hs_type_from_u32_def split: if_splits)

lemma hs_type_from_no_panic [no_panic]: "hs_type_from_u32 v \<noteq> Panic"
  by (simp add: hs_type_from_u32_def)

lemma latency_halves:
  fixes a b :: u16
  shows "ucast (drop_bit 16 (push_bit 16 (ucast a)) OR drop_bit 16 (ucast b) :: u32) = a"
    and "ucast (push_bit 16 (ucast a) OR ucast b :: u32) = b"
  by (rule bit_word_eqI, auto simp: bit_simps dest: bit_imp_le_length)+

lemma hs_ext_encode_append: "hs_ext_encode f out = out @ hs_ext_encode f []"
  by (simp add: hs_ext_encode_def Let_def)

lemma length_hs_ext_encode [simp]: "length (hs_ext_encode f []) = 12"
  by (simp add: hs_ext_encode_def Let_def)

lemma hs_ext_parse_encode: "hs_ext_parse (hs_ext_encode f []) = Ok f"
  by (cases f) (simp add: hs_ext_parse_def hs_ext_encode_def Let_def wire_simps latency_halves)

lemma hs_ext_parse_no_panic [no_panic]: "hs_ext_parse c \<noteq> Panic"
  by (simp add: hs_ext_parse_def no_panic)

section \<open>The word swap\<close>

definition word_chunk :: "bytes \<Rightarrow> bytes" where
  "word_chunk bs = rev (take 4 bs @ replicate (4 - length (take 4 bs)) 0)"

lemma length_word_chunk [simp]: "length (word_chunk bs) = 4"
  by (simp add: word_chunk_def)

lemma pack_Nil [simp]: "pack_bytes_words [] out = out"
  by (subst pack_bytes_words.simps) simp

lemma pack_step: "bs \<noteq> [] \<Longrightarrow> pack_bytes_words bs out = pack_bytes_words (drop 4 bs) (out @ word_chunk bs)"
  by (subst pack_bytes_words.simps) (simp add: Let_def word_chunk_def)

lemma pack_append: "pack_bytes_words bs out = out @ pack_bytes_words bs []"
proof (induction "length bs" arbitrary: bs out rule: less_induct)
  case less
  show ?case
  proof (cases "bs = []")
    case False
    have IH: "pack_bytes_words (drop 4 bs) o' = o' @ pack_bytes_words (drop 4 bs) []" for o'
      using False by (intro less) simp
    show ?thesis
      using IH [of "out @ word_chunk bs"] IH [of "word_chunk bs"] by (simp add: pack_step False)
  qed simp
qed

lemma pack_unfold: "bs \<noteq> [] \<Longrightarrow> pack_bytes_words bs [] = word_chunk bs @ pack_bytes_words (drop 4 bs) []"
  by (subst pack_step, simp, subst pack_append) simp

lemma pack_word: "length w = 4 \<Longrightarrow> pack_bytes_words (w @ bs) [] = rev w @ pack_bytes_words bs []"
  by (subst pack_unfold) (auto simp: word_chunk_def)

lemma length_pack: "length (pack_bytes_words bs []) = 4 * ((length bs + 3) div 4)"
proof (induction "length bs" arbitrary: bs rule: less_induct)
  case less
  show ?case
  proof (cases "bs = []")
    case False
    then have "length (pack_bytes_words (drop 4 bs) []) = 4 * ((length (drop 4 bs) + 3) div 4)"
      by (intro less) simp
    moreover have "1 + (length bs - 4 + 3) div 4 = (length bs + 3) div 4"
      using False by (cases "length bs \<ge> 4") (auto simp: Suc_le_eq le_div_geq)
    ultimately show ?thesis using False by (simp add: pack_unfold)
  qed simp
qed

lemma pack_pack: "pack_bytes_words (pack_bytes_words bs []) [] = bs @ replicate ((4 - length bs mod 4) mod 4) 0"
proof (induction "length bs" arbitrary: bs rule: less_induct)
  case less
  show ?case
  proof (cases "bs = []")
    case False
    have IH: "pack_bytes_words (pack_bytes_words (drop 4 bs) []) []
        = drop 4 bs @ replicate ((4 - length (drop 4 bs) mod 4) mod 4) 0"
      using False by (intro less) simp
    have step: "pack_bytes_words (pack_bytes_words bs []) []
        = rev (word_chunk bs) @ pack_bytes_words (pack_bytes_words (drop 4 bs) []) []"
      using False by (subst pack_unfold, simp) (simp add: pack_word)
    show ?thesis
    proof (cases "length bs \<ge> 4")
      case True
      then have "length (drop 4 bs) mod 4 = length bs mod 4"
        by (simp add: le_mod_geq)
      with True show ?thesis by (simp add: step IH word_chunk_def)
    next
      case short: False
      with False have "length bs mod 4 = length bs" "(4 - length bs) mod 4 = 4 - length bs"
        by simp_all
      with short show ?thesis by (simp add: step word_chunk_def)
    qed
  qed simp
qed

lemma unpack_pack:
  assumes "bs = [] \<or> last bs \<noteq> 0"
  shows "unpack_bytes_words (pack_bytes_words bs []) = bs"
proof -
  have "dropWhile (\<lambda>b. b = 0) (rev bs) = rev bs"
    using assms by (cases bs rule: rev_cases) auto
  then have "dropWhile (\<lambda>b. b = 0) (replicate k 0 @ rev bs) = rev bs" for k
    by (induction k) simp_all
  then show ?thesis by (simp add: unpack_bytes_words_def pack_pack)
qed

section \<open>Extension blocks round-trip\<close>

definition ext_sized :: "hs_extension \<Rightarrow> bool" where
  "ext_sized ext \<longleftrightarrow> 4 dvd length (ext_content ext []) \<and> length (ext_content ext []) div 4 < 2 ^ 16"

text \<open>
  The values the encoder's debug assertions admit and the parser classifies the same way:
  string blocks are valid UTF-8 with no trailing NUL, and the two opaque variants carry exactly
  the commands and lengths that the parser maps to them.
\<close>

fun ext_wf :: "hs_extension \<Rightarrow> bool" where
  "ext_wf (HsReq _) \<longleftrightarrow> True"
| "ext_wf (HsRsp _) \<longleftrightarrow> True"
| "ext_wf (StreamId s) \<longleftrightarrow> s \<noteq> [] \<and> length s \<le> 512 \<and> last s \<noteq> 0 \<and> utf8_valid s"
| "ext_wf (Congestion s) \<longleftrightarrow> length s \<le> 4 * 65535 \<and> (s = [] \<or> last s \<noteq> 0) \<and> utf8_valid s"
| "ext_wf (ExtKmReq data) \<longleftrightarrow> 4 dvd length data \<and> length data \<le> 4 * 65535"
| "ext_wf (ExtKmRsp data) \<longleftrightarrow> 4 dvd length data \<and> length data \<le> 4 * 65535"
| "ext_wf (ExtInvalid cmd data) \<longleftrightarrow> 4 dvd length data \<and> length data \<le> 4 * 65535
     \<and> ((cmd = SRT_CMD_HSREQ \<or> cmd = SRT_CMD_HSRSP) \<and> length data < 12
        \<or> cmd = SRT_CMD_SID \<and> (data = [] \<or> 512 < length data))"
| "ext_wf (ExtUnknown cmd data) \<longleftrightarrow> 4 dvd length data \<and> length data \<le> 4 * 65535
     \<and> cmd \<notin> {SRT_CMD_HSREQ, SRT_CMD_HSRSP, SRT_CMD_KMREQ, SRT_CMD_KMRSP, SRT_CMD_SID,
               SRT_CMD_CONGESTION}"

lemma ext_content_append: "ext_content ext out = out @ ext_content ext []"
  by (cases ext) (simp_all add: hs_ext_encode_append [symmetric] pack_append [symmetric])

lemma ext_encode_eq:
  "ext_encode ext out =
     out @ be16 (ext_cmd ext) @ be16 (of_nat (length (ext_content ext []) div 4)) @ ext_content ext []"
  unfolding ext_encode_def Let_def
  by (subst (1 2 3) ext_content_append) simp

lemma ext_wf_sized: "ext_wf ext \<Longrightarrow> ext_sized ext"
  by (cases ext) (auto simp: ext_sized_def length_pack elim!: dvdE)

lemma pack_eq_Nil: "pack_bytes_words s [] = [] \<longleftrightarrow> s = []"
  using length_pack [of s] by (cases s) auto

lemma parse_extension_content:
  "ext_wf ext \<Longrightarrow> parse_extension (ext_cmd ext) (ext_content ext []) = Ok ext"
proof (cases ext)
  case (StreamId s)
  assume "ext_wf ext"
  then show ?thesis
    using length_pack [of s]
    by (auto simp: StreamId parse_extension_def cmd_defs pack_eq_Nil unpack_pack from_utf8_lossy_id)
next
  case (ExtInvalid cmd data)
  assume "ext_wf ext"
  then show ?thesis
    by (auto simp: ExtInvalid parse_extension_def cmd_defs hs_ext_parse_def)
qed (auto simp: parse_extension_def cmd_defs hs_ext_parse_encode unpack_pack from_utf8_lossy_id)

lemma parse_extensions_Nil [simp]: "parse_extensions [] = Ok []"
  by (subst parse_extensions.simps) simp

lemma parse_extensions_step:
  assumes "ext_wf ext"
  shows "parse_extensions (ext_encode ext [] @ rest) =
    bind_outcome (parse_extensions rest) (\<lambda>exts. Ok (ext # exts))"
proof -
  let ?c = "ext_content ext []"
  have sz: "4 dvd length ?c" "length ?c div 4 < 2 ^ 16"
    using ext_wf_sized [OF assms] by (auto simp: ext_sized_def)
  have u: "unat (of_nat (length ?c div 4) :: u16) * 4 = length ?c"
    using sz by (simp add: unat_of_nat)
  show ?thesis
    unfolding ext_encode_eq
    by (subst parse_extensions.simps) (simp add: wire_simps u parse_extension_content [OF assms] Let_def)
qed

lemma parse_extensions_encode:
  "\<forall>e \<in> set exts. ext_wf e \<Longrightarrow>
   parse_extensions (concat (map (\<lambda>e. ext_encode e []) exts)) = Ok exts"
  by (induction exts) (simp_all add: parse_extensions_step)

lemma encode_extensions_append:
  "foldl (\<lambda>out ext. ext_encode ext out) out exts = out @ concat (map (\<lambda>e. ext_encode e []) exts)"
  by (induction exts arbitrary: out) (simp_all add: ext_encode_eq)

section \<open>The CIF round-trips\<close>

text \<open>
  The Extension Field is re-derived from the blocks whenever there are any, so a CIF round-trips
  when its field is consistent with them.
\<close>

definition cif_wf :: "handshake_cif \<Rightarrow> bool" where
  "cif_wf c \<longleftrightarrow>
     raw (hc_initial_seq c) < SEQ_MASK \<and> hs_type_wf (hc_handshake_type c)
     \<and> length (hc_peer_ip c) = 16 \<and> (\<forall>e \<in> set (hc_extensions c). ext_wf e)
     \<and> (hc_extensions c \<noteq> [] \<longrightarrow> hc_extension_field c = extension_bits c)"

lemma parse_cif_encode:
  assumes "cif_wf c" shows "parse_cif (encode_cif c []) = Ok c"
proof -
  have ok: "seq_ok (hc_initial_seq c)" and isn: "\<not> SEQ_MASK \<le> seq_value (hc_initial_seq c)"
    using assms by (auto simp: cif_wf_def seq_ok_def seq_value_def)
  have f: "(if hc_extensions c = [] then hc_extension_field c else extension_bits c)
      = hc_extension_field c"
    using assms by (auto simp: cif_wf_def)
  have "length (hc_peer_ip c) = 16" "hs_type_wf (hc_handshake_type c)"
    "\<forall>e \<in> set (hc_extensions c). ext_wf e"
    using assms by (auto simp: cif_wf_def)
  then show ?thesis
    unfolding parse_cif_def encode_cif_def Let_def f
    by (simp add: encode_extensions_append CIF_SIZE_def wire_simps isn hs_type_from_to
        parse_extensions_encode seq_new_value [OF ok])
qed

interpretation cif_fmt: wire_format "\<lambda>c. encode_cif c []" parse_cif cif_wf
  by unfold_locales (rule parse_cif_encode)

section \<open>No panic\<close>

lemma parse_extension_no_panic [no_panic]: "parse_extension cmd content \<noteq> Panic"
  using hs_ext_parse_no_panic [of content]
  by (auto simp: parse_extension_def split: outcome.splits)

lemma parse_extensions_no_panic [no_panic]: "parse_extensions buf \<noteq> Panic"
proof (induction buf rule: parse_extensions.induct)
  case (1 buf)
  show ?case
    by (subst parse_extensions.simps) (auto simp: Let_def no_panic 1)
qed

lemma parse_cif_no_panic [no_panic]: "parse_cif buf \<noteq> Panic"
  by (simp add: parse_cif_def CIF_SIZE_def no_panic)

end
