(* ===== verification/Packet_Control.thy ===== *)
theory Packet_Control
  imports Packet_Handshake
begin

text \<open>
  Control packets (\<open>src/packet/control.rs\<close>): the type codes, the ACK, NAK and DROPREQ control
  information fields, and the round trip of every control packet the connection emits.
\<close>

section \<open>Data\<close>

record ack_cif =
  ac_last_ack_seq :: seq_number
  ac_rtt_us :: "u32 option"
  ac_rtt_var_us :: "u32 option"
  ac_avail_buf_pkts :: "u32 option"
  ac_recv_rate_pkts :: "u32 option"
  ac_link_capacity_pkts :: "u32 option"
  ac_recv_rate_bytes :: "u32 option"

text \<open>\<open>AckCif\<close> with \<open>..AckCif::default()\<close>: only the sequence number is present.\<close>

definition ack_cif_light :: "seq_number \<Rightarrow> ack_cif" where
  "ack_cif_light s =
     \<lparr> ac_last_ack_seq = s, ac_rtt_us = None, ac_rtt_var_us = None, ac_avail_buf_pkts = None,
       ac_recv_rate_pkts = None, ac_link_capacity_pkts = None, ac_recv_rate_bytes = None \<rparr>"

record loss_range =
  lr_first :: seq_number
  lr_last :: seq_number

datatype control_type =
    Handshake handshake_cif
  | KeepAlive
  | Ack u32 ack_cif
  | Nak "loss_range list"
  | CongestionWarning
  | Shutdown
  | AckAck u32
  | DropRequest msg_number seq_number seq_number
  | PeerError u32
  | KmReq bytes
  | KmRsp bytes

record control_packet =
  cp_timestamp :: timestamp
  cp_dst_socket_id :: socket_id
  cp_control_type :: control_type

definition NAK_RANGE_FLAG :: u32 where
  "NAK_RANGE_FLAG = 0x80000000"

section \<open>Header fields\<close>

fun type_code :: "control_type \<Rightarrow> u32" where
  "type_code (Handshake _) = 0x0000"
| "type_code KeepAlive = 0x0001"
| "type_code (Ack _ _) = 0x0002"
| "type_code (Nak _) = 0x0003"
| "type_code CongestionWarning = 0x0004"
| "type_code Shutdown = 0x0005"
| "type_code (AckAck _) = 0x0006"
| "type_code (DropRequest _ _ _) = 0x0007"
| "type_code (PeerError _) = 0x0008"
| "type_code (KmReq _) = 0x7FFF"
| "type_code (KmRsp _) = 0x7FFF"

fun subtype :: "control_type \<Rightarrow> u32" where
  "subtype (KmReq _) = ucast SRT_CMD_KMREQ"
| "subtype (KmRsp _) = ucast SRT_CMD_KMRSP"
| "subtype _ = 0"

fun type_specific_info :: "control_type \<Rightarrow> u32" where
  "type_specific_info (Ack ack_number _) = ack_number"
| "type_specific_info (AckAck ack_number) = ack_number"
| "type_specific_info (DropRequest msg_number _ _) = msg_value msg_number"
| "type_specific_info (PeerError code) = code"
| "type_specific_info _ = 0"

section \<open>ACK\<close>

definition parse_ack_cif :: "bytes \<Rightarrow> (ack_cif, packet_error) outcome" where
  "parse_ack_cif cif =
     (if length cif = 4 then
        bind_outcome (read_u32 cif 0) (\<lambda>s. Ok (ack_cif_light (seq_new s)))
      else if length cif < 16 then Err (BadCif ''ACK CIF shorter than 4 words'')
      else
        let words = length cif div 4 in
        bind_outcome (read_u32 cif 0) (\<lambda>s.
        bind_outcome (read_u32 cif 4) (\<lambda>rtt.
        bind_outcome (read_u32 cif 8) (\<lambda>rtt_var.
        bind_outcome (read_u32 cif 12) (\<lambda>avail.
        let ack = (ack_cif_light (seq_new s))
              \<lparr> ac_rtt_us := Some rtt, ac_rtt_var_us := Some rtt_var, ac_avail_buf_pkts := Some avail \<rparr> in
        bind_outcome
          (if words \<ge> 6 then
             bind_outcome (read_u32 cif 16) (\<lambda>rate.
             bind_outcome (read_u32 cif 20) (\<lambda>cap.
             Ok (ack \<lparr> ac_recv_rate_pkts := Some rate, ac_link_capacity_pkts := Some cap \<rparr>)))
           else Ok ack) (\<lambda>ack.
        if words \<ge> 7 then
          bind_outcome (read_u32 cif 24) (\<lambda>rate_bytes.
          Ok (ack \<lparr> ac_recv_rate_bytes := Some rate_bytes \<rparr>))
        else Ok ack))))))"

fun put_prefix :: "u32 option list \<Rightarrow> bytes \<Rightarrow> bytes" where
  "put_prefix [] out = out"
| "put_prefix (Some value # rest) out = put_prefix rest (put_u32 out value)"
| "put_prefix (None # rest) out = out"

definition encode_ack_cif :: "ack_cif \<Rightarrow> bytes \<Rightarrow> bytes" where
  "encode_ack_cif cif out =
     put_prefix [ac_rtt_us cif, ac_rtt_var_us cif, ac_avail_buf_pkts cif, ac_recv_rate_pkts cif,
                 ac_link_capacity_pkts cif, ac_recv_rate_bytes cif]
       (put_u32 out (seq_value (ac_last_ack_seq cif)))"

section \<open>NAK\<close>

function loss_list_loop :: "bytes \<Rightarrow> nat \<Rightarrow> nat \<Rightarrow> (loss_range list, packet_error) outcome" where
  "loss_list_loop cif words i =
     (if i < words then
        bind_outcome (read_u32 cif (i * 4)) (\<lambda>word.
        if word AND NAK_RANGE_FLAG \<noteq> 0 then
          (if i + 1 \<ge> words then Err (BadCif ''NAK range missing end word'')
           else bind_outcome (read_u32 cif ((i + 1) * 4)) (\<lambda>word2.
             let first = seq_new word; last = seq_new word2 in
             if seq_diff first last > 0 then Err (BadCif ''NAK range start after end'')
             else bind_outcome (loss_list_loop cif words (i + 2)) (\<lambda>list.
                  Ok (\<lparr> lr_first = first, lr_last = last \<rparr> # list))))
        else
          let seq = seq_new word in
          bind_outcome (loss_list_loop cif words (i + 1)) (\<lambda>list.
          Ok (\<lparr> lr_first = seq, lr_last = seq \<rparr> # list)))
      else Ok [])"
  by pat_completeness auto
termination
  by (relation "measure (\<lambda>(cif, words, i). words - i)") auto

declare loss_list_loop.simps [simp del]

definition parse_loss_list :: "bytes \<Rightarrow> (loss_range list, packet_error) outcome" where
  "parse_loss_list cif =
     (let words = length cif div 4 in
      if words = 0 then Err (BadCif ''empty NAK loss list'') else loss_list_loop cif words 0)"

fun encode_loss_list :: "loss_range list \<Rightarrow> bytes \<Rightarrow> bytes" where
  "encode_loss_list [] out = out"
| "encode_loss_list (r # list) out =
     encode_loss_list list
       (if lr_first r = lr_last r then put_u32 out (seq_value (lr_first r))
        else put_u32 (put_u32 out (seq_value (lr_first r) OR NAK_RANGE_FLAG))
               (seq_value (lr_last r)))"

section \<open>Whole packets\<close>

definition parse_control_type ::
    "u16 \<Rightarrow> u16 \<Rightarrow> u32 \<Rightarrow> bytes \<Rightarrow> (control_type, packet_error) outcome" where
  "parse_control_type code sub info cif =
     (if code = 0x0000 then bind_outcome (parse_cif cif) (\<lambda>c. Ok (Handshake c))
      else if code = 0x0001 then Ok KeepAlive
      else if code = 0x0002 then bind_outcome (parse_ack_cif cif) (\<lambda>c. Ok (Ack info c))
      else if code = 0x0003 then bind_outcome (parse_loss_list cif) (\<lambda>l. Ok (Nak l))
      else if code = 0x0004 then Ok CongestionWarning
      else if code = 0x0005 then Ok Shutdown
      else if code = 0x0006 then Ok (AckAck info)
      else if code = 0x0007 then
        (if length cif < 8 then Err (BadCif ''DROPREQ CIF shorter than 2 words'')
         else bind_outcome (read_u32 cif 0) (\<lambda>first.
              bind_outcome (read_u32 cif 4) (\<lambda>last.
              Ok (DropRequest (msg_new info) (seq_new first) (seq_new last)))))
      else if code = 0x0008 then Ok (PeerError info)
      else if code = 0x7FFF then
        (if sub = SRT_CMD_KMREQ then Ok (KmReq cif)
         else if sub = SRT_CMD_KMRSP then Ok (KmRsp cif)
         else Err (UnknownControlType sub))
      else Err (UnknownControlType code))"

definition control_parse :: "bytes \<Rightarrow> (control_packet, packet_error) outcome" where
  "control_parse buf =
     (if length buf < HEADER_SIZE then Err TooShort
      else bind_outcome (read_u32 buf 0) (\<lambda>word0.
           bind_outcome (read_u32 buf 4) (\<lambda>info.
           bind_outcome (slice_from buf HEADER_SIZE) (\<lambda>cif.
           bind_outcome (parse_control_type (ucast (drop_bit 16 word0 AND 0x7FFF))
                           (ucast (word0 AND 0xFFFF)) info cif) (\<lambda>control_type.
           bind_outcome (read_u32 buf 8) (\<lambda>ts.
           bind_outcome (read_u32 buf 12) (\<lambda>dst.
           Ok \<lparr> cp_timestamp = Timestamp ts, cp_dst_socket_id = SocketId dst,
                cp_control_type = control_type \<rparr>)))))))"

fun encode_control_cif :: "control_type \<Rightarrow> bytes \<Rightarrow> bytes" where
  "encode_control_cif (Handshake cif) out = encode_cif cif out"
| "encode_control_cif (Ack _ cif) out = encode_ack_cif cif out"
| "encode_control_cif (Nak list) out = encode_loss_list list out"
| "encode_control_cif (DropRequest _ lo hi) out =
     put_u32 (put_u32 out (seq_value lo)) (seq_value hi)"
| "encode_control_cif (KmReq blob) out = out @ blob"
| "encode_control_cif (KmRsp blob) out = out @ blob"
| "encode_control_cif KeepAlive out = put_u32 out 0"
| "encode_control_cif CongestionWarning out = put_u32 out 0"
| "encode_control_cif Shutdown out = put_u32 out 0"
| "encode_control_cif (AckAck _) out = put_u32 out 0"
| "encode_control_cif (PeerError _) out = put_u32 out 0"

definition control_word0 :: "control_type \<Rightarrow> u32" where
  "control_word0 ct = 0x80000000 OR push_bit 16 (type_code ct) OR subtype ct"

definition control_encode :: "control_packet \<Rightarrow> bytes \<Rightarrow> bytes" where
  "control_encode p out =
     (let ct = cp_control_type p in
      encode_control_cif ct
        (put_u32 (put_u32 (put_u32
          (put_u32 out (control_word0 ct))
          (type_specific_info ct))
          (ts_us (cp_timestamp p)))
          (sid (cp_dst_socket_id p))))"

section \<open>Well-formed control packets\<close>

text \<open>The ACK variants of the specification: light, small, and full with or without the byte rate.\<close>

definition ack_cif_wf :: "ack_cif \<Rightarrow> bool" where
  "ack_cif_wf c \<longleftrightarrow> seq_ok (ac_last_ack_seq c)
     \<and> (c = ack_cif_light (ac_last_ack_seq c)
        \<or> ac_rtt_us c \<noteq> None \<and> ac_rtt_var_us c \<noteq> None \<and> ac_avail_buf_pkts c \<noteq> None
          \<and> (ac_recv_rate_pkts c = None \<longleftrightarrow> ac_link_capacity_pkts c = None)
          \<and> (ac_recv_rate_pkts c = None \<longrightarrow> ac_recv_rate_bytes c = None))"

definition loss_range_wf :: "loss_range \<Rightarrow> bool" where
  "loss_range_wf r \<longleftrightarrow> seq_ok (lr_first r) \<and> seq_ok (lr_last r) \<and> seq_diff (lr_first r) (lr_last r) \<le> 0"

fun control_type_wf :: "control_type \<Rightarrow> bool" where
  "control_type_wf (Handshake c) \<longleftrightarrow> cif_wf c"
| "control_type_wf (Ack _ c) \<longleftrightarrow> ack_cif_wf c"
| "control_type_wf (Nak l) \<longleftrightarrow> l \<noteq> [] \<and> (\<forall>r \<in> set l. loss_range_wf r)"
| "control_type_wf (DropRequest m f l) \<longleftrightarrow> msg_ok m \<and> seq_ok f \<and> seq_ok l"
| "control_type_wf _ \<longleftrightarrow> True"

lemma ack_parse_encode:
  assumes "ack_cif_wf c" shows "parse_ack_cif (encode_ack_cif c []) = Ok c"
proof -
  have ok: "seq_new (seq_value (ac_last_ack_seq c)) = ac_last_ack_seq c"
    using assms by (simp add: ack_cif_wf_def seq_new_value)
  show ?thesis
  proof (cases "c = ack_cif_light (ac_last_ack_seq c)")
    case True
    have "encode_ack_cif c [] = be32 (seq_value (ac_last_ack_seq c))"
      by (subst True) (simp add: encode_ack_cif_def ack_cif_light_def put_u32_def)
    then show ?thesis
      using ok True by (simp add: parse_ack_cif_def wire_simps)
  next
    case False
    then obtain a b d where "ac_rtt_us c = Some a" "ac_rtt_var_us c = Some b" "ac_avail_buf_pkts c = Some d"
      using assms by (auto simp: ack_cif_wf_def)
    then show ?thesis
      using assms ok False
      by (cases "ac_recv_rate_pkts c"; cases "ac_recv_rate_bytes c"; cases c)
        (auto simp: ack_cif_wf_def encode_ack_cif_def put_u32_def parse_ack_cif_def wire_simps
          ack_cif_light_def Let_def)
  qed
qed

section \<open>Loss lists round-trip\<close>

lemma seq_value_low: "seq_ok s \<Longrightarrow> take_bit 31 (seq_value s) = seq_value s"
  by (metis and_SEQ_MASK seq_new_def seq_new_value seq_number.sel seq_value_def)

lemma range_flag_bit: "w AND NAK_RANGE_FLAG \<noteq> 0 \<longleftrightarrow> bit w 31"
  by (simp add: NAK_RANGE_FLAG_def and_single_bit)

lemma range_flag_nonzero: "NAK_RANGE_FLAG \<noteq> 0"
  by (simp add: NAK_RANGE_FLAG_def)

lemma range_flag_set:
  assumes "seq_ok s"
  shows "(seq_value s OR NAK_RANGE_FLAG) AND NAK_RANGE_FLAG \<noteq> 0"
    and "seq_new (seq_value s OR NAK_RANGE_FLAG) = s"
proof -
  show "(seq_value s OR NAK_RANGE_FLAG) AND NAK_RANGE_FLAG \<noteq> 0"
    by (simp only: range_flag_bit) (simp add: NAK_RANGE_FLAG_def bit_simps)
  have "take_bit 31 (NAK_RANGE_FLAG) = 0"
    by (simp add: NAK_RANGE_FLAG_def)
  then have "(seq_value s OR NAK_RANGE_FLAG) AND SEQ_MASK = seq_value s"
    using seq_value_low [OF assms] by (simp add: and_SEQ_MASK)
  then show "seq_new (seq_value s OR NAK_RANGE_FLAG) = s"
    by (simp add: seq_new_def seq_value_def)
qed

lemma range_flag_clear: "seq_ok s \<Longrightarrow> seq_value s AND NAK_RANGE_FLAG = 0"
  using range_flag_bit [of "seq_value s"] bit_below [OF seq_value_low, of s 31] by auto

definition loss_words :: "loss_range \<Rightarrow> bytes" where
  "loss_words r =
     (if lr_first r = lr_last r then be32 (seq_value (lr_first r))
      else be32 (seq_value (lr_first r) OR NAK_RANGE_FLAG) @ be32 (seq_value (lr_last r)))"

lemma encode_loss_list_eq: "encode_loss_list l out = out @ concat (map loss_words l)"
  by (induction l arbitrary: out) (simp_all add: loss_words_def put_u32_def)

lemma length_loss_words: "length (loss_words r) = 4 * (if lr_first r = lr_last r then 1 else 2)"
  by (simp add: loss_words_def)

lemma length_concat_loss_words: "4 dvd length (concat (map loss_words l))"
  by (induction l) (simp_all add: length_loss_words)

lemma loss_list_loop_encode:
  assumes "\<forall>r \<in> set l. loss_range_wf r"
    and "length pre = i * 4"
    and "words * 4 = length pre + length (concat (map loss_words l))"
  shows "loss_list_loop (pre @ concat (map loss_words l)) words i = Ok l"
  using assms
proof (induction l arbitrary: pre i)
  case Nil
  then show ?case by (subst loss_list_loop.simps) simp
next
  case (Cons r l)
  let ?rest = "concat (map loss_words l)" and ?n = "if lr_first r = lr_last r then 1 else 2 :: nat"
  have wf: "seq_ok (lr_first r)" "seq_ok (lr_last r)" "seq_diff (lr_first r) (lr_last r) \<le> 0"
    using Cons.prems(1) by (auto simp: loss_range_wf_def)
  have IH: "loss_list_loop ((pre @ loss_words r) @ ?rest) words (i + ?n) = Ok l"
    using Cons.prems by (intro Cons.IH) (auto simp: length_loss_words)
  have words: "i + ?n \<le> words"
    using Cons.prems(2,3) length_loss_words [of r] by (auto split: if_splits)
  show ?case
  proof (cases "lr_first r = lr_last r")
    case True
    with IH words wf Cons.prems(2) show ?thesis
      by (subst loss_list_loop.simps)
        (cases r, auto simp: loss_words_def wire_simps Let_def range_flag_clear seq_new_value)
  next
    case False
    with IH words wf Cons.prems(2) show ?thesis
      by (subst loss_list_loop.simps)
        (cases r, auto simp: loss_words_def wire_simps Let_def range_flag_set range_flag_nonzero seq_new_value)
  qed
qed

lemma loss_list_parse_encode:
  assumes "l \<noteq> []" "\<forall>r \<in> set l. loss_range_wf r"
  shows "parse_loss_list (encode_loss_list l []) = Ok l"
proof -
  let ?c = "concat (map loss_words l)"
  have "0 < length ?c"
    using assms(1) by (cases l) (simp_all add: length_loss_words)
  with length_concat_loss_words [of l] have "length ?c div 4 \<noteq> 0" "length ?c div 4 * 4 = length ?c"
    by (auto simp: dvd_div_eq_0_iff)
  with loss_list_loop_encode [OF assms(2), of "[]" 0 "length ?c div 4"] show ?thesis
    by (simp add: parse_loss_list_def encode_loss_list_eq Let_def)
qed

section \<open>Control packets round-trip\<close>

lemma put_prefix_append: "put_prefix l out = out @ put_prefix l []"
proof (induction l arbitrary: out)
  case (Cons a l)
  show ?case
  proof (cases a)
    case (Some v)
    have "put_prefix l (out @ be32 v) = (out @ be32 v) @ put_prefix l []"
      and "put_prefix l (be32 v) = be32 v @ put_prefix l []"
      by (rule Cons.IH)+
    then show ?thesis by (simp add: Some put_u32_def)
  qed simp
qed simp

lemma encode_ack_cif_append: "encode_ack_cif c out = out @ encode_ack_cif c []"
  unfolding encode_ack_cif_def put_u32_def
  by (subst (1 2) put_prefix_append) (simp only: append.assoc append_Nil)

lemma encode_control_cif_append: "encode_control_cif ct out = out @ encode_control_cif ct []"
proof (cases ct)
  case (Ack n c)
  then show ?thesis using encode_ack_cif_append [of c out] by simp
qed (simp_all add: encode_cif_def encode_extensions_append encode_loss_list_eq put_u32_def Let_def)

lemma control_encode_eq:
  "control_encode p [] =
     be32 (control_word0 (cp_control_type p))
     @ be32 (type_specific_info (cp_control_type p)) @ be32 (ts_us (cp_timestamp p))
     @ be32 (sid (cp_dst_socket_id p)) @ encode_control_cif (cp_control_type p) []"
  unfolding control_encode_def Let_def
  by (subst encode_control_cif_append) (simp add: put_u32_def)

lemma control_word0_fields:
  "ucast (drop_bit 16 (control_word0 ct) AND 0x7FFF) = (ucast (type_code ct) :: u16)"
  "ucast (control_word0 ct AND 0xFFFF) = (ucast (subtype ct) :: u16)"
  by (cases ct; simp add: cmd_defs control_word0_def)+

lemma parse_control_type_encode:
  "control_type_wf ct \<Longrightarrow>
   parse_control_type (ucast (type_code ct)) (ucast (subtype ct)) (type_specific_info ct)
     (encode_control_cif ct []) = Ok ct"
  by (cases ct) (simp_all add: parse_control_type_def parse_cif_encode ack_parse_encode
      loss_list_parse_encode put_u32_def wire_simps seq_new_value msg_new_value cmd_defs)

definition control_wf :: "control_packet \<Rightarrow> bool" where
  "control_wf p \<longleftrightarrow> control_type_wf (cp_control_type p)"

lemma control_parse_encode: "control_wf p \<Longrightarrow> control_parse (control_encode p []) = Ok p"
  by (simp add: control_wf_def control_parse_def control_encode_eq HEADER_SIZE_def wire_simps
      control_word0_fields parse_control_type_encode)

interpretation control_fmt: wire_format "\<lambda>p. control_encode p []" control_parse control_wf
  by unfold_locales (rule control_parse_encode)

section \<open>No panic\<close>

lemma parse_ack_cif_no_panic [no_panic]: "parse_ack_cif cif \<noteq> Panic"
  by (auto simp: parse_ack_cif_def no_panic Let_def split: if_splits)

lemma loss_list_loop_no_panic:
  "words * 4 \<le> length cif \<Longrightarrow> loss_list_loop cif words i \<noteq> Panic"
proof (induction cif words i rule: loss_list_loop.induct)
  case (1 cif words i)
  then show ?case
    by (subst loss_list_loop.simps) (auto simp: no_panic Let_def)
qed

lemma parse_loss_list_no_panic [no_panic]: "parse_loss_list cif \<noteq> Panic"
  by (simp add: parse_loss_list_def Let_def loss_list_loop_no_panic)

lemma parse_control_type_no_panic [no_panic]: "parse_control_type code sub info cif \<noteq> Panic"
  by (simp add: parse_control_type_def no_panic)

lemma control_parse_no_panic [no_panic]: "control_parse buf \<noteq> Panic"
  by (simp add: control_parse_def HEADER_SIZE_def no_panic)

end
