(* ===== verification/Packet_Codec.thy ===== *)
theory Packet_Codec
  imports Packet_Data Packet_Control
begin

text \<open>
  The packet layer's entry points (\<open>Packet\<close> in \<open>src/packet/mod.rs\<close>): dispatch on the F bit, the
  round trip of every well-formed packet, and totality of the parser on arbitrary datagrams.
\<close>

datatype packet = Data data_packet | Control control_packet

definition packet_parse :: "bytes \<Rightarrow> (packet, packet_error) outcome" where
  "packet_parse buf =
     (if buf \<noteq> [] \<and> hd buf AND 0x80 = 0
      then bind_outcome (data_parse buf) (\<lambda>p. Ok (Data p))
      else bind_outcome (control_parse buf) (\<lambda>p. Ok (Control p)))"

fun packet_encode :: "packet \<Rightarrow> bytes \<Rightarrow> bytes" where
  "packet_encode (Data p) out = data_encode p out"
| "packet_encode (Control p) out = control_encode p out"

fun packet_dst_socket_id :: "packet \<Rightarrow> socket_id" where
  "packet_dst_socket_id (Data p) = dp_dst_socket_id p"
| "packet_dst_socket_id (Control p) = cp_dst_socket_id p"

fun packet_wf :: "packet \<Rightarrow> bool" where
  "packet_wf (Data p) \<longleftrightarrow> data_wf p"
| "packet_wf (Control p) \<longleftrightarrow> control_wf p"

lemma and_0x80: "b AND 0x80 = 0 \<longleftrightarrow> \<not> bit (b :: u8) 7"
  using and_exp_eq_0_iff_not_bit [of b 7] by simp

lemma control_encode_F_bit: "bit (hd (control_encode p [])) 7"
  by (simp add: control_encode_eq be32_def bit_simps control_word0_def)

lemma packet_parse_data:
  assumes "data_wf d" shows "packet_parse (data_encode d []) = Ok (Data d)"
proof -
  have "hd (data_encode d []) AND 0x80 = 0" and "data_encode d [] \<noteq> []"
    using assms data_encode_F_bit [of d] length_encode_header [of d]
    by (auto simp: and_0x80 data_encode_def HEADER_SIZE_def simp flip: length_greater_0_conv)
  then show ?thesis
    using assms by (simp add: packet_parse_def data_fmt.dec_enc)
qed

lemma packet_parse_control:
  assumes "control_wf c" shows "packet_parse (control_encode c []) = Ok (Control c)"
  using assms control_encode_F_bit [of c] by (simp add: packet_parse_def control_fmt.dec_enc and_0x80)

lemma packet_wire: "packet_wf p \<Longrightarrow> packet_parse (packet_encode p []) = Ok p"
  by (cases p) (simp_all add: packet_parse_data packet_parse_control)

text \<open>
  C10.  Round trip: every packet in the image of the constructors the connection uses -- data and
  control packets whose fields fit their wire widths, and handshake CIFs whose Extension Field is
  consistent with their extension blocks -- is recovered unchanged by parsing its encoding.
\<close>

theorem packet_parse_encode:
  assumes "packet_wf p" shows "packet_parse (packet_encode p []) = Ok p"
  using assms by (rule packet_wire)

theorem packet_parse_encode_witness:
  "let p = Control \<lparr> cp_timestamp = Timestamp 7, cp_dst_socket_id = SocketId 9,
                     cp_control_type = Nak [\<lparr> lr_first = SeqNumber 5, lr_last = SeqNumber 8 \<rparr>] \<rparr>
   in packet_wf p \<and> packet_parse (packet_encode p []) = Ok p"
proof -
  have "packet_wf (Control \<lparr> cp_timestamp = Timestamp 7, cp_dst_socket_id = SocketId 9,
          cp_control_type = Nak [\<lparr> lr_first = SeqNumber 5, lr_last = SeqNumber 8 \<rparr>] \<rparr>)"
    by (simp add: control_wf_def loss_range_wf_def seq_ok_def seq_diff_def SEQ_MASK_def)
  with packet_parse_encode show ?thesis unfolding Let_def by blast
qed

text \<open>
  C34.  No datagram panics the parser: whatever bytes arrive, parsing returns a packet or an error,
  so no slice of the codec is ever taken out of range.
\<close>

theorem packet_parse_no_panic: "packet_parse buf \<noteq> Panic"
  by (simp add: packet_parse_def no_panic)

end
