(* ===== verification/Time_Base.thy ===== *)
theory Time_Base
  imports Seq_Number
begin

text \<open>
  The time base of \<open>src/core/time.rs\<close>: wire timestamps from local clock readings, extension of the
  peer's wrapping 32-bit microsecond timestamps, and the TSBPD clock-drift tracer.

  The 64-bit microsecond scale is a \<^typ>\<open>nat\<close> (a local clock does not reach \<open>2 ^ 64\<close> microseconds);
  the 32-bit wire value and the signed 32-bit distance are words.
\<close>

section \<open>Wire timestamps\<close>

record timebase =
  tb_start :: instant

definition timebase_new :: "instant \<Rightarrow> timebase" where
  "timebase_new start = \<lparr> tb_start = start \<rparr>"

definition timebase_timestamp :: "timebase \<Rightarrow> instant \<Rightarrow> timestamp" where
  "timebase_timestamp tb now = Timestamp (of_nat (as_micros (since now (tb_start tb))))"

section \<open>Timestamp extension\<close>

record ts_extender =
  te_anchor :: "(instant \<times> nat) option"

definition extender_new :: ts_extender where
  "extender_new = \<lparr> te_anchor = None \<rparr>"

text \<open>\<open>u64::saturating_add_signed\<close>.\<close>

definition saturating_add_signed :: "nat \<Rightarrow> int \<Rightarrow> nat" where
  "saturating_add_signed a d = nat (min (2 ^ 64 - 1) (max 0 (int a + d)))"

definition ts_extend :: "ts_extender \<Rightarrow> timestamp \<Rightarrow> instant \<Rightarrow> ts_extender \<times> nat" where
  "ts_extend e ts now =
     (case te_anchor e of
        None \<Rightarrow> (e\<lparr> te_anchor := Some (now, unat (ts_us ts)) \<rparr>, unat (ts_us ts))
      | Some (anchor_instant, anchor_ext) \<Rightarrow>
          let elapsed = as_micros (since now anchor_instant);
              expected = anchor_ext + elapsed;
              delta = sint (ts_us ts - of_nat expected)
          in (e, saturating_add_signed expected delta))"

lemma sint_word_of_int_near:
  assumes "- (2 ^ 31) \<le> d" "d < 2 ^ 31" shows "sint (word_of_int d :: u32) = d"
  using assms by (simp add: signed_of_int signed_take_bit_int_eq_self)

lemma wire_distance:
  assumes "- (2 ^ 31) \<le> int t - int e" "int t - int e < 2 ^ 31"
  shows "sint (of_nat t - of_nat e :: u32) = int t - int e"
proof -
  have "(of_nat t - of_nat e :: u32) = word_of_int (int t - int e)" by simp
  then show ?thesis using sint_word_of_int_near [OF assms] by metis
qed

lemma extend_anchor_kept:
  "te_anchor e = Some a \<Longrightarrow> fst (ts_extend e ts now) = e"
  by (cases a) (simp add: ts_extend_def Let_def)

lemma extend_anchored: "te_anchor (fst (ts_extend e ts now)) \<noteq> None"
  by (simp add: ts_extend_def Let_def split: option.splits prod.splits)

text \<open>
  C37.  The extender is exact: once anchored, a timestamp whose true 64-bit value lies within
  \<open>\<plusminus> 2 ^ 31\<close> microseconds of where the peer's clock should read by the local clock is extended to
  that true value, however often the 32-bit wire clock wrapped since the anchor, and the anchor is
  left alone.
\<close>

theorem extend_exact:
  assumes "te_anchor e = Some (anchor_instant, anchor_ext)"
    and "ts = Timestamp (of_nat true_us)"
    and "\<bar>int true_us - int (anchor_ext + as_micros (now - anchor_instant))\<bar> < 2 ^ 31"
    and "true_us < 2 ^ 64"
  shows "ts_extend e ts now = (e, true_us)"
proof -
  let ?E = "anchor_ext + as_micros (now - anchor_instant)"
  have d: "sint (of_nat true_us - of_nat ?E :: u32) = int true_us - int ?E"
    using assms(3) by (intro wire_distance) linarith+
  have "ts_extend e ts now = (e, saturating_add_signed ?E (sint (of_nat true_us - of_nat ?E :: u32)))"
    using assms(1) by (simp only: ts_extend_def assms(2) option.case prod.case Let_def timestamp.sel)
  also have "saturating_add_signed ?E (sint (of_nat true_us - of_nat ?E :: u32)) = true_us"
    using assms(4) by (simp only: d saturating_add_signed_def) simp
  finally show ?thesis .
qed

theorem extend_exact_witness:
  "ts_extend \<lparr> te_anchor = Some (5000, 4294967000) \<rparr> (Timestamp (of_nat 4294967400)) 400000
     = (\<lparr> te_anchor = Some (5000, 4294967000) \<rparr>, 4294967400)"
  by (rule extend_exact [where anchor_instant = 5000 and anchor_ext = 4294967000])
    (simp_all add: as_micros_def)

section \<open>Clock drift\<close>

definition TSBPD_DRIFT_MAX_SAMPLES :: nat where
  "TSBPD_DRIFT_MAX_SAMPLES = 1000"

definition TSBPD_DRIFT_MAX_VALUE_US :: int where
  "TSBPD_DRIFT_MAX_VALUE_US = 5000"

record drift_tracer =
  dt_sum_us :: int
  dt_samples :: nat
  dt_drift_us :: int
  dt_base_shift_us :: int

definition drift_new :: drift_tracer where
  "drift_new = \<lparr> dt_sum_us = 0, dt_samples = 0, dt_drift_us = 0, dt_base_shift_us = 0 \<rparr>"

definition drift_sample :: "drift_tracer \<Rightarrow> int \<Rightarrow> drift_tracer \<times> bool" where
  "drift_sample t offset_us =
     (let sum_us = dt_sum_us t + (offset_us - dt_base_shift_us t);
          samples = dt_samples t + 1 in
      if samples < TSBPD_DRIFT_MAX_SAMPLES then
        (t\<lparr> dt_sum_us := sum_us, dt_samples := samples \<rparr>, False)
      else
        let avg = sum_us sdiv int samples;
            shift = (if \<bar>avg\<bar> > TSBPD_DRIFT_MAX_VALUE_US
                     then max (- TSBPD_DRIFT_MAX_VALUE_US) (min TSBPD_DRIFT_MAX_VALUE_US avg)
                     else 0)
        in (t\<lparr> dt_sum_us := 0, dt_samples := 0,
               dt_base_shift_us := dt_base_shift_us t + shift,
               dt_drift_us := avg - shift \<rparr>, True))"

definition correction_us :: "drift_tracer \<Rightarrow> int" where
  "correction_us t = dt_base_shift_us t + dt_drift_us t"

fun drift_feed :: "drift_tracer \<Rightarrow> int list \<Rightarrow> drift_tracer" where
  "drift_feed t [] = t"
| "drift_feed t (x # xs) = drift_feed (fst (drift_sample t x)) xs"

lemma sdiv_bounds:
  fixes s n a b :: int
  assumes "0 < n" "a * n \<le> s" "s \<le> b * n"
  shows "a \<le> s sdiv n \<and> s sdiv n \<le> b"
proof (cases "0 \<le> s")
  case True
  then have "s sdiv n = s div n"
    using assms(1) by (simp add: signed_divide_int_def sgn_if)
  moreover have "a \<le> s div n"
    using assms(1,2) zdiv_mono1 [of "a * n" s n] by simp
  moreover have "s div n \<le> b"
    using assms(1,3) zdiv_mono1 [of s "b * n" n] by simp
  ultimately show ?thesis by simp
next
  case False
  then have eq: "s sdiv n = - ((- s) div n)"
    using assms(1) by (simp add: signed_divide_int_def sgn_if)
  have "(- s) div n \<le> - a"
    using assms(1,2) zdiv_mono1 [of "- s" "(- a) * n" n] by (simp del: mult_minus_left)
  moreover have "- b \<le> (- s) div n"
    using assms(1,3) zdiv_mono1 [of "(- b) * n" "- s" n] by (simp del: mult_minus_left)
  ultimately show ?thesis by (simp add: eq)
qed

lemma drift_feed_partial:
  assumes "dt_samples t + length xs < TSBPD_DRIFT_MAX_SAMPLES"
  shows "drift_feed t xs =
    t\<lparr> dt_sum_us := dt_sum_us t + (\<Sum>x\<leftarrow>xs. x - dt_base_shift_us t),
       dt_samples := dt_samples t + length xs \<rparr>"
  using assms
proof (induction xs arbitrary: t)
  case (Cons x xs)
  have "fst (drift_sample t x) =
      t\<lparr> dt_sum_us := dt_sum_us t + (x - dt_base_shift_us t), dt_samples := dt_samples t + 1 \<rparr>"
    using Cons.prems by (simp add: drift_sample_def Let_def)
  then show ?case
    using Cons.IH [of "fst (drift_sample t x)"] Cons.prems by simp
qed simp

lemma drift_feed_append: "drift_feed t (xs @ ys) = drift_feed (drift_feed t xs) ys"
  by (induction xs arbitrary: t) simp_all

lemma sum_list_diff_bounds:
  fixes lo hi b :: int
  assumes "\<forall>x \<in> set xs. lo \<le> x \<and> x \<le> hi"
  shows "(lo - b) * int (length xs) \<le> (\<Sum>x\<leftarrow>xs. x - b) \<and> (\<Sum>x\<leftarrow>xs. x - b) \<le> (hi - b) * int (length xs)"
  using assms by (induction xs) (auto simp: algebra_simps)

lemma drift_feed_batch:
  assumes "dt_samples t = 0" "dt_sum_us t = 0" "length xs = TSBPD_DRIFT_MAX_SAMPLES"
  defines "avg \<equiv> (\<Sum>x\<leftarrow>xs. x - dt_base_shift_us t) sdiv int TSBPD_DRIFT_MAX_SAMPLES"
  shows "correction_us (drift_feed t xs) = dt_base_shift_us t + avg"
    and "\<bar>dt_base_shift_us (drift_feed t xs) - dt_base_shift_us t\<bar> \<le> TSBPD_DRIFT_MAX_VALUE_US"
    and "dt_samples (drift_feed t xs) = 0 \<and> dt_sum_us (drift_feed t xs) = 0"
proof -
  obtain ys y where xs: "xs = ys @ [y]"
    using assms(3) by (cases xs rule: rev_cases) (auto simp: TSBPD_DRIFT_MAX_SAMPLES_def)
  let ?u = "t\<lparr> dt_sum_us := (\<Sum>x\<leftarrow>ys. x - dt_base_shift_us t), dt_samples := length ys \<rparr>"
  have "drift_feed t ys = ?u"
    using drift_feed_partial [of t ys] assms(1-3) by (simp add: xs)
  then have f: "drift_feed t xs = fst (drift_sample ?u y)"
    by (simp add: xs drift_feed_append)
  have len: "length ys + 1 = TSBPD_DRIFT_MAX_SAMPLES" using assms(3) by (simp add: xs)
  show "correction_us (drift_feed t xs) = dt_base_shift_us t + avg"
    unfolding f avg_def using len by (simp add: drift_sample_def Let_def correction_us_def xs)
  show "\<bar>dt_base_shift_us (drift_feed t xs) - dt_base_shift_us t\<bar> \<le> TSBPD_DRIFT_MAX_VALUE_US"
    unfolding f using len
    by (auto simp: drift_sample_def Let_def TSBPD_DRIFT_MAX_VALUE_US_def max_def min_def)
  show "dt_samples (drift_feed t xs) = 0 \<and> dt_sum_us (drift_feed t xs) = 0"
    using len by (simp add: f drift_sample_def Let_def)
qed

text \<open>
  C38.  A drift batch is safe: after any full batch of 1000 clock-offset samples, the correction
  applied to every delivery deadline lies between the smallest and the largest offset measured in
  the batch (so a constant offset is corrected exactly), while the time base itself moves by at most
  5 ms, and the next batch starts empty.
\<close>

theorem drift_batch_bounds:
  assumes "dt_samples t = 0" "dt_sum_us t = 0" "length xs = TSBPD_DRIFT_MAX_SAMPLES"
    and "\<forall>x \<in> set xs. lo \<le> x \<and> x \<le> hi"
  shows "lo \<le> correction_us (drift_feed t xs) \<and> correction_us (drift_feed t xs) \<le> hi
    \<and> \<bar>dt_base_shift_us (drift_feed t xs) - dt_base_shift_us t\<bar> \<le> TSBPD_DRIFT_MAX_VALUE_US
    \<and> dt_samples (drift_feed t xs) = 0 \<and> dt_sum_us (drift_feed t xs) = 0"
proof -
  have "(lo - dt_base_shift_us t) \<le> (\<Sum>x\<leftarrow>xs. x - dt_base_shift_us t) sdiv int TSBPD_DRIFT_MAX_SAMPLES
      \<and> (\<Sum>x\<leftarrow>xs. x - dt_base_shift_us t) sdiv int TSBPD_DRIFT_MAX_SAMPLES \<le> hi - dt_base_shift_us t"
    using sum_list_diff_bounds [OF assms(4), of "dt_base_shift_us t"] assms(3)
    by (intro sdiv_bounds) (simp_all add: TSBPD_DRIFT_MAX_SAMPLES_def)
  then show ?thesis
    using drift_feed_batch [OF assms(1-3)] by auto
qed

theorem drift_batch_bounds_witness:
  "correction_us (drift_feed drift_new (replicate 1000 7000)) = 7000
   \<and> \<bar>dt_base_shift_us (drift_feed drift_new (replicate 1000 7000))\<bar> \<le> 5000"
  using drift_batch_bounds [of drift_new "replicate 1000 7000" 7000 7000]
  by (auto simp: drift_new_def TSBPD_DRIFT_MAX_SAMPLES_def TSBPD_DRIFT_MAX_VALUE_US_def)

end
