(* ===== verification/Crypto_Keys.thy ===== *)
theory Crypto_Keys
  imports Packet_Data
begin

text \<open>
  Key material and the payload cipher (\<open>src/crypto/keys.rs\<close>, \<open>src/crypto/ctr.rs\<close>).

  The RustCrypto crates (\<open>pbkdf2\<close>, \<open>aes-kw\<close>, \<open>aes\<close>/\<open>ctr\<close>) are not part of the repository: they are
  the fields of \<open>crypto_prims\<close>, an argument of every definition that calls them.  What the code
  relies on is \<open>prims_ok\<close>: the RFC 3394 key wrap is inverted by unwrap under the same KEK and adds
  eight bytes,
  PBKDF2 returns the requested length,
  and the CTR keystream has the length of the payload.
\<close>

datatype crypto_error =
    BadKmMessage string
  | WrongSecret
  | Unsupported string
  | NoKey

datatype key_length = Aes128 | Aes192 | Aes256

fun key_bytes :: "key_length \<Rightarrow> nat" where
  "key_bytes Aes128 = 16"
| "key_bytes Aes192 = 24"
| "key_bytes Aes256 = 32"

definition key_length_from_bytes :: "nat \<Rightarrow> key_length option" where
  "key_length_from_bytes n =
     (if n = 16 then Some Aes128 else if n = 24 then Some Aes192 else if n = 32 then Some Aes256
      else None)"

definition PASSPHRASE_MIN :: nat where "PASSPHRASE_MIN = 10"
definition PASSPHRASE_MAX :: nat where "PASSPHRASE_MAX = 80"
definition PBKDF2_ITERATIONS :: nat where "PBKDF2_ITERATIONS = 2048"

record crypto_config =
  cc_passphrase :: bytes
  cc_key_len :: key_length
  cc_km_refresh_rate :: nat
  cc_km_preannounce :: nat

section \<open>The cryptographic crates\<close>

record crypto_prims =
  pr_pbkdf2 :: "bytes \<Rightarrow> bytes \<Rightarrow> nat \<Rightarrow> nat \<Rightarrow> bytes"  \<comment> \<open>passphrase, salt, iterations, output length\<close>
  pr_wrap :: "bytes \<Rightarrow> bytes \<Rightarrow> bytes"                  \<comment> \<open>KEK, plaintext\<close>
  pr_unwrap :: "bytes \<Rightarrow> bytes \<Rightarrow> bytes option"         \<comment> \<open>KEK, blob; \<open>None\<close>: integrity check failed\<close>
  pr_stream :: "bytes \<Rightarrow> bytes \<Rightarrow> nat \<Rightarrow> bytes"         \<comment> \<open>key, initial counter block, length\<close>

definition is_key :: "bytes \<Rightarrow> bool" where
  "is_key k \<longleftrightarrow> key_length_from_bytes (length k) \<noteq> None"

definition wrappable :: "bytes \<Rightarrow> bytes \<Rightarrow> bool" where
  "wrappable kek p \<longleftrightarrow> is_key kek \<and> length p \<noteq> 0 \<and> length p mod 8 = 0"

definition prims_ok :: "crypto_prims \<Rightarrow> bool" where
  "prims_ok cp \<longleftrightarrow>
     (\<forall>pw salt iters n. length (pr_pbkdf2 cp pw salt iters n) = n)
   \<and> (\<forall>kek p. wrappable kek p \<longrightarrow>
        length (pr_wrap cp kek p) = length p + 8 \<and> pr_unwrap cp kek (pr_wrap cp kek p) = Some p)
   \<and> (\<forall>kek w p. pr_unwrap cp kek w = Some p \<longrightarrow> length w = length p + 8)
   \<and> (\<forall>key iv n. length (pr_stream cp key iv n) = n)"

section \<open>Keys\<close>

text \<open>
  A SEK or KEK.  \<open>SecretKey::key_len\<close> panics unless the length is 16, 24 or 32, so whatever
  dispatches on it (the key wrap, the cipher constructor) does.  \<open>secret_generate\<close> overlays the
  bytes \<open>rnd\<close> the operating system returned on the zero-initialised buffer.
\<close>

type_synonym secret_key = bytes

definition fill_random :: "nat \<Rightarrow> bytes \<Rightarrow> bytes" where
  "fill_random n rnd = take n (rnd @ replicate n 0)"

definition secret_generate :: "key_length \<Rightarrow> bytes \<Rightarrow> secret_key" where
  "secret_generate len rnd = fill_random (key_bytes len) rnd"

definition random_salt :: "bytes \<Rightarrow> bytes" where
  "random_salt rnd = fill_random 16 rnd"

definition derive_kek :: "crypto_prims \<Rightarrow> bytes \<Rightarrow> bytes \<Rightarrow> key_length \<Rightarrow> secret_key" where
  "derive_kek cp passphrase km_salt key_len =
     pr_pbkdf2 cp passphrase (drop 8 km_salt) PBKDF2_ITERATIONS (key_bytes key_len)"

definition wrap_key :: "crypto_prims \<Rightarrow> secret_key \<Rightarrow> bytes \<Rightarrow> (bytes, 'e) outcome" where
  "wrap_key cp kek plaintext =
     (if wrappable kek plaintext then Ok (pr_wrap cp kek plaintext) else Panic)"

definition unwrap_key :: "crypto_prims \<Rightarrow> secret_key \<Rightarrow> bytes \<Rightarrow> (secret_key, crypto_error) outcome" where
  "unwrap_key cp kek wrapped =
     (if length wrapped < 24 \<or> length wrapped mod 8 \<noteq> 0 then Err (BadKmMessage ''wrapped key length'')
      else if \<not> is_key kek then Panic
      else case pr_unwrap cp kek wrapped of Some out \<Rightarrow> Ok out | None \<Rightarrow> Err WrongSecret)"

text \<open>\<open>CtrCipher::new\<close>: the expanded key schedule is represented by the key it expands.\<close>

type_synonym ctr_cipher = bytes

definition cipher_new :: "secret_key \<Rightarrow> (ctr_cipher, 'e) outcome" where
  "cipher_new key = (if is_key key then Ok key else Panic)"

lemma key_length_of_bytes [simp]: "key_length_from_bytes (key_bytes l) = Some l"
  by (cases l) (simp_all add: key_length_from_bytes_def)

lemma key_length_from_bytes_Some: "key_length_from_bytes n = Some l \<longleftrightarrow> n = key_bytes l"
  by (cases l) (auto simp: key_length_from_bytes_def)

lemma is_key_iff: "is_key k \<longleftrightarrow> (\<exists>l. length k = key_bytes l)"
  by (auto simp: is_key_def key_length_from_bytes_Some)

lemma key_bytes_facts: "16 \<le> key_bytes l" "key_bytes l \<le> 32" "key_bytes l mod 8 = 0"
  by (cases l; simp)+

lemma length_fill_random [simp]: "length (fill_random n rnd) = n"
  by (simp add: fill_random_def)

lemma length_secret_generate [simp]: "length (secret_generate l rnd) = key_bytes l"
  by (simp add: secret_generate_def)

lemma length_random_salt [simp]: "length (random_salt rnd) = 16"
  by (simp add: random_salt_def)

lemma length_derive_kek: "prims_ok cp \<Longrightarrow> length (derive_kek cp pw salt l) = key_bytes l"
  by (simp add: derive_kek_def prims_ok_def)

lemma is_key_bytes: "length k = key_bytes l \<Longrightarrow> is_key k"
  by (auto simp: is_key_iff)

lemma wrappable_keys:
  assumes "length kek = key_bytes l" "length p = m * key_bytes l'" "0 < m"
  shows "wrappable kek p"
proof -
  have "length p mod 8 = 0" using key_bytes_facts(3) [of l'] by (simp add: assms mod_mult_right_eq [symmetric])
  moreover have "length p \<noteq> 0" using assms key_bytes_facts(1) [of l'] by auto
  ultimately show ?thesis using assms(1) by (simp add: wrappable_def is_key_bytes)
qed

lemma unwrap_wrap_key:
  assumes "prims_ok cp" "wrap_key cp kek p = Ok w" "16 \<le> length p"
  shows "unwrap_key cp kek w = Ok p" "length w = length p + 8"
proof -
  have wr: "wrappable kek p" and w: "w = pr_wrap cp kek p"
    using assms(2) by (auto simp: wrap_key_def split: if_splits)
  with assms(1) have eq: "length w = length p + 8" "pr_unwrap cp kek w = Some p"
    by (auto simp: prims_ok_def)
  then show "unwrap_key cp kek w = Ok p" "length w = length p + 8"
    using wr assms(3) by (auto simp: unwrap_key_def wrappable_def)
qed

section \<open>The payload cipher\<close>

text \<open>
  \<open>counter_block\<close>: zero bytes 0..9 and the sequence number at 10..13, the first fourteen bytes
  XORed with the salt; bytes 14 and 15 are the block counter, starting at zero.
\<close>

definition xor_bytes :: "bytes \<Rightarrow> bytes \<Rightarrow> bytes" where
  "xor_bytes xs ys = map2 (XOR) xs ys"

definition counter_block :: "bytes \<Rightarrow> u32 \<Rightarrow> bytes" where
  "counter_block salt seq = xor_bytes (replicate 10 0 @ be32 seq) (take 14 salt) @ [0, 0]"

definition apply_keystream :: "crypto_prims \<Rightarrow> secret_key \<Rightarrow> bytes \<Rightarrow> u32 \<Rightarrow> bytes \<Rightarrow> bytes" where
  "apply_keystream cp key salt seq payload =
     xor_bytes payload (pr_stream cp key (counter_block salt seq) (length payload))"

lemma length_xor_bytes [simp]: "length (xor_bytes xs ys) = min (length xs) (length ys)"
  by (simp add: xor_bytes_def)

lemma xor_bytes_involution: "length xs \<le> length ys \<Longrightarrow> xor_bytes (xor_bytes xs ys) ys = xs"
proof (induction xs arbitrary: ys)
  case (Cons x xs)
  then obtain y ys' where "ys = y # ys'" by (cases ys) auto
  with Cons show ?case by (simp add: xor_bytes_def xor.assoc)
qed (simp add: xor_bytes_def)

lemma length_apply_keystream [simp]:
  "prims_ok cp \<Longrightarrow> length (apply_keystream cp key salt seq payload) = length payload"
  by (simp add: apply_keystream_def prims_ok_def)

lemma apply_keystream_involution:
  assumes "prims_ok cp"
  shows "apply_keystream cp key salt seq (apply_keystream cp key salt seq payload) = payload"
proof -
  have len: "length (pr_stream cp key iv n) = n" for iv n
    using assms by (simp add: prims_ok_def)
  then show ?thesis
    by (simp add: apply_keystream_def xor_bytes_involution)
qed

lemma length_counter_block: "length salt = 16 \<Longrightarrow> length (counter_block salt seq) = 16"
  by (simp add: counter_block_def)

lemma xor_bytes_cancel:
  "length xs = length ys \<Longrightarrow> length xs \<le> length zs \<Longrightarrow> xor_bytes xs zs = xor_bytes ys zs \<Longrightarrow> xs = ys"
  by (metis xor_bytes_involution)

lemma counter_block_inj:
  assumes "length salt = 16" "counter_block salt s = counter_block salt t" shows "s = t"
proof -
  let ?b = "\<lambda>w. replicate 10 0 @ be32 w :: bytes"
  have "xor_bytes (?b s) (take 14 salt) = xor_bytes (?b t) (take 14 salt)"
    using assms(2) unfolding counter_block_def by (rule append_same_eq [THEN iffD1])
  then have "?b s = ?b t"
    by (rule xor_bytes_cancel [rotated 2]) (simp_all add: assms(1))
  then have "be32 s = be32 t" by (rule same_append_eq [THEN iffD1])
  then show ?thesis by (rule f32.put_inject [THEN iffD1])
qed

end
