(* ===== verification/Crypto_Km.thy ===== *)
theory Crypto_Km
  imports Crypto_Keys
begin

text \<open>
  The Key Material message (\<open>src/crypto/km.rs\<close>): the KM codec with its strict validation order,
  and the two shapes of a KMRSP.
\<close>

definition KM_HEADER_LEN :: nat where "KM_HEADER_LEN = 16"
definition KM_SALT_LEN :: nat where "KM_SALT_LEN = 16"
definition WRAP_ICV_LEN :: nat where "WRAP_ICV_LEN = 8"
definition KM_SIGN :: bytes where "KM_SIGN = [0x20, 0x29]"

lemmas km_consts = KM_HEADER_LEN_def KM_SALT_LEN_def WRAP_ICV_LEN_def KM_SIGN_def

datatype km_state = KmUnsecured | KmSecuring | KmSecured | KmNoSecret | KmBadSecret

definition km_state_from_u32 :: "u32 \<Rightarrow> km_state option" where
  "km_state_from_u32 v =
     (if v = 0 then Some KmUnsecured else if v = 1 then Some KmSecuring
      else if v = 2 then Some KmSecured else if v = 3 then Some KmNoSecret
      else if v = 4 then Some KmBadSecret else None)"

datatype km_keys = KeysEven | KeysOdd | KeysBoth

fun km_keys_bits :: "km_keys \<Rightarrow> u8" where
  "km_keys_bits KeysEven = 1"
| "km_keys_bits KeysOdd = 2"
| "km_keys_bits KeysBoth = 3"

fun km_keys_count :: "km_keys \<Rightarrow> nat" where
  "km_keys_count KeysEven = 1"
| "km_keys_count KeysOdd = 1"
| "km_keys_count KeysBoth = 2"

record km_message =
  km_keys :: km_keys
  km_key_len :: key_length
  km_salt :: bytes
  km_wrapped :: bytes

text \<open>\<open>buf[i]\<close>, which panics out of range.\<close>

definition byte_at :: "bytes \<Rightarrow> nat \<Rightarrow> (u8, 'e) outcome" where
  "byte_at buf i = (if i < length buf then Ok (buf ! i) else Panic)"

definition km_keys_from_byte :: "u8 \<Rightarrow> (km_keys, crypto_error) outcome" where
  "km_keys_from_byte b =
     (let kk = b AND 3 in
      if kk = 1 then Ok KeysEven else if kk = 2 then Ok KeysOdd else if kk = 3 then Ok KeysBoth
      else Err (BadKmMessage ''KM carries no key (KK = 0)''))"

definition km_parse :: "bytes \<Rightarrow> (km_message, crypto_error) outcome" where
  "km_parse buf =
     (if length buf \<le> KM_HEADER_LEN then Err (BadKmMessage ''KM message not longer than its header'')
      else bind_outcome (byte_at buf 15) (\<lambda>b15.
      let sek_len = unat b15 * 4 in
      if sek_len = 0 then Err (BadKmMessage ''KM key length is zero'')
      else bind_outcome (byte_at buf 0) (\<lambda>b0.
      if drop_bit 4 b0 \<noteq> 1 then Err (Unsupported ''KM version is not 1'')
      else if b0 AND 0x0F \<noteq> 2 then Err (BadKmMessage ''payload type is not KM'')
      else bind_outcome (slice buf 1 3) (\<lambda>sign.
      if sign \<noteq> KM_SIGN then Err (BadKmMessage ''bad HaiCrypt signature'')
      else bind_outcome (byte_at buf 10) (\<lambda>b10.
      if b10 \<noteq> 2 then Err (Unsupported ''stream encapsulation is not TSSRT'')
      else bind_outcome (bind_outcome (byte_at buf 3) km_keys_from_byte) (\<lambda>keys.
      bind_outcome (byte_at buf 14) (\<lambda>b14.
      let salt_len = unat b14 * 4 in
      if salt_len > KM_SALT_LEN then Err (BadKmMessage ''salt longer than 16 bytes'')
      else if salt_len \<noteq> KM_SALT_LEN then Err (Unsupported ''salt shorter than 16 bytes'')
      else case key_length_from_bytes sek_len of
        None \<Rightarrow> Err (BadKmMessage ''SEK length not 16/24/32'')
      | Some key_len \<Rightarrow>
      if length buf \<noteq> KM_HEADER_LEN + salt_len + WRAP_ICV_LEN + km_keys_count keys * sek_len
      then Err (BadKmMessage ''KM length does not match its fields'')
      else bind_outcome (byte_at buf 8) (\<lambda>b8.
      if b8 \<noteq> 2 then Err (Unsupported ''cipher is not AES-CTR'')
      else bind_outcome (byte_at buf 9) (\<lambda>b9.
      if b9 \<noteq> 0 then Err (Unsupported ''auth is not none'')
      else bind_outcome (slice buf 16 32) (\<lambda>salt.
      bind_outcome (slice_from buf 32) (\<lambda>wrapped.
      Ok \<lparr> km_keys = keys, km_key_len = key_len, km_salt = salt, km_wrapped = wrapped \<rparr>)))))))))))"

definition km_encode :: "km_message \<Rightarrow> bytes" where
  "km_encode m =
     [0x12] @ KM_SIGN @ [km_keys_bits (km_keys m)] @ [0, 0, 0, 0] @ [2] @ [0] @ [2] @ [0] @ [0, 0]
     @ [of_nat (KM_SALT_LEN div 4)] @ [of_nat (key_bytes (km_key_len m) div 4)]
     @ km_salt m @ km_wrapped m"

datatype km_response = Echo bytes | Status "km_state option"

definition from_le32 :: "bytes \<Rightarrow> u32" where
  "from_le32 bs = from_be32 (rev bs)"

definition km_response_parse :: "bytes \<Rightarrow> (km_response, crypto_error) outcome" where
  "km_response_parse buf =
     (if length buf \<le> 3 then Err (BadKmMessage ''KMRSP shorter than one word'')
      else if length buf = 4 then Ok (Status (km_state_from_u32 (from_le32 buf)))
      else Ok (Echo buf))"

text \<open>The messages the engine builds: the container lengths \<open>KmMessage::encode\<close> asserts.\<close>

definition km_wf :: "km_message \<Rightarrow> bool" where
  "km_wf m \<longleftrightarrow> length (km_salt m) = 16
     \<and> length (km_wrapped m) = WRAP_ICV_LEN + km_keys_count (km_keys m) * key_bytes (km_key_len m)"

lemma byte_at_Panic_iff [no_panic]: "byte_at buf i = Panic \<longleftrightarrow> length buf \<le> i"
  by (auto simp: byte_at_def)

lemma byte_at_simps [wire_simps]:
  "byte_at (x # xs) 0 = Ok x"
  "0 < n \<Longrightarrow> byte_at (x # xs) n = byte_at xs (n - 1)"
  by (auto simp: byte_at_def nth_Cons')

lemma slice_Cons [wire_simps]:
  "0 < a \<Longrightarrow> a \<le> b \<Longrightarrow> slice (x # xs) a b = slice xs (a - 1) (b - 1)"
  "0 < a \<Longrightarrow> slice_from (x # xs) a = slice_from xs (a - 1)"
  by (auto simp: slice_def slice_from_def drop_Cons')

lemma km_keys_byte_not_Panic [no_panic]: "km_keys_from_byte b \<noteq> Panic"
  by (simp add: km_keys_from_byte_def Let_def)

lemma km_keys_roundtrip: "km_keys_from_byte (km_keys_bits k) = Ok k"
  by (cases k) (simp_all add: km_keys_from_byte_def)

lemma length_km_encode: "km_wf m \<Longrightarrow>
  length (km_encode m) = 40 + km_keys_count (km_keys m) * key_bytes (km_key_len m)"
  by (simp add: km_encode_def km_wf_def km_consts)

lemma km_parse_no_panic [no_panic]: "km_parse buf \<noteq> Panic"
proof -
  have "key_length_from_bytes n = Some l \<Longrightarrow> 16 \<le> n" for n l
    using key_bytes_facts(1) [of l] by (simp add: key_length_from_bytes_Some)
  then show ?thesis
    by (auto simp: km_parse_def no_panic Let_def km_consts split: if_splits option.splits)
qed

lemma km_parse_wf:
  assumes "km_parse buf = Ok m" shows "km_wf m"
  using assms
  by (auto simp: km_parse_def bind_outcome_Ok_iff Let_def km_consts km_wf_def
      key_length_from_bytes_Some slice_def slice_from_def split: if_splits option.splits)

lemma km_parse_encode:
  assumes "km_wf m" shows "km_parse (km_encode m) = Ok m"
proof -
  have wf: "length (km_salt m) = 16"
    "length (km_wrapped m) = 8 + km_keys_count (km_keys m) * key_bytes (km_key_len m)"
    using assms by (simp_all add: km_wf_def km_consts)
  have "unat (of_nat (key_bytes l div 4) :: u8) * 4 = key_bytes l" for l
    by (cases l) simp_all
  moreover have "slice (km_salt m @ km_wrapped m) 0 16 = Ok (km_salt m)"
    using slice_here [of 16 "km_salt m"] wf by simp
  moreover have "slice_from (km_salt m @ km_wrapped m) 16 = Ok (km_wrapped m)"
    using wf by (simp add: slice_from_def)
  moreover have "0 < unat (of_nat (key_bytes l div 4) :: u8)" for l
    by (cases l) simp_all
  ultimately show ?thesis
    by (simp add: km_parse_def km_encode_def km_consts wire_simps Let_def km_keys_roundtrip wf
        slice_def)
qed

interpretation km_fmt: wire_format km_encode km_parse km_wf
  by unfold_locales (rule km_parse_encode)

end
