(* ===== verification/Crypto_Context.thy ===== *)
theory Crypto_Context
  imports Crypto_Km
begin

text \<open>
  The per-connection encryption engine (\<open>src/crypto/context.rs\<close>): key exchange, payload
  encryption and the transmit-key refresh machine.

  The two-element arrays indexed by \<open>EVEN\<close>/\<open>ODD\<close> are functions from \<open>slot\<close>, and
  \<open>active ^ 1\<close> is \<open>other_slot\<close>.  \<open>expect\<close> on an empty slot is \<open>Panic\<close>.  Bytes drawn from the
  operating system's generator are the arguments \<open>rnd\<close>.
\<close>

section \<open>State\<close>

definition KM_MAX_RETRY :: nat where "KM_MAX_RETRY = 10"

datatype slot = EVEN | ODD

fun other_slot :: "slot \<Rightarrow> slot" where
  "other_slot EVEN = ODD"
| "other_slot ODD = EVEN"

datatype km_req_outcome = Installed | ReqFailed km_state
datatype km_rsp_outcome = Confirmed | RspFailed km_state | Ignored
datatype tx_key_state = TxActive | TxAnnounced | TxDeprecated

record tx_key =
  tk_key :: secret_key
  tk_cipher :: ctr_cipher
  tk_pkt_cnt :: u32
  tk_state :: tx_key_state

record outstanding_kmreq =
  ok_blob :: bytes
  ok_retries :: nat
  ok_last_send :: "instant option"

record crypto =
  cr_cfg :: crypto_config
  cr_salt :: bytes
  cr_kek :: secret_key
  cr_tx :: "slot \<Rightarrow> tx_key option"
  cr_active :: slot
  cr_rx :: "slot \<Rightarrow> ctr_cipher option"
  cr_rx_salt :: bytes
  cr_rx_kek :: "secret_key option"
  cr_snd_state :: km_state
  cr_rcv_state :: km_state
  cr_outstanding :: "outstanding_kmreq option"
  cr_key_switches :: nat

section \<open>Construction\<close>

definition new_initiator :: "crypto_prims \<Rightarrow> bytes \<Rightarrow> bytes \<Rightarrow> crypto_config \<Rightarrow> (crypto, 'e) outcome" where
  "new_initiator cp rnd_salt rnd_key cfg =
     (let salt = random_salt rnd_salt;
          kek = derive_kek cp (cc_passphrase cfg) salt (cc_key_len cfg);
          sek = secret_generate (cc_key_len cfg) rnd_key in
      bind_outcome (cipher_new sek) (\<lambda>cipher.
      bind_outcome (wrap_key cp kek sek) (\<lambda>wrapped.
      let blob = km_encode \<lparr> km_keys = KeysEven, km_key_len = cc_key_len cfg, km_salt = salt,
                             km_wrapped = wrapped \<rparr> in
      Ok \<lparr> cr_cfg = cfg, cr_salt = salt, cr_kek = kek,
           cr_tx = (\<lambda>_. None)(EVEN := Some \<lparr> tk_key = sek, tk_cipher = cipher, tk_pkt_cnt = 1,
                                             tk_state = TxActive \<rparr>),
           cr_active = EVEN,
           cr_rx = (\<lambda>_. None)(EVEN := Some cipher),
           cr_rx_salt = salt, cr_rx_kek = None,
           cr_snd_state = KmSecuring, cr_rcv_state = KmUnsecured,
           cr_outstanding = Some \<lparr> ok_blob = blob, ok_retries = KM_MAX_RETRY, ok_last_send = None \<rparr>,
           cr_key_switches = 0 \<rparr>)))"

definition parse_kmreq :: "bytes \<Rightarrow> (km_message, km_state) outcome" where
  "parse_kmreq buf =
     (if length buf \<le> KM_HEADER_LEN then Err KmBadSecret
      else bind_outcome (byte_at buf 15) (\<lambda>b.
        if b = 0 then Err KmBadSecret
        else case km_parse buf of Ok m \<Rightarrow> Ok m | Err _ \<Rightarrow> Err KmNoSecret | Panic \<Rightarrow> Panic))"

definition split_seks :: "km_message \<Rightarrow> secret_key \<Rightarrow> (slot \<Rightarrow> secret_key option, 'e) outcome" where
  "split_seks msg sek =
     (case km_keys msg of
        KeysEven \<Rightarrow> Ok ((\<lambda>_. None)(EVEN := Some sek))
      | KeysOdd \<Rightarrow> Ok ((\<lambda>_. None)(ODD := Some sek))
      | KeysBoth \<Rightarrow>
          let n = key_bytes (km_key_len msg) in
          if n \<le> length sek
          then Ok ((\<lambda>_. None)(EVEN := Some (take n sek), ODD := Some (drop n sek)))
          else Panic)"

definition cipher_opt :: "secret_key option \<Rightarrow> (ctr_cipher option, 'e) outcome" where
  "cipher_opt k = (case k of None \<Rightarrow> Ok None | Some key \<Rightarrow> bind_outcome (cipher_new key) (\<lambda>c. Ok (Some c)))"

definition expand_seks :: "(slot \<Rightarrow> secret_key option) \<Rightarrow> (slot \<Rightarrow> ctr_cipher option, 'e) outcome" where
  "expand_seks seks =
     bind_outcome (cipher_opt (seks EVEN)) (\<lambda>ce.
     bind_outcome (cipher_opt (seks ODD)) (\<lambda>co.
     Ok ((\<lambda>_. None)(EVEN := ce, ODD := co))))"

definition new_responder :: "crypto_prims \<Rightarrow> crypto_config \<Rightarrow> bytes \<Rightarrow> (crypto, km_state) outcome" where
  "new_responder cp cfg0 req =
     bind_outcome (parse_kmreq req) (\<lambda>msg.
     let cfg = cfg0\<lparr> cc_key_len := km_key_len msg \<rparr>;
         kek = derive_kek cp (cc_passphrase cfg) (km_salt msg) (km_key_len msg) in
     bind_outcome
       (case unwrap_key cp kek (km_wrapped msg) of
          Ok sek \<Rightarrow> Ok sek
        | Err WrongSecret \<Rightarrow> Err KmBadSecret
        | Err _ \<Rightarrow> Err KmNoSecret
        | Panic \<Rightarrow> Panic) (\<lambda>sek.
     bind_outcome (split_seks msg sek) (\<lambda>seks.
     let active = (if seks EVEN \<noteq> None then EVEN else ODD) in
     bind_outcome (expand_seks seks) (\<lambda>ciphers.
     Ok \<lparr> cr_cfg = cfg, cr_salt = km_salt msg, cr_kek = kek,
          cr_tx = (\<lambda>s. case (seks s, ciphers s) of
                     (Some key, Some cipher) \<Rightarrow>
                       Some \<lparr> tk_key = key, tk_cipher = cipher,
                              tk_pkt_cnt = (if s = active then 1 else 0),
                              tk_state = (if s = active then TxActive else TxAnnounced) \<rparr>
                   | _ \<Rightarrow> None),
          cr_active = active,
          cr_rx = ciphers,
          cr_rx_salt = km_salt msg, cr_rx_kek = None,
          cr_snd_state = KmSecured, cr_rcv_state = KmSecured,
          cr_outstanding = Some \<lparr> ok_blob = req, ok_retries = 0, ok_last_send = None \<rparr>,
          cr_key_switches = 0 \<rparr>))))"

definition kmreq :: "crypto \<Rightarrow> bytes option" where
  "kmreq c = map_option ok_blob (cr_outstanding c)"

section \<open>Payload encryption\<close>

text \<open>The debug assertion on an empty payload is a \<open>Panic\<close>, like the \<open>expect\<close> that follows it.\<close>

definition encrypt ::
  "crypto_prims \<Rightarrow> crypto \<Rightarrow> seq_number \<Rightarrow> bytes \<Rightarrow> (crypto \<times> encryption_flags \<times> bytes, 'e) outcome" where
  "encrypt cp c sq payload =
     (if payload = [] then Panic
      else case cr_tx c (cr_active c) of
        None \<Rightarrow> Panic
      | Some k \<Rightarrow>
          Ok (c\<lparr> cr_tx := (cr_tx c)(cr_active c := Some (k\<lparr> tk_pkt_cnt := tk_pkt_cnt k + 1 \<rparr>)) \<rparr>,
              if cr_active c = EVEN then EncEven else EncOdd,
              apply_keystream cp (tk_cipher k) (cr_salt c) (seq_value sq) payload))"

text \<open>The payload is decrypted in place; on an error it is left as it was received.\<close>

definition decrypt ::
  "crypto_prims \<Rightarrow> crypto \<Rightarrow> seq_number \<Rightarrow> encryption_flags \<Rightarrow> bytes \<Rightarrow> crypto \<times> (bytes, crypto_error) outcome"
where
  "decrypt cp c sq kk payload =
     (if kk = EncNone then (c, Err NoKey)
      else
        let s = (if kk = EncEven then EVEN else ODD) in
        if cr_rcv_state c = KmUnsecured then (c\<lparr> cr_rcv_state := KmSecuring \<rparr>, Err NoKey)
        else if cr_rcv_state c \<noteq> KmSecured then (c, Err NoKey)
        else case cr_rx c s of
          None \<Rightarrow> (c, Err NoKey)
        | Some cipher \<Rightarrow> (c, Ok (apply_keystream cp cipher (cr_rx_salt c) (seq_value sq) payload)))"

section \<open>Key refresh\<close>

definition tick_refresh :: "crypto_prims \<Rightarrow> bytes \<Rightarrow> crypto \<Rightarrow> (crypto \<times> bytes option, 'e) outcome" where
  "tick_refresh cp rnd c =
     (case cr_tx c (cr_active c) of
        None \<Rightarrow> Panic
      | Some act \<Rightarrow>
        let rr = cc_km_refresh_rate (cr_cfg c);
            pa = cc_km_preannounce (cr_cfg c);
            cnt = unat (tk_pkt_cnt act);
            alt = other_slot (cr_active c);
            alt_state = map_option tk_state (cr_tx c alt) in
        if cnt > rr - pa \<and> alt_state \<noteq> Some TxAnnounced then
          let key = secret_generate (cc_key_len (cr_cfg c)) rnd in
          bind_outcome (cipher_new key) (\<lambda>cipher.
          let tx' = (cr_tx c)(alt := Some \<lparr> tk_key = key, tk_cipher = cipher, tk_pkt_cnt = 0,
                                            tk_state = TxAnnounced \<rparr>) in
          case (tx' EVEN, tx' ODD) of
            (Some ek, Some od) \<Rightarrow>
              bind_outcome (wrap_key cp (cr_kek c) (tk_key ek @ tk_key od)) (\<lambda>wrapped.
              Ok (c\<lparr> cr_tx := tx' \<rparr>,
                  Some (km_encode \<lparr> km_keys = KeysBoth, km_key_len = cc_key_len (cr_cfg c),
                                    km_salt = cr_salt c, km_wrapped = wrapped \<rparr>)))
          | _ \<Rightarrow> Panic)
        else if (cnt > rr \<or> cnt = 0) \<and> alt_state = Some TxAnnounced then
          (case cr_tx c alt of
             None \<Rightarrow> Panic
           | Some new \<Rightarrow>
               Ok (c\<lparr> cr_tx := (cr_tx c)(cr_active c := Some (act\<lparr> tk_state := TxDeprecated \<rparr>),
                                          alt := Some (new\<lparr> tk_state := TxActive \<rparr>)),
                      cr_active := alt,
                      cr_key_switches := cr_key_switches c + 1 \<rparr>, None))
        else if alt_state = Some TxDeprecated \<and> cnt > pa then
          Ok (c\<lparr> cr_tx := (cr_tx c)(alt := None) \<rparr>, None)
        else Ok (c, None))"

definition crypto_on_ack ::
  "crypto_prims \<Rightarrow> bytes \<Rightarrow> crypto \<Rightarrow> instant \<Rightarrow> nat \<Rightarrow> (crypto \<times> bytes option, 'e) outcome" where
  "crypto_on_ack cp rnd c now srtt_us =
     (if cr_snd_state c = KmUnsecured then Ok (c, None)
      else bind_outcome (tick_refresh cp rnd c) (\<lambda>(c1, fresh).
        case fresh of
          Some blob \<Rightarrow>
            Ok (c1\<lparr> cr_outstanding := Some \<lparr> ok_blob = blob, ok_retries = KM_MAX_RETRY,
                                             ok_last_send = Some now \<rparr> \<rparr>, Some blob)
        | None \<Rightarrow>
          (case cr_outstanding c1 of
             None \<Rightarrow> Ok (c1, None)
           | Some out \<Rightarrow>
               if ok_retries out = 0 then Ok (c1, None)
               else
                 let pace = from_micros (srtt_us * 3 div 2) in
                 if (case ok_last_send out of None \<Rightarrow> False | Some last_at \<Rightarrow> now < last_at + pace)
                 then Ok (c1, None)
                 else Ok (c1\<lparr> cr_outstanding := Some (out\<lparr> ok_retries := ok_retries out - 1,
                                                           ok_last_send := Some now \<rparr>) \<rparr>,
                          Some (ok_blob out)))))"

section \<open>Key exchange messages\<close>

definition install_rx :: "crypto_prims \<Rightarrow> crypto \<Rightarrow> km_message \<Rightarrow> (crypto, crypto_error) outcome" where
  "install_rx cp c msg =
     (let current = (case cr_rx_kek c of Some k \<Rightarrow> k | None \<Rightarrow> cr_kek c);
          fresh = (if km_salt msg \<noteq> cr_rx_salt c \<or> key_bytes (km_key_len msg) \<noteq> length current
                   then Some (derive_kek cp (cc_passphrase (cr_cfg c)) (km_salt msg) (km_key_len msg))
                   else None) in
      bind_outcome (unwrap_key cp (case fresh of Some k \<Rightarrow> k | None \<Rightarrow> current) (km_wrapped msg)) (\<lambda>sek.
      bind_outcome (split_seks msg sek) (\<lambda>seks.
      bind_outcome (expand_seks seks) (\<lambda>ciphers.
      Ok (c\<lparr> cr_rx := (\<lambda>s. case ciphers s of Some k \<Rightarrow> Some k | None \<Rightarrow> cr_rx c s),
             cr_rx_kek := (if fresh \<noteq> None then fresh else cr_rx_kek c),
             cr_rx_salt := km_salt msg \<rparr>)))))"

definition handle_kmreq :: "crypto_prims \<Rightarrow> crypto \<Rightarrow> bytes \<Rightarrow> (crypto \<times> km_req_outcome, 'e) outcome" where
  "handle_kmreq cp c payload =
     (case parse_kmreq payload of
        Panic \<Rightarrow> Panic
      | Err st \<Rightarrow>
          let c1 = c\<lparr> cr_rcv_state := st \<rparr> in
          Ok (if st = KmNoSecret then c1\<lparr> cr_snd_state := KmNoSecret \<rparr> else c1, ReqFailed st)
      | Ok msg \<Rightarrow>
          (case install_rx cp c msg of
             Panic \<Rightarrow> Panic
           | Ok c1 \<Rightarrow> Ok (c1\<lparr> cr_rcv_state := KmSecured \<rparr>, Installed)
           | Err WrongSecret \<Rightarrow>
               Ok (c\<lparr> cr_snd_state := KmBadSecret, cr_rcv_state := KmBadSecret \<rparr>, ReqFailed KmBadSecret)
           | Err _ \<Rightarrow>
               Ok (c\<lparr> cr_snd_state := KmNoSecret, cr_rcv_state := KmNoSecret \<rparr>, ReqFailed KmNoSecret)))"

definition peer_km_failure :: "crypto \<Rightarrow> km_state option \<Rightarrow> crypto \<times> km_rsp_outcome" where
  "peer_km_failure c reported =
     (let c1 = c\<lparr> cr_outstanding := map_option (\<lambda>out. out\<lparr> ok_retries := 0 \<rparr>) (cr_outstanding c) \<rparr>;
          (snd_st, rcv_st, res) =
            (case reported of
               Some KmBadSecret \<Rightarrow> (KmBadSecret, KmBadSecret, KmBadSecret)
             | Some KmNoSecret \<Rightarrow> (KmNoSecret, KmUnsecured, KmNoSecret)
             | Some KmUnsecured \<Rightarrow> (KmUnsecured, KmNoSecret, KmUnsecured)
             | _ \<Rightarrow> (KmNoSecret, KmNoSecret, KmNoSecret)) in
      (c1\<lparr> cr_snd_state := snd_st, cr_rcv_state := rcv_st \<rparr>, RspFailed res))"

definition handle_kmrsp :: "crypto \<Rightarrow> bytes \<Rightarrow> crypto \<times> km_rsp_outcome" where
  "handle_kmrsp c payload =
     (case km_response_parse payload of
        Ok (Status st) \<Rightarrow> peer_km_failure c st
      | Ok (Echo echo) \<Rightarrow>
          (case cr_outstanding c of
             Some out \<Rightarrow>
               if ok_blob out = echo
               then (c\<lparr> cr_outstanding := None, cr_snd_state := KmSecured, cr_rcv_state := KmSecured \<rparr>,
                     Confirmed)
               else (c, Ignored)
           | None \<Rightarrow> (c, Ignored))
      | _ \<Rightarrow> (c, Ignored))"

section \<open>Invariant\<close>

text \<open>
  The active slot holds the one active key; every transmit key has the configured length and its
  own schedule; both KEKs are the ones derived from the passphrase and the salt in force.
\<close>

definition rx_kek_of :: "crypto \<Rightarrow> secret_key" where
  "rx_kek_of c = (case cr_rx_kek c of Some k \<Rightarrow> k | None \<Rightarrow> cr_kek c)"

definition tx_inv :: "crypto \<Rightarrow> bool" where
  "tx_inv c \<longleftrightarrow>
     (\<exists>k. cr_tx c (cr_active c) = Some k \<and> tk_state k = TxActive)
   \<and> (\<forall>k. cr_tx c (other_slot (cr_active c)) = Some k \<longrightarrow> tk_state k \<noteq> TxActive)
   \<and> (\<forall>s k. cr_tx c s = Some k \<longrightarrow>
        length (tk_key k) = key_bytes (cc_key_len (cr_cfg c)) \<and> tk_cipher k = tk_key k)"

definition crypto_inv :: "crypto_prims \<Rightarrow> crypto \<Rightarrow> bool" where
  "crypto_inv cp c \<longleftrightarrow>
     length (cr_salt c) = 16
   \<and> cr_kek c = derive_kek cp (cc_passphrase (cr_cfg c)) (cr_salt c) (cc_key_len (cr_cfg c))
   \<and> (\<exists>l. rx_kek_of c = derive_kek cp (cc_passphrase (cr_cfg c)) (cr_rx_salt c) l)
   \<and> tx_inv c
   \<and> (\<forall>s k. cr_rx c s = Some k \<longrightarrow> is_key k)"

lemma other_slot_simps [simp]:
  "other_slot s \<noteq> s" "s \<noteq> other_slot s" "other_slot (other_slot s) = s"
  by (cases s; simp)+

lemma slot_cases2: "s = t \<or> s = other_slot t"
  by (cases s; cases t) simp_all

lemma unwrap_key_length:
  assumes "prims_ok cp" "unwrap_key cp kek w = Ok sek" shows "length w = length sek + 8"
  using assms by (auto simp: unwrap_key_def prims_ok_def split: if_splits option.splits)

lemma expand_seks_Ok:
  assumes "\<And>s k. seks s = Some k \<Longrightarrow> is_key k" shows "(expand_seks seks :: (_, 'e) outcome) = Ok seks"
proof -
  have "(cipher_opt (seks s) :: (_, 'e) outcome) = Ok (seks s)" for s
    using assms [of s] by (auto simp: cipher_opt_def cipher_new_def split: option.splits)
  then show ?thesis
    by (auto simp: expand_seks_def fun_eq_iff split: slot.split) (metis slot.exhaust)
qed

lemma split_seks_Ok:
  assumes "length sek = km_keys_count (km_keys msg) * key_bytes (km_key_len msg)"
  obtains seks where "(split_seks msg sek :: (_, 'e) outcome) = Ok seks" "(expand_seks seks :: (_, 'e) outcome) = Ok seks"
    "\<And>s k. seks s = Some k \<Longrightarrow> length k = key_bytes (km_key_len msg)"
    "seks EVEN \<noteq> None \<or> seks ODD \<noteq> None"
proof -
  have "\<exists>seks. (split_seks msg sek :: (_, 'e) outcome) = Ok seks
    \<and> (\<forall>s k. seks s = Some k \<longrightarrow> length k = key_bytes (km_key_len msg))
    \<and> (seks EVEN \<noteq> None \<or> seks ODD \<noteq> None)"
    using assms by (cases "km_keys msg") (auto simp: split_seks_def Let_def)
  then obtain seks where seks: "(split_seks msg sek :: (_, 'e) outcome) = Ok seks"
    "\<And>s k. seks s = Some k \<Longrightarrow> length k = key_bytes (km_key_len msg)"
    "seks EVEN \<noteq> None \<or> seks ODD \<noteq> None"
    by blast
  then have "(expand_seks seks :: (_, 'e) outcome) = Ok seks"
    by (intro expand_seks_Ok) (auto dest: is_key_bytes)
  with seks that show thesis by blast
qed

lemma parse_kmreq_not_Panic [no_panic]: "parse_kmreq buf \<noteq> Panic"
  by (auto simp: parse_kmreq_def no_panic km_consts split: outcome.splits if_splits)

lemma parse_kmreq_wf: "parse_kmreq buf = Ok m \<Longrightarrow> km_wf m"
  by (auto simp: parse_kmreq_def bind_outcome_Ok_iff km_parse_wf split: outcome.splits if_splits)

lemma parse_kmreq_encode:
  assumes "km_wf m" shows "parse_kmreq (km_encode m) = Ok m"
proof -
  have "(of_nat (key_bytes (km_key_len m) div 4) :: u8) \<noteq> 0"
    by (cases "km_key_len m") simp_all
  moreover have "KM_HEADER_LEN < length (km_encode m)"
    using assms by (simp add: length_km_encode km_consts)
  moreover have "(byte_at (km_encode m) 15 :: (u8, km_state) outcome) = Ok (of_nat (key_bytes (km_key_len m) div 4))"
    by (simp add: km_encode_def wire_simps km_consts)
  ultimately show ?thesis
    using assms by (simp add: parse_kmreq_def km_parse_encode)
qed

lemma install_rx_spec:
  assumes "prims_ok cp" "crypto_inv cp c" "km_wf msg"
    and kek: "kek = derive_kek cp (cc_passphrase (cr_cfg c)) (km_salt msg) (km_key_len msg)"
  shows "unwrap_key cp kek (km_wrapped msg) = Err e \<Longrightarrow> install_rx cp c msg = Err e"
    and "unwrap_key cp kek (km_wrapped msg) \<noteq> Panic"
    and "unwrap_key cp kek (km_wrapped msg) = Ok sek \<Longrightarrow>
      \<exists>seks c'. (split_seks msg sek :: (_, crypto_error) outcome) = Ok seks \<and> install_rx cp c msg = Ok c' \<and> crypto_inv cp c'
        \<and> c' = c\<lparr> cr_rx := (\<lambda>s. case seks s of Some k \<Rightarrow> Some k | None \<Rightarrow> cr_rx c s),
                 cr_rx_kek := cr_rx_kek c', cr_rx_salt := km_salt msg \<rparr>"
proof -
  obtain l where l: "rx_kek_of c = derive_kek cp (cc_passphrase (cr_cfg c)) (cr_rx_salt c) l"
    using assms(2) by (auto simp: crypto_inv_def)
  define fresh where "fresh = (if km_salt msg \<noteq> cr_rx_salt c
      \<or> key_bytes (km_key_len msg) \<noteq> length (rx_kek_of c) then Some kek else None)"
  have key_inj: "key_bytes a = key_bytes b \<Longrightarrow> a = b" for a b
    by (metis key_length_of_bytes option.inject)
  have used: "(case fresh of Some k \<Rightarrow> k | None \<Rightarrow> rx_kek_of c) = kek"
    using key_inj by (auto simp: fresh_def kek l length_derive_kek assms(1))
  have inst: "install_rx cp c msg =
      bind_outcome (unwrap_key cp kek (km_wrapped msg)) (\<lambda>sek.
      bind_outcome (split_seks msg sek) (\<lambda>seks.
      bind_outcome (expand_seks seks) (\<lambda>ciphers.
      Ok (c\<lparr> cr_rx := (\<lambda>s. case ciphers s of Some k \<Rightarrow> Some k | None \<Rightarrow> cr_rx c s),
             cr_rx_kek := (if fresh \<noteq> None then fresh else cr_rx_kek c),
             cr_rx_salt := km_salt msg \<rparr>))))"
    unfolding install_rx_def rx_kek_of_def [symmetric] Let_def kek [symmetric] fresh_def [symmetric] used ..
  show "install_rx cp c msg = Err e" if "unwrap_key cp kek (km_wrapped msg) = Err e"
    by (simp add: inst that)
  show "unwrap_key cp kek (km_wrapped msg) \<noteq> Panic"
    using length_derive_kek [OF assms(1)] by (auto simp: unwrap_key_def kek intro: is_key_bytes split: option.splits)
  assume ok: "unwrap_key cp kek (km_wrapped msg) = Ok sek"
  then have "length sek = km_keys_count (km_keys msg) * key_bytes (km_key_len msg)"
    using unwrap_key_length [OF assms(1) ok] assms(3) by (simp add: km_wf_def km_consts)
  then obtain seks where seks: "(split_seks msg sek :: (_, crypto_error) outcome) = Ok seks"
    "(expand_seks seks :: (_, crypto_error) outcome) = Ok seks"
    "\<And>s k. seks s = Some k \<Longrightarrow> length k = key_bytes (km_key_len msg)"
    by (rule split_seks_Ok) blast
  let ?c = "c\<lparr> cr_rx := (\<lambda>s. case seks s of Some k \<Rightarrow> Some k | None \<Rightarrow> cr_rx c s),
             cr_rx_kek := (if fresh \<noteq> None then fresh else cr_rx_kek c), cr_rx_salt := km_salt msg \<rparr>"
  have "rx_kek_of ?c = kek"
    using used by (auto simp: rx_kek_of_def split: option.splits)
  moreover have "is_key k" if "cr_rx ?c s = Some k" for s k
    using that seks(3) [of s] assms(2) by (auto simp: crypto_inv_def intro: is_key_bytes split: option.splits)
  ultimately have "crypto_inv cp ?c"
    using assms(2) by (auto simp: crypto_inv_def tx_inv_def kek)
  moreover have "install_rx cp c msg = Ok ?c"
    by (simp add: inst ok seks)
  ultimately show "\<exists>seks c'. (split_seks msg sek :: (_, crypto_error) outcome) = Ok seks \<and> install_rx cp c msg = Ok c' \<and> crypto_inv cp c'
        \<and> c' = c\<lparr> cr_rx := (\<lambda>s. case seks s of Some k \<Rightarrow> Some k | None \<Rightarrow> cr_rx c s),
                 cr_rx_kek := cr_rx_kek c', cr_rx_salt := km_salt msg \<rparr>"
    using seks(1) by auto
qed

end
