(* ===== verification/Crypto_Engine.thy ===== *)
theory Crypto_Engine
  imports Crypto_Context
begin

text \<open>
  What the encryption engine guarantees: its invariant holds along every sequence of calls, so no
  \<open>expect\<close> fires and the only panic is the assertion against encrypting an empty payload; and a key
  exchange gives both sides the same keys.  Key refresh is in \<open>Crypto_Refresh\<close>.
\<close>

section \<open>Calls on the engine\<close>

datatype crypto_event =
    CallEncrypt seq_number bytes
  | CallDecrypt seq_number encryption_flags bytes
  | CallAck bytes instant nat
  | CallKmReq bytes
  | CallKmRsp bytes

fun engine_call :: "crypto_prims \<Rightarrow> crypto \<Rightarrow> crypto_event \<Rightarrow> (crypto, unit) outcome" where
  "engine_call cp c (CallEncrypt sq p) = bind_outcome (encrypt cp c sq p) (\<lambda>(c', _, _). Ok c')"
| "engine_call cp c (CallDecrypt sq kk p) = Ok (fst (decrypt cp c sq kk p))"
| "engine_call cp c (CallAck rnd now srtt) = bind_outcome (crypto_on_ack cp rnd c now srtt) (\<lambda>(c', _). Ok c')"
| "engine_call cp c (CallKmReq p) = bind_outcome (handle_kmreq cp c p) (\<lambda>(c', _). Ok c')"
| "engine_call cp c (CallKmRsp p) = Ok (fst (handle_kmrsp c p))"

definition engine_step :: "crypto_prims \<Rightarrow> (crypto, unit) outcome \<Rightarrow> crypto_event \<Rightarrow> (crypto, unit) outcome" where
  "engine_step cp s e = bind_outcome s (\<lambda>c. engine_call cp c e)"

text \<open>The one call the code asserts against.\<close>

fun call_ok :: "crypto_event \<Rightarrow> bool" where
  "call_ok (CallEncrypt _ p) \<longleftrightarrow> p \<noteq> []"
| "call_ok _ \<longleftrightarrow> True"

definition engine_ok :: "crypto_prims \<Rightarrow> (crypto, unit) outcome \<Rightarrow> bool" where
  "engine_ok cp s \<longleftrightarrow> prims_ok cp \<and> (\<exists>c. s = Ok c \<and> crypto_inv cp c)"

lemma crypto_inv_tx:
  assumes "crypto_inv cp c"
  obtains k where "cr_tx c (cr_active c) = Some k" "tk_state k = TxActive" "tk_cipher k = tk_key k"
  using assms by (auto simp: crypto_inv_def tx_inv_def)

lemma crypto_inv_frame:
  assumes "crypto_inv cp c" "cr_cfg c' = cr_cfg c" "cr_salt c' = cr_salt c" "cr_kek c' = cr_kek c"
    "cr_rx_salt c' = cr_rx_salt c" "cr_rx_kek c' = cr_rx_kek c" "cr_rx c' = cr_rx c" "tx_inv c'"
  shows "crypto_inv cp c'"
proof -
  have "rx_kek_of c' = rx_kek_of c" using assms by (simp add: rx_kek_of_def split: option.split)
  with assms show ?thesis by (simp add: crypto_inv_def)
qed

lemma tx_inv_frame:
  "tx_inv c \<Longrightarrow> cr_cfg c' = cr_cfg c \<Longrightarrow> cr_tx c' = cr_tx c \<Longrightarrow> cr_active c' = cr_active c \<Longrightarrow> tx_inv c'"
  by (simp add: tx_inv_def)

lemma rx_kek_of_frame [simp]:
  "rx_kek_of (c\<lparr> cr_rcv_state := r \<rparr>) = rx_kek_of c"
  "rx_kek_of (c\<lparr> cr_snd_state := s \<rparr>) = rx_kek_of c"
  "rx_kek_of (c\<lparr> cr_outstanding := q \<rparr>) = rx_kek_of c"
  by (simp_all add: rx_kek_of_def split: option.split)

lemma crypto_inv_status [simp]:
  "crypto_inv cp (c\<lparr> cr_rcv_state := r \<rparr>) = crypto_inv cp c"
  "crypto_inv cp (c\<lparr> cr_snd_state := s \<rparr>) = crypto_inv cp c"
  "crypto_inv cp (c\<lparr> cr_outstanding := q \<rparr>) = crypto_inv cp c"
  by (simp_all add: crypto_inv_def tx_inv_def)

section \<open>Encryption and decryption\<close>

lemma encrypt_total:
  assumes "crypto_inv cp c" "p \<noteq> []"
  obtains c' kk ct where "(encrypt cp c sq p :: (_, 'e) outcome) = Ok (c', kk, ct)" "crypto_inv cp c'"
proof -
  obtain k where k: "cr_tx c (cr_active c) = Some k" "tk_state k = TxActive" "tk_cipher k = tk_key k"
    using assms(1) by (rule crypto_inv_tx)
  let ?c = "c\<lparr> cr_tx := (cr_tx c)(cr_active c := Some (k\<lparr> tk_pkt_cnt := tk_pkt_cnt k + 1 \<rparr>)) \<rparr>"
  have "tx_inv ?c" using assms(1) k by (auto simp: crypto_inv_def tx_inv_def)
  then have "crypto_inv cp ?c" using assms(1) by (auto intro: crypto_inv_frame)
  with k that show thesis using assms(2) by (auto simp: encrypt_def)
qed

lemma decrypt_inv: "crypto_inv cp c \<Longrightarrow> crypto_inv cp (fst (decrypt cp c sq kk p))"
  by (auto simp: decrypt_def Let_def split: option.splits)

section \<open>Refresh\<close>

text \<open>The four things one evaluation of the refresh thresholds can do.\<close>

lemma fresh_pair_wraps:
  assumes "prims_ok cp" "crypto_inv cp c" "length (tk_key new) = key_bytes (cc_key_len (cr_cfg c))"
    and tx'_def: "tx' = (cr_tx c)(other_slot (cr_active c) := Some new)"
  obtains ek od w where "tx' EVEN = Some ek" "tx' ODD = Some od"
    "wrap_key cp (cr_kek c) (tk_key ek @ tk_key od) = (Ok w :: (_, 'd) outcome)"
    "wrap_key cp (cr_kek c) (tk_key ek @ tk_key od) = (Ok w :: (_, 'e) outcome)"
proof -
  obtain act where act: "cr_tx c (cr_active c) = Some act" using assms(2) by (rule crypto_inv_tx)
  have "tx' (cr_active c) \<noteq> None" "tx' (other_slot (cr_active c)) \<noteq> None" using act by (simp_all add: tx'_def)
  then obtain ek od where tx': "tx' EVEN = Some ek" "tx' ODD = Some od"
    using slot_cases2 [of EVEN "cr_active c"] slot_cases2 [of ODD "cr_active c"] by auto
  have len: "length (tk_key k) = key_bytes (cc_key_len (cr_cfg c))" if "tx' s = Some k" for s k
    using that assms(2,3) by (auto simp: tx'_def crypto_inv_def tx_inv_def split: if_splits)
  have "length (cr_kek c) = key_bytes (cc_key_len (cr_cfg c))"
    using assms(2) length_derive_kek [OF assms(1)] by (simp add: crypto_inv_def)
  then have "wrappable (cr_kek c) (tk_key ek @ tk_key od)"
    using len [OF tx'(1)] len [OF tx'(2)]
    by (intro wrappable_keys [where m = 2 and l' = "cc_key_len (cr_cfg c)"]) simp_all
  then show thesis by (intro that [OF tx']) (simp_all add: wrap_key_def)
qed

lemma tick_refresh_cases:
  assumes "prims_ok cp" "crypto_inv cp c"
  defines "alt \<equiv> other_slot (cr_active c)"
  obtains
    (idle) "(tick_refresh cp rnd c :: (_, 'e) outcome) = Ok (c, None)"
  | (retire) old where "(tick_refresh cp rnd c :: (_, 'e) outcome) = Ok (c\<lparr> cr_tx := (cr_tx c)(alt := None) \<rparr>, None)"
      "cr_tx c alt = Some old" "tk_state old = TxDeprecated"
  | (switch) act new where
      "(tick_refresh cp rnd c :: (_, 'e) outcome) =
         Ok (c\<lparr> cr_tx := (cr_tx c)(cr_active c := Some (act\<lparr> tk_state := TxDeprecated \<rparr>),
                                    alt := Some (new\<lparr> tk_state := TxActive \<rparr>)),
                cr_active := alt, cr_key_switches := cr_key_switches c + 1 \<rparr>, None)"
      "cr_tx c (cr_active c) = Some act" "cr_tx c alt = Some new" "tk_state new = TxAnnounced"
  | (announce) key wrapped ek od where
      "(tick_refresh cp rnd c :: (_, 'e) outcome) =
         Ok (c\<lparr> cr_tx := (cr_tx c)(alt := Some \<lparr> tk_key = key, tk_cipher = key, tk_pkt_cnt = 0,
                                                  tk_state = TxAnnounced \<rparr>) \<rparr>,
             Some (km_encode \<lparr> km_keys = KeysBoth, km_key_len = cc_key_len (cr_cfg c),
                               km_salt = cr_salt c, km_wrapped = wrapped \<rparr>))"
      "length key = key_bytes (cc_key_len (cr_cfg c))"
      "((cr_tx c)(alt := Some \<lparr> tk_key = key, tk_cipher = key, tk_pkt_cnt = 0,
                                 tk_state = TxAnnounced \<rparr>)) EVEN = Some ek"
      "((cr_tx c)(alt := Some \<lparr> tk_key = key, tk_cipher = key, tk_pkt_cnt = 0,
                                 tk_state = TxAnnounced \<rparr>)) ODD = Some od"
      "wrap_key cp (cr_kek c) (tk_key ek @ tk_key od) = (Ok wrapped :: (_, unit) outcome)"
      "map_option tk_state (cr_tx c alt) \<noteq> Some TxAnnounced"
proof -
  obtain act where act: "cr_tx c (cr_active c) = Some act" "tk_state act = TxActive"
    using assms(2) by (rule crypto_inv_tx)
  define rr where "rr = cc_km_refresh_rate (cr_cfg c)"
  define pa where "pa = cc_km_preannounce (cr_cfg c)"
  define cnt where "cnt = unat (tk_pkt_cnt act)"
  define st where "st = map_option tk_state (cr_tx c alt)"
  note defs = rr_def [symmetric] pa_def [symmetric] cnt_def [symmetric] alt_def [symmetric] st_def [symmetric]
  consider (a) "cnt > rr - pa \<and> st \<noteq> Some TxAnnounced"
    | (s) "\<not> (cnt > rr - pa \<and> st \<noteq> Some TxAnnounced)" "(cnt > rr \<or> cnt = 0) \<and> st = Some TxAnnounced"
    | (r) "\<not> (cnt > rr - pa \<and> st \<noteq> Some TxAnnounced)" "\<not> ((cnt > rr \<or> cnt = 0) \<and> st = Some TxAnnounced)"
          "st = Some TxDeprecated \<and> cnt > pa"
    | (i) "\<not> (cnt > rr - pa \<and> st \<noteq> Some TxAnnounced)" "\<not> ((cnt > rr \<or> cnt = 0) \<and> st = Some TxAnnounced)"
          "\<not> (st = Some TxDeprecated \<and> cnt > pa)"
    by blast
  then show thesis
  proof cases
    case i
    then have "(tick_refresh cp rnd c :: (_, 'e) outcome) = Ok (c, None)"
      by (auto simp del: map_option_eq_Some simp add: tick_refresh_def act Let_def defs)
    then show thesis by (rule idle)
  next
    case r
    then have "(tick_refresh cp rnd c :: (_, 'e) outcome) = Ok (c\<lparr> cr_tx := (cr_tx c)(alt := None) \<rparr>, None)"
      by (auto simp del: map_option_eq_Some simp add: tick_refresh_def act Let_def defs)
    moreover obtain old where "cr_tx c alt = Some old" "tk_state old = TxDeprecated"
      using r by (auto simp: st_def)
    ultimately show thesis by (rule retire)
  next
    case s
    then obtain new where new: "cr_tx c alt = Some new" "tk_state new = TxAnnounced"
      by (auto simp: st_def)
    show thesis
      by (rule switch [OF _ act(1) new]) (use s new in \<open>simp del: map_option_eq_Some add: tick_refresh_def act Let_def defs\<close>)
  next
    case a
    have alt: "map_option tk_state (cr_tx c alt) \<noteq> Some TxAnnounced"
      using conjunct2 [OF a] unfolding st_def .
    define key where "key = secret_generate (cc_key_len (cr_cfg c)) rnd"
    define tx' where "tx' = (cr_tx c)(alt := Some \<lparr> tk_key = key, tk_cipher = key, tk_pkt_cnt = 0,
        tk_state = TxAnnounced \<rparr>)"
    have key: "length key = key_bytes (cc_key_len (cr_cfg c))" by (simp add: key_def)
    obtain ek od w where tx': "tx' EVEN = Some ek" "tx' ODD = Some od"
      and wrap: "wrap_key cp (cr_kek c) (tk_key ek @ tk_key od) = (Ok w :: (_, unit) outcome)"
        "wrap_key cp (cr_kek c) (tk_key ek @ tk_key od) = (Ok w :: (_, 'e) outcome)"
      by (rule fresh_pair_wraps [OF assms(1,2) _ tx'_def [unfolded alt_def]]) (simp add: key, rule that)
    have cn: "(cipher_new key :: (_, 'e) outcome) = Ok key"
      using key by (simp add: cipher_new_def is_key_bytes)
    show thesis
      by (rule announce [OF _ key, folded tx'_def, OF _ tx' wrap(1) alt])
        (use a in \<open>simp del: map_option_eq_Some fun_upd_apply add: tick_refresh_def act Let_def defs key_def [symmetric] cn tx'_def [symmetric] tx' wrap\<close>)
  qed
qed

lemma km_both_wf:
  assumes "length salt = 16" "length w = 8 + 2 * key_bytes l"
  shows "km_wf \<lparr> km_keys = KeysBoth, km_key_len = l, km_salt = salt, km_wrapped = w \<rparr>"
  using assms by (simp add: km_wf_def km_consts)

lemma tick_refresh_inv:
  assumes "prims_ok cp" "crypto_inv cp c"
  obtains c' fresh where "(tick_refresh cp rnd c :: (_, 'e) outcome) = Ok (c', fresh)" "crypto_inv cp c'"
    "cr_outstanding c' = cr_outstanding c" "cr_snd_state c' = cr_snd_state c"
proof -
  have tx: "tx_inv c" using assms(2) by (simp add: crypto_inv_def)
  note fin = that [OF _ crypto_inv_frame [OF assms(2)]]
  from assms show thesis
  proof (cases rule: tick_refresh_cases [where rnd = rnd and 'e = 'e])
    case idle
    then show thesis using assms(2) by (intro that) simp_all
  next
    case (retire old)
    have "tx_inv (c\<lparr> cr_tx := (cr_tx c)(other_slot (cr_active c) := None) \<rparr>)"
      using tx by (auto simp: tx_inv_def)
    then show thesis by (intro fin [OF retire(1)]) simp_all
  next
    case (switch act new)
    have "tx_inv (c\<lparr> cr_tx := (cr_tx c)(cr_active c := Some (act\<lparr> tk_state := TxDeprecated \<rparr>),
        other_slot (cr_active c) := Some (new\<lparr> tk_state := TxActive \<rparr>)),
        cr_active := other_slot (cr_active c), cr_key_switches := cr_key_switches c + 1 \<rparr>)"
      using tx switch(2-4) by (auto simp: tx_inv_def)
    then show thesis by (intro fin [OF switch(1)]) simp_all
  next
    case (announce key wrapped ek od)
    have "tx_inv (c\<lparr> cr_tx := (cr_tx c)(other_slot (cr_active c) := Some \<lparr> tk_key = key,
        tk_cipher = key, tk_pkt_cnt = 0, tk_state = TxAnnounced \<rparr>) \<rparr>)"
      using tx announce(2) by (auto simp: tx_inv_def)
    then show thesis by (intro fin [OF announce(1)]) simp_all
  qed
qed

lemma on_ack_inv:
  assumes "prims_ok cp" "crypto_inv cp c"
  obtains c' out where "(crypto_on_ack cp rnd c now srtt :: (_, 'e) outcome) = Ok (c', out)" "crypto_inv cp c'"
proof -
  obtain c1 fresh where c1: "(tick_refresh cp rnd c :: (_, 'e) outcome) = Ok (c1, fresh)" "crypto_inv cp c1"
    using assms by (rule tick_refresh_inv)
  have "\<exists>c' out. (crypto_on_ack cp rnd c now srtt :: (_, 'e) outcome) = Ok (c', out) \<and> crypto_inv cp c'"
    using assms(2) c1 by (auto simp: crypto_on_ack_def Let_def split: option.splits)
  with that show thesis by blast
qed

section \<open>Key exchange\<close>

lemma handle_kmreq_inv:
  assumes "prims_ok cp" "crypto_inv cp c"
  shows "\<exists>c' out. (handle_kmreq cp c p :: (_, 'e) outcome) = Ok (c', out) \<and> crypto_inv cp c'"
proof (cases "parse_kmreq p")
  case (Ok msg)
  note spec = install_rx_spec [OF assms parse_kmreq_wf [OF Ok] refl]
  let ?u = "unwrap_key cp (derive_kek cp (cc_passphrase (cr_cfg c)) (km_salt msg) (km_key_len msg))
    (km_wrapped msg)"
  consider sek where "?u = Ok sek" | e where "?u = Err e"
    using spec(2) by (cases ?u) auto
  then show ?thesis
  proof cases
    case 1
    then obtain c1 where "install_rx cp c msg = Ok c1" "crypto_inv cp c1" using spec(3) by blast
    then show ?thesis by (simp add: handle_kmreq_def Ok)
  next
    case 2
    then have "install_rx cp c msg = Err e" by (rule spec(1))
    then show ?thesis using assms(2) by (cases e) (simp_all add: handle_kmreq_def Ok)
  qed
next
  case (Err st)
  then show ?thesis using assms(2) by (simp add: handle_kmreq_def Let_def)
next
  case Panic
  then show ?thesis by (simp add: no_panic)
qed

lemma handle_kmrsp_inv: "crypto_inv cp c \<Longrightarrow> crypto_inv cp (fst (handle_kmrsp c p))"
  by (auto simp: handle_kmrsp_def peer_km_failure_def Let_def
      split: outcome.splits km_response.splits option.splits km_state.splits)

lemma engine_call_inv:
  assumes "prims_ok cp" "crypto_inv cp c" "call_ok e"
  shows "\<exists>c'. engine_call cp c e = Ok c' \<and> crypto_inv cp c'"
proof (cases e)
  case (CallEncrypt sq p)
  obtain c' kk ct where "(encrypt cp c sq p :: (_, unit) outcome) = Ok (c', kk, ct)" "crypto_inv cp c'"
    using assms(2,3) by (auto simp: CallEncrypt intro: encrypt_total)
  then show ?thesis by (simp add: CallEncrypt)
next
  case (CallAck rnd now srtt)
  obtain c' out where "(crypto_on_ack cp rnd c now srtt :: (_, unit) outcome) = Ok (c', out)" "crypto_inv cp c'"
    using assms(1,2) by (rule on_ack_inv)
  then show ?thesis by (simp add: CallAck)
next
  case (CallKmReq p)
  obtain c' out where "(handle_kmreq cp c p :: (_, unit) outcome) = Ok (c', out)" "crypto_inv cp c'"
    using handle_kmreq_inv [OF assms(1,2)] by blast
  then show ?thesis by (simp add: CallKmReq)
qed (use assms in \<open>simp_all add: decrypt_inv handle_kmrsp_inv\<close>)

interpretation engine: inv_machine "engine_step cp" "\<lambda>_. call_ok" "engine_ok cp" for cp
  using engine_call_inv by unfold_locales (fastforce simp: engine_step_def engine_ok_def)

lemma engine_run_ok: "engine.run_ok cp s es \<longleftrightarrow> (\<forall>e \<in> set es. call_ok e)"
  by (induction es arbitrary: s) auto

lemma engine_run_panic: "foldl (engine_step cp) Panic es = Panic"
  by (induction es) (simp_all add: engine_step_def)

section \<open>Constructors\<close>

lemma new_initiator_Ok:
  assumes "prims_ok cp"
  obtains c m where "(new_initiator cp rs rk cfg :: (_, 'e) outcome) = Ok c" "crypto_inv cp c"
    "kmreq c = Some (km_encode m)" "km_wf m" "cr_cfg c = cfg" "km_salt m = cr_salt c"
    "km_key_len m = cc_key_len cfg" "km_keys m = KeysEven"
    "unwrap_key cp (cr_kek c) (km_wrapped m) = Ok (secret_generate (cc_key_len cfg) rk)"
    "cr_tx c = [EVEN \<mapsto> \<lparr> tk_key = secret_generate (cc_key_len cfg) rk,
       tk_cipher = secret_generate (cc_key_len cfg) rk, tk_pkt_cnt = 1, tk_state = TxActive \<rparr>]"
    "cr_rx c = [EVEN \<mapsto> secret_generate (cc_key_len cfg) rk]" "cr_active c = EVEN"
    "cr_rx_salt c = cr_salt c"
proof -
  define sek where "sek = secret_generate (cc_key_len cfg) rk"
  define salt where "salt = random_salt rs"
  define kek where "kek = derive_kek cp (cc_passphrase cfg) salt (cc_key_len cfg)"
  define w where "w = pr_wrap cp kek sek"
  define m where "m = \<lparr> km_keys = KeysEven, km_key_len = cc_key_len cfg, km_salt = salt, km_wrapped = w \<rparr>"
  have len: "length sek = key_bytes (cc_key_len cfg)" "length kek = key_bytes (cc_key_len cfg)"
    "length salt = 16"
    using length_derive_kek [OF assms] by (simp_all add: sek_def kek_def salt_def)
  have "wrappable kek sek"
    using len by (intro wrappable_keys [where m = 1 and l' = "cc_key_len cfg"]) simp_all
  then have wrap: "(wrap_key cp kek sek :: (_, 'e) outcome) = Ok w"
    "wrap_key cp kek sek = (Ok w :: (_, unit) outcome)"
    by (simp_all add: wrap_key_def w_def)
  have long: "16 \<le> length sek" using key_bytes_facts(1) len by simp
  note uw = unwrap_wrap_key [OF assms wrap(2) long]
  have m: "km_wf m" using uw(2) len by (simp add: km_wf_def km_consts m_def)
  have mf: "km_salt m = salt" "km_key_len m = cc_key_len cfg" "km_keys m = KeysEven" "km_wrapped m = w"
    by (simp_all add: m_def)
  have cn: "(cipher_new sek :: (_, 'e) outcome) = Ok sek" using len by (simp add: cipher_new_def is_key_bytes)
  define c where "c = \<lparr> cr_cfg = cfg, cr_salt = salt, cr_kek = kek,
     cr_tx = (\<lambda>_. None)(EVEN := Some \<lparr> tk_key = sek, tk_cipher = sek, tk_pkt_cnt = 1, tk_state = TxActive \<rparr>),
     cr_active = EVEN, cr_rx = (\<lambda>_. None)(EVEN := Some sek), cr_rx_salt = salt, cr_rx_kek = None,
     cr_snd_state = KmSecuring, cr_rcv_state = KmUnsecured,
     cr_outstanding = Some \<lparr> ok_blob = km_encode m, ok_retries = KM_MAX_RETRY, ok_last_send = None \<rparr>,
     cr_key_switches = 0 \<rparr>"
  have "(new_initiator cp rs rk cfg :: (_, 'e) outcome) = Ok c"
    unfolding new_initiator_def Let_def sek_def [symmetric] salt_def [symmetric] kek_def [symmetric]
      cn wrap bind_outcome_simps m_def [symmetric] c_def ..
  moreover have "crypto_inv cp c"
    using len by (auto simp: crypto_inv_def tx_inv_def rx_kek_of_def c_def kek_def intro: is_key_bytes)
  ultimately show thesis
    by (rule that [where m = m]) (simp_all add: c_def m mf uw kmreq_def sek_def [symmetric])
qed

lemma new_responder_cases:
  assumes "prims_ok cp"
  obtains (rejected) st where "new_responder cp cfg0 req = Err st"
  | (accepted) m sek seks c where "parse_kmreq req = Ok m"
      "unwrap_key cp (derive_kek cp (cc_passphrase cfg0) (km_salt m) (km_key_len m)) (km_wrapped m) = Ok sek"
      "(split_seks m sek :: (_, km_state) outcome) = Ok seks"
      "new_responder cp cfg0 req = Ok c" "crypto_inv cp c" "cr_salt c = km_salt m" "cr_rx_salt c = km_salt m"
      "cc_passphrase (cr_cfg c) = cc_passphrase cfg0" "cr_rx c = seks" "cr_rcv_state c = KmSecured"
      "\<And>s k. cr_tx c s = Some k \<Longrightarrow> seks s = Some (tk_key k) \<and> tk_cipher k = tk_key k"
proof (cases "parse_kmreq req")
  case (Ok m)
  define kek where "kek = derive_kek cp (cc_passphrase cfg0) (km_salt m) (km_key_len m)"
  have wf: "km_wf m" using Ok by (rule parse_kmreq_wf)
  have is_kek: "is_key kek" using length_derive_kek [OF assms] unfolding kek_def by (rule is_key_bytes)
  show thesis
  proof (cases "unwrap_key cp kek (km_wrapped m)")
    case u: (Ok sek)
    then have "length sek = km_keys_count (km_keys m) * key_bytes (km_key_len m)"
      using unwrap_key_length [OF assms u] wf by (simp add: km_wf_def km_consts)
    then obtain seks where seks: "(split_seks m sek :: (_, km_state) outcome) = Ok seks"
      "(expand_seks seks :: (_, km_state) outcome) = Ok seks"
      "\<And>s k. seks s = Some k \<Longrightarrow> length k = key_bytes (km_key_len m)"
      "seks EVEN \<noteq> None \<or> seks ODD \<noteq> None"
      by (rule split_seks_Ok) blast
    define act where "act = (if seks EVEN \<noteq> None then EVEN else ODD)"
    have act: "seks act \<noteq> None" using seks(4) by (auto simp: act_def)
    define c where "c = \<lparr> cr_cfg = cfg0\<lparr> cc_key_len := km_key_len m \<rparr>,
       cr_salt = km_salt m, cr_kek = kek,
       cr_tx = (\<lambda>s. case (seks s, seks s) of
                  (Some key, Some cipher) \<Rightarrow>
                    Some \<lparr> tk_key = key, tk_cipher = cipher, tk_pkt_cnt = (if s = act then 1 else 0),
                           tk_state = (if s = act then TxActive else TxAnnounced) \<rparr>
                | _ \<Rightarrow> None),
       cr_active = act, cr_rx = seks, cr_rx_salt = km_salt m, cr_rx_kek = None,
       cr_snd_state = KmSecured, cr_rcv_state = KmSecured,
       cr_outstanding = Some \<lparr> ok_blob = req, ok_retries = 0, ok_last_send = None \<rparr>, cr_key_switches = 0 \<rparr>"
    have pass: "cc_passphrase (cfg0\<lparr> cc_key_len := l \<rparr>) = cc_passphrase cfg0" for l by simp
    have c: "new_responder cp cfg0 req = Ok c"
      by (simp only: new_responder_def Let_def Ok bind_outcome_simps pass kek_def [symmetric] u
          outcome.case seks(1,2) act_def [symmetric] c_def)
    have "crypto_inv cp c"
      using act seks(3) wf
      by (auto simp: crypto_inv_def tx_inv_def rx_kek_of_def c_def kek_def km_wf_def
          intro: is_key_bytes split: option.splits if_splits)
    then show thesis
      using u seks(1) c unfolding kek_def
      by (intro accepted [OF Ok]) (auto simp: c_def split: option.splits)
  next
    case (Err e)
    then show thesis
      by (cases e; intro rejected) (simp_all add: new_responder_def Ok Let_def kek_def)
  next
    case Panic
    then show thesis using is_kek by (auto simp: unwrap_key_def split: if_splits option.splits)
  qed
next
  case (Err st)
  then show thesis by (intro rejected) (simp add: new_responder_def)
next
  case Panic
  then show thesis by (simp add: no_panic)
qed

section \<open>What the peer can read\<close>

text \<open>
  \<open>reads_back\<close>: the peer recovers exactly the payload that was encrypted, and encryption panics on the
  empty payload only.  \<open>keyed_for\<close>: the peer
  is secured and holds every key the sender uses or has announced.
\<close>

definition reads_back :: "crypto_prims \<Rightarrow> crypto \<Rightarrow> crypto \<Rightarrow> seq_number \<Rightarrow> bytes \<Rightarrow> bool" where
  "reads_back cp a b sq p =
     (case (encrypt cp a sq p :: (_, unit) outcome) of
        Ok (_, kk, ct) \<Rightarrow> snd (decrypt cp b sq kk ct) = Ok p \<and> kk \<noteq> EncNone
      | Panic \<Rightarrow> p = []
      | Err _ \<Rightarrow> False)"

definition keyed_for :: "crypto \<Rightarrow> crypto \<Rightarrow> bool" where
  "keyed_for a b \<longleftrightarrow>
     cr_rcv_state b = KmSecured \<and> cr_rx_salt b = cr_salt a
   \<and> cc_passphrase (cr_cfg b) = cc_passphrase (cr_cfg a)
   \<and> (\<forall>s k. cr_tx a s = Some k \<and> tk_state k \<noteq> TxDeprecated \<longrightarrow> cr_rx b s = Some (tk_cipher k))"

lemma active_keyed_reads_back:
  assumes "prims_ok cp" "cr_tx a (cr_active a) = Some k" "cr_rx b (cr_active a) = Some (tk_cipher k)"
    "cr_rcv_state b = KmSecured" "cr_rx_salt b = cr_salt a"
  shows "reads_back cp a b sq p"
  using assms by (cases "cr_active a")
    (simp_all add: reads_back_def encrypt_def decrypt_def apply_keystream_involution)

lemma keyed_for_reads_back:
  assumes "prims_ok cp" "crypto_inv cp a" "keyed_for a b"
  shows "reads_back cp a b sq p"
proof -
  obtain k where k: "cr_tx a (cr_active a) = Some k" "tk_state k = TxActive"
    using assms(2) by (rule crypto_inv_tx)
  then show ?thesis
    using assms(3) by (intro active_keyed_reads_back [OF assms(1) k(1)]) (simp_all add: keyed_for_def)
qed

lemma keyed_for_encrypt:
  assumes "keyed_for a b" "(encrypt cp a sq p :: (_, 'e) outcome) = Ok (a', kk, ct)"
  shows "keyed_for a' b"
  using assms by (auto simp: keyed_for_def encrypt_def split: option.splits if_splits)

lemma install_announced:
  assumes prims: "prims_ok cp" and inv: "crypto_inv cp b" and wf: "km_wf m"
    and "unwrap_key cp (derive_kek cp (cc_passphrase (cr_cfg b)) (km_salt m) (km_key_len m)) (km_wrapped m) = Ok sek"
  obtains seks b' where "(handle_kmreq cp b (km_encode m) :: (_, 'e) outcome) = Ok (b', Installed)"
    "crypto_inv cp b'" "(split_seks m sek :: (_, crypto_error) outcome) = Ok seks"
    "cr_rcv_state b' = KmSecured" "cr_rx_salt b' = km_salt m" "cr_cfg b' = cr_cfg b"
    "\<And>s. cr_rx b' s = (case seks s of Some k \<Rightarrow> Some k | None \<Rightarrow> cr_rx b s)"
proof -
  obtain seks c' where c': "(split_seks m sek :: (_, crypto_error) outcome) = Ok seks"
    "install_rx cp b m = Ok c'" "crypto_inv cp c'"
    and eq: "c' = b\<lparr> cr_rx := (\<lambda>s. case seks s of Some k \<Rightarrow> Some k | None \<Rightarrow> cr_rx b s),
                 cr_rx_kek := cr_rx_kek c', cr_rx_salt := km_salt m \<rparr>"
    using install_rx_spec(3) [OF prims inv wf refl assms(4)] by blast
  have "(handle_kmreq cp b (km_encode m) :: (_, 'e) outcome) = Ok (c'\<lparr> cr_rcv_state := KmSecured \<rparr>, Installed)"
    by (simp add: handle_kmreq_def parse_kmreq_encode [OF wf] c'(2))
  moreover have "cr_cfg c' = cr_cfg b" "cr_rx_salt c' = km_salt m"
    "cr_rx c' = (\<lambda>s. case seks s of Some k \<Rightarrow> Some k | None \<Rightarrow> cr_rx b s)"
    using arg_cong [OF eq, of cr_cfg] arg_cong [OF eq, of cr_rx_salt] arg_cong [OF eq, of cr_rx]
    by simp_all
  ultimately show thesis
    using c' by (intro that [where b' = "c'\<lparr> cr_rcv_state := KmSecured \<rparr>" and seks = seks]) simp_all
qed

lemma key_exchange_keyed:
  assumes "prims_ok cp" "cc_passphrase cfg' = cc_passphrase cfg"
  obtains a blob b a' where "new_initiator cp rs rk cfg = (Ok a :: (_, unit) outcome)" "kmreq a = Some blob"
    "new_responder cp cfg' blob = Ok b" "handle_kmrsp a blob = (a', Confirmed)"
    "crypto_inv cp a" "crypto_inv cp b" "keyed_for a b" "keyed_for b a'"
proof -
  let ?sek = "secret_generate (cc_key_len cfg) rk"
  obtain a m where a: "new_initiator cp rs rk cfg = (Ok a :: (_, unit) outcome)" "crypto_inv cp a"
    "kmreq a = Some (km_encode m)" "km_wf m" "cr_cfg a = cfg" "km_salt m = cr_salt a"
    "km_key_len m = cc_key_len cfg" "km_keys m = KeysEven"
    "unwrap_key cp (cr_kek a) (km_wrapped m) = Ok ?sek"
    "cr_tx a = [EVEN \<mapsto> \<lparr> tk_key = ?sek, tk_cipher = ?sek, tk_pkt_cnt = 1, tk_state = TxActive \<rparr>]"
    "cr_rx a = [EVEN \<mapsto> ?sek]" "cr_active a = EVEN" "cr_rx_salt a = cr_salt a"
    using assms(1) by (rule new_initiator_Ok)
  have kek: "cr_kek a = derive_kek cp (cc_passphrase cfg') (km_salt m) (km_key_len m)"
    using a(2,5,6,7) assms(2) by (simp add: crypto_inv_def)
  from assms(1) obtain b where b: "new_responder cp cfg' (km_encode m) = Ok b" "crypto_inv cp b"
    "cr_salt b = cr_salt a" "cr_rx_salt b = cr_salt a" "cc_passphrase (cr_cfg b) = cc_passphrase cfg"
    "cr_rx b = [EVEN \<mapsto> ?sek]" "cr_rcv_state b = KmSecured"
    "\<And>s k. cr_tx b s = Some k \<Longrightarrow> [EVEN \<mapsto> ?sek] s = Some (tk_key k) \<and> tk_cipher k = tk_key k"
  proof (cases rule: new_responder_cases [where req = "km_encode m" and ?cfg0.0 = cfg'])
    case (rejected st)
    then show ?thesis
      using a(8,9) kek by (simp add: new_responder_def parse_kmreq_encode [OF a(4)] Let_def split_seks_def
          expand_seks_def cipher_opt_def cipher_new_def is_key_bytes)
  next
    case (accepted m' sek seks c)
    then have "m' = m" by (simp add: parse_kmreq_encode [OF a(4)])
    with accepted a kek assms(2) have "sek = ?sek" "seks = [EVEN \<mapsto> ?sek]"
      by (simp_all add: split_seks_def)
    with accepted \<open>m' = m\<close> a(6) assms(2) that show ?thesis by auto
  qed
  define a' where "a' = a\<lparr> cr_outstanding := None, cr_snd_state := KmSecured, cr_rcv_state := KmSecured \<rparr>"
  obtain q where q: "cr_outstanding a = Some q" "ok_blob q = km_encode m"
    using a(3) by (auto simp: kmreq_def)
  have long: "4 < length (km_encode m)" using length_km_encode [OF a(4)] by simp
  have conf: "handle_kmrsp a (km_encode m) = (a', Confirmed)"
    using long by (simp add: handle_kmrsp_def km_response_parse_def q a'_def)
  have "keyed_for a b" using a b by (simp add: keyed_for_def)
  moreover have "keyed_for b a'"
    using a b by (auto simp: keyed_for_def a'_def split: if_splits)
  ultimately show thesis
    by (rule that [OF a(1,3) b(1) conf a(2) b(2)])
qed

section \<open>A concrete instance of the primitives\<close>

text \<open>Functions with the documented behaviour, used to exhibit runs of the engine.\<close>

definition demo_prims :: crypto_prims where
  "demo_prims =
     \<lparr> pr_pbkdf2 = (\<lambda>pw salt iters n. replicate n 7),
       pr_wrap = (\<lambda>kek p. replicate 8 0xA6 @ p),
       pr_unwrap = (\<lambda>kek w. if 8 \<le> length w \<and> take 8 w = replicate 8 0xA6 then Some (drop 8 w) else None),
       pr_stream = (\<lambda>key iv n. replicate n (foldr (XOR) (key @ iv) 0x55)) \<rparr>"

definition demo_config :: crypto_config where
  "demo_config = \<lparr> cc_passphrase = replicate 12 65, cc_key_len = Aes128, cc_km_refresh_rate = 3,
                   cc_km_preannounce = 1 \<rparr>"

lemma demo_prims_ok: "prims_ok demo_prims"
  by (auto simp: prims_ok_def demo_prims_def split: if_splits)

section \<open>Guarantees\<close>

lemma engine_built_inv:
  assumes "prims_ok cp"
    and "new_initiator cp rs rk cfg = (Ok c :: (_, unit) outcome) \<or> new_responder cp cfg req = Ok c"
  shows "crypto_inv cp c"
  using assms(2)
proof
  assume i: "new_initiator cp rs rk cfg = (Ok c :: (_, unit) outcome)"
  from assms(1) show ?thesis
    by (rule new_initiator_Ok [where rs = rs and rk = rk and cfg = cfg and 'e = unit]) (use i in simp)
next
  assume r: "new_responder cp cfg req = Ok c"
  from assms(1) show ?thesis
    by (cases rule: new_responder_cases [where req = req and ?cfg0.0 = cfg]) (use r in simp_all)
qed

text \<open>
  C33.  The engine panics on nothing but the call it asserts against.  Built by either constructor, it
  survives every sequence of calls (encryption, decryption, ACK ticks with any random bytes, key
  material requests and responses with any contents) with its invariant intact -- the active slot is
  always keyed -- as long as no call encrypts an empty payload; a sequence with such a call panics.
\<close>

theorem engine_never_panics:
  assumes "prims_ok cp"
    and "new_initiator cp rs rk cfg = (Ok c :: (_, unit) outcome) \<or> new_responder cp cfg req = Ok c"
  shows "if \<exists>sq. CallEncrypt sq [] \<in> set es then foldl (engine_step cp) (Ok c) es = Panic
    else \<exists>c'. foldl (engine_step cp) (Ok c) es = Ok c' \<and> crypto_inv cp c'"
proof -
  have start: "engine_ok cp (Ok c)"
    using assms(1) engine_built_inv [OF assms] by (simp add: engine_ok_def)
  show ?thesis
  proof (cases "\<forall>e \<in> set es. call_ok e")
    case True
    then have "engine_ok cp (foldl (engine_step cp) (Ok c) es)"
      using start by (intro engine.run_inv) (simp_all add: engine_run_ok)
    then show ?thesis using True by (auto simp: engine_ok_def)
  next
    case False
    then obtain es1 e es2 where es: "es = es1 @ e # es2" "\<not> call_ok e" "\<forall>e \<in> set es1. call_ok e"
      using split_list_first_prop [of es "\<lambda>e. \<not> call_ok e"] by blast
    then obtain sq where e: "e = CallEncrypt sq []" by (cases e) auto
    have "engine_ok cp (foldl (engine_step cp) (Ok c) es1)"
      using start es(3) by (intro engine.run_inv) (simp_all add: engine_run_ok)
    then have "foldl (engine_step cp) (Ok c) es = Panic"
      by (auto simp: es(1) e engine_ok_def engine_step_def encrypt_def engine_run_panic)
    then show ?thesis using es(1) e by auto
  qed
qed

theorem engine_never_panics_witness:
  "\<exists>c c'. new_initiator demo_prims [1, 2, 3] [9] demo_config = (Ok c :: (_, unit) outcome)
    \<and> foldl (engine_step demo_prims) (Ok c)
        [CallEncrypt (SeqNumber 5) [1, 2], CallAck [4] 1000 100, CallKmRsp [4, 0, 0, 0], CallKmReq [1]] = Ok c'
    \<and> crypto_inv demo_prims c' \<and> foldl (engine_step demo_prims) (Ok c) [CallKmReq [1], CallEncrypt (SeqNumber 5) []] = Panic"
proof -
  obtain c where c: "new_initiator demo_prims [1, 2, 3] [9] demo_config = (Ok c :: (_, unit) outcome)"
    using demo_prims_ok by (rule new_initiator_Ok)
  note runs = engine_never_panics [OF demo_prims_ok disjI1 [OF c]]
  show ?thesis
    using runs [of "[CallEncrypt (SeqNumber 5) [1, 2], CallAck [4] 1000 100, CallKmRsp [4, 0, 0, 0], CallKmReq [1]]"]
      runs [of "[CallKmReq [1], CallEncrypt (SeqNumber 5) []]"] c
    by (simp del: foldl_Cons)
qed

text \<open>
  C13.  The key exchange works: a responder with the same passphrase accepts the initiator's KMREQ
  whatever its own key length, its echo confirms the initiator, and from then on either side
  recovers exactly the payload the other encrypts (any but the empty one, which encryption asserts
  against), at every sequence number.
\<close>

theorem key_exchange_secures:
  assumes "prims_ok cp" "cc_passphrase cfg' = cc_passphrase cfg"
  shows "\<exists>a blob b a'. new_initiator cp rs rk cfg = (Ok a :: (_, unit) outcome) \<and> kmreq a = Some blob
    \<and> new_responder cp cfg' blob = Ok b \<and> handle_kmrsp a blob = (a', Confirmed)
    \<and> (\<forall>sq p. reads_back cp a b sq p) \<and> (\<forall>sq p. reads_back cp b a' sq p)"
  using assms
  by (rule key_exchange_keyed [where rs = rs and rk = rk]) (use assms(1) keyed_for_reads_back in blast)

theorem key_exchange_secures_witness:
  "\<exists>a blob b a'. new_initiator demo_prims [1, 2, 3] [9] demo_config = (Ok a :: (_, unit) outcome)
    \<and> kmreq a = Some blob \<and> new_responder demo_prims (demo_config\<lparr> cc_key_len := Aes256 \<rparr>) blob = Ok b
    \<and> handle_kmrsp a blob = (a', Confirmed)
    \<and> (\<forall>sq p. reads_back demo_prims a b sq p) \<and> (\<forall>sq p. reads_back demo_prims b a' sq p)"
  by (rule key_exchange_secures [OF demo_prims_ok]) simp

end
