(* ===== verification/Crypto_Refresh.thy ===== *)
theory Crypto_Refresh
  imports Crypto_Engine
begin

text \<open>
  Key refresh between two engines over a link that may lose the messages of the refresh.  The sender
  ticks on every acknowledgement (\<open>Crypto::on_ack\<close>), announces the next key in a KMREQ, repeats it
  and switches at its own threshold; each KMREQ arrives or is lost, and so does the echo that
  confirms it.  The ghost field \<open>rl_told\<close> records for each slot whether a message with the key now in
  that slot has arrived at the peer.
\<close>

section \<open>The link\<close>

record refresh_link =
  rl_sender :: crypto
  rl_peer :: crypto
  rl_told :: "slot \<Rightarrow> bool"

text \<open>
  \<open>LinkSend\<close> encrypts a payload.  \<open>LinkAck rnd now srtt arrives echoed\<close> is one acknowledgement at the
  sender: the KMREQ it makes due, if any, reaches the peer iff \<open>arrives\<close>, and the peer's echo of a
  message it installed gets back iff \<open>echoed\<close>.
\<close>

datatype link_event =
    LinkSend seq_number bytes
  | LinkAck bytes instant nat bool bool

definition announced :: "crypto \<Rightarrow> slot \<Rightarrow> bool" where
  "announced c s \<longleftrightarrow> map_option tk_state (cr_tx c s) = Some TxAnnounced"

definition link_deliver :: "crypto_prims \<Rightarrow> refresh_link \<Rightarrow> bytes \<Rightarrow> bool \<Rightarrow> (refresh_link, unit) outcome" where
  "link_deliver cp l blob echoed =
     bind_outcome (handle_kmreq cp (rl_peer l) blob) (\<lambda>(b', res).
     Ok (l\<lparr> rl_sender := (if res = Installed \<and> echoed then fst (handle_kmrsp (rl_sender l) blob) else rl_sender l),
            rl_peer := b', rl_told := (\<lambda>_. True) \<rparr>))"

fun link_call :: "crypto_prims \<Rightarrow> refresh_link \<Rightarrow> link_event \<Rightarrow> (refresh_link, unit) outcome" where
  "link_call cp l (LinkSend sq p) =
     bind_outcome (encrypt cp (rl_sender l) sq p) (\<lambda>(a', _, _). Ok (l\<lparr> rl_sender := a' \<rparr>))"
| "link_call cp l (LinkAck rnd now srtt arrives echoed) =
     bind_outcome (crypto_on_ack cp rnd (rl_sender l) now srtt) (\<lambda>(a', req).
     let l' = l\<lparr> rl_sender := a',
                 rl_told := (\<lambda>s. rl_told l s \<and> (announced a' s \<longrightarrow> announced (rl_sender l) s)) \<rparr> in
     case req of
       Some blob \<Rightarrow> if arrives then link_deliver cp l' blob echoed else Ok l'
     | None \<Rightarrow> Ok l')"

definition link_step :: "crypto_prims \<Rightarrow> (refresh_link, unit) outcome \<Rightarrow> link_event \<Rightarrow> (refresh_link, unit) outcome" where
  "link_step cp s e = bind_outcome s (\<lambda>l. link_call cp l e)"

fun link_event_ok :: "link_event \<Rightarrow> bool" where
  "link_event_ok (LinkSend _ p) \<longleftrightarrow> p \<noteq> []"
| "link_event_ok (LinkAck _ _ _ _ _) \<longleftrightarrow> True"

text \<open>The two engines a handshake leaves behind, the caller's confirmed by the echo of its request.\<close>

definition key_exchange ::
  "crypto_prims \<Rightarrow> bytes \<Rightarrow> bytes \<Rightarrow> crypto_config \<Rightarrow> crypto_config \<Rightarrow> (crypto \<times> crypto) option" where
  "key_exchange cp rs rk cfg cfg' =
     (case (new_initiator cp rs rk cfg :: (_, unit) outcome) of
        Ok a \<Rightarrow>
          Option.bind (kmreq a) (\<lambda>blob.
          case new_responder cp cfg' blob of
            Ok b \<Rightarrow> Some (fst (handle_kmrsp a blob), b)
          | _ \<Rightarrow> None)
      | _ \<Rightarrow> None)"

definition link_new :: "crypto \<Rightarrow> crypto \<Rightarrow> refresh_link" where
  "link_new a b = \<lparr> rl_sender = a, rl_peer = b, rl_told = (\<lambda>_. True) \<rparr>"

text \<open>The threshold at which the sender switches, and the packet a peer without the key refuses.\<close>

definition switch_due :: "crypto \<Rightarrow> bool" where
  "switch_due c \<longleftrightarrow>
     (case cr_tx c (cr_active c) of
        Some k \<Rightarrow> cc_km_refresh_rate (cr_cfg c) < unat (tk_pkt_cnt k) \<and> announced c (other_slot (cr_active c))
      | None \<Rightarrow> False)"

definition refused :: "crypto_prims \<Rightarrow> crypto \<Rightarrow> crypto \<Rightarrow> seq_number \<Rightarrow> bytes \<Rightarrow> bool" where
  "refused cp a b sq p \<longleftrightarrow>
     (case (encrypt cp a sq p :: (_, unit) outcome) of
        Ok (_, kk, ct) \<Rightarrow> snd (decrypt cp b sq kk ct) = Err NoKey
      | Panic \<Rightarrow> p = []
      | Err _ \<Rightarrow> False)"

section \<open>Invariant\<close>

text \<open>\<open>keyed_as told\<close> is \<open>keyed_for\<close> for the slots \<open>told\<close>.\<close>

definition keyed_as :: "(slot \<Rightarrow> bool) \<Rightarrow> crypto \<Rightarrow> crypto \<Rightarrow> bool" where
  "keyed_as told a b \<longleftrightarrow>
     cr_rcv_state b = KmSecured \<and> cr_rx_salt b = cr_salt a
   \<and> cc_passphrase (cr_cfg b) = cc_passphrase (cr_cfg a)
   \<and> (\<forall>s k. told s \<and> cr_tx a s = Some k \<and> tk_state k \<noteq> TxDeprecated \<longrightarrow> cr_rx b s = Some (tk_cipher k))"

text \<open>\<open>carries\<close>: a KM message with every key in use or announced that the peer may not have yet.\<close>

definition carries :: "crypto_prims \<Rightarrow> crypto \<Rightarrow> (slot \<Rightarrow> bool) \<Rightarrow> bytes \<Rightarrow> bool" where
  "carries cp a told blob \<longleftrightarrow>
     (\<exists>m sek seks. blob = km_encode m \<and> km_wf m \<and> km_salt m = cr_salt a \<and> km_key_len m = cc_key_len (cr_cfg a)
      \<and> unwrap_key cp (cr_kek a) (km_wrapped m) = Ok sek \<and> (split_seks m sek :: (_, crypto_error) outcome) = Ok seks
      \<and> (\<forall>s k. cr_tx a s = Some k \<and> tk_state k \<noteq> TxDeprecated \<longrightarrow>
           seks s = Some (tk_cipher k) \<or> seks s = None \<and> told s))"

definition link_inv :: "crypto_prims \<Rightarrow> refresh_link \<Rightarrow> bool" where
  "link_inv cp l \<longleftrightarrow>
     crypto_inv cp (rl_sender l) \<and> crypto_inv cp (rl_peer l) \<and> keyed_as (rl_told l) (rl_sender l) (rl_peer l)
   \<and> cr_snd_state (rl_sender l) = KmSecured
   \<and> (\<forall>out. cr_outstanding (rl_sender l) = Some out \<and> ok_retries out \<noteq> 0 \<longrightarrow>
        carries cp (rl_sender l) (rl_told l) (ok_blob out))
   \<and> (cr_key_switches (rl_sender l) = 0 \<longrightarrow> rl_told l (cr_active (rl_sender l)))"

definition link_ok :: "crypto_prims \<Rightarrow> (refresh_link, unit) outcome \<Rightarrow> bool" where
  "link_ok cp s \<longleftrightarrow> prims_ok cp \<and> (\<exists>l. s = Ok l \<and> link_inv cp l)"

lemma keyed_as_all: "keyed_as (\<lambda>_. True) a b = keyed_for a b"
  by (simp add: keyed_as_def keyed_for_def)

text \<open>A step of the sender that brings no new key keeps what the peer has and what a message carries.\<close>

definition no_new_key :: "crypto \<Rightarrow> crypto \<Rightarrow> bool" where
  "no_new_key a a' \<longleftrightarrow>
     cr_cfg a' = cr_cfg a \<and> cr_salt a' = cr_salt a \<and> cr_kek a' = cr_kek a
   \<and> (\<forall>s k'. cr_tx a' s = Some k' \<and> tk_state k' \<noteq> TxDeprecated \<longrightarrow>
        (\<exists>k. cr_tx a s = Some k \<and> tk_state k \<noteq> TxDeprecated \<and> tk_cipher k = tk_cipher k'))"

lemma no_new_key_keyed: "no_new_key a a' \<Longrightarrow> keyed_as told a b \<Longrightarrow> keyed_as told a' b"
  unfolding no_new_key_def keyed_as_def by metis

lemma no_new_key_carries:
  assumes nk: "no_new_key a a'" and "carries cp a told blob"
  shows "carries cp a' told blob"
proof -
  obtain m sek seks where m: "blob = km_encode m" "km_wf m" "km_salt m = cr_salt a" "km_key_len m = cc_key_len (cr_cfg a)"
    "unwrap_key cp (cr_kek a) (km_wrapped m) = Ok sek" "(split_seks m sek :: (_, crypto_error) outcome) = Ok seks"
    and keys: "\<And>s k. cr_tx a s = Some k \<Longrightarrow> tk_state k \<noteq> TxDeprecated \<Longrightarrow>
      seks s = Some (tk_cipher k) \<or> seks s = None \<and> told s"
    using assms(2) unfolding carries_def by blast
  have "seks s = Some (tk_cipher k') \<or> seks s = None \<and> told s"
    if "cr_tx a' s = Some k'" "tk_state k' \<noteq> TxDeprecated" for s k'
    using nk that keys unfolding no_new_key_def by metis
  then show ?thesis
    using m nk unfolding carries_def no_new_key_def by (intro exI [of _ m] exI [of _ sek] exI [of _ seks]) simp
qed

lemma carries_told: "carries cp a told blob \<Longrightarrow> carries cp a (\<lambda>_. True) blob"
  unfolding carries_def by (elim exE conjE, intro exI conjI) (auto, fastforce)

lemma encrypt_no_new_key:
  "(encrypt cp a sq p :: (_, 'e) outcome) = Ok (a', kk, ct) \<Longrightarrow> no_new_key a a' \<and> cr_outstanding a' = cr_outstanding a
    \<and> cr_snd_state a' = cr_snd_state a \<and> cr_active a' = cr_active a \<and> cr_key_switches a' = cr_key_switches a"
  by (auto simp: encrypt_def no_new_key_def split: option.splits if_splits)

section \<open>The messages of a refresh\<close>

lemma carries_installs:
  assumes "prims_ok cp" "crypto_inv cp a" "crypto_inv cp b" "keyed_as told a b" "carries cp a told blob"
  obtains b' where "(handle_kmreq cp b blob :: (_, 'e) outcome) = Ok (b', Installed)" "crypto_inv cp b'"
    "keyed_as (\<lambda>_. True) a b'"
proof -
  obtain m sek seks where m: "blob = km_encode m" "km_wf m" "km_salt m = cr_salt a" "km_key_len m = cc_key_len (cr_cfg a)"
    "unwrap_key cp (cr_kek a) (km_wrapped m) = Ok sek" "(split_seks m sek :: (_, crypto_error) outcome) = Ok seks"
    and keys: "\<And>s k. cr_tx a s = Some k \<Longrightarrow> tk_state k \<noteq> TxDeprecated \<Longrightarrow>
      seks s = Some (tk_cipher k) \<or> seks s = None \<and> told s"
    using assms(5) unfolding carries_def by blast
  have "cr_kek a = derive_kek cp (cc_passphrase (cr_cfg b)) (km_salt m) (km_key_len m)"
    using assms(2,4) m(3,4) by (simp add: crypto_inv_def keyed_as_def)
  then have uw: "unwrap_key cp (derive_kek cp (cc_passphrase (cr_cfg b)) (km_salt m) (km_key_len m)) (km_wrapped m) = Ok sek"
    using m(5) by simp
  obtain seks' b' where b': "(handle_kmreq cp b blob :: (_, 'e) outcome) = Ok (b', Installed)" "crypto_inv cp b'"
    "(split_seks m sek :: (_, crypto_error) outcome) = Ok seks'" "cr_rcv_state b' = KmSecured"
    "cr_rx_salt b' = km_salt m" "cr_cfg b' = cr_cfg b"
    "\<And>s. cr_rx b' s = (case seks' s of Some k \<Rightarrow> Some k | None \<Rightarrow> cr_rx b s)"
    by (rule install_announced [OF assms(1,3) m(2) uw, where 'e = 'e]) (use m(1) that in blast)
  have "keyed_as (\<lambda>_. True) a b'"
    using assms(4) b'(3-7) m(3,6) keys by (fastforce simp: keyed_as_def)
  with b'(1,2) show thesis by (rule that)
qed

lemma pair_carried:
  assumes "prims_ok cp" "crypto_inv cp a" "cr_tx a EVEN = Some ek" "cr_tx a ODD = Some od"
    and wrap: "(wrap_key cp (cr_kek a) (tk_key ek @ tk_key od) :: (_, unit) outcome) = Ok wrapped"
    and m: "m = \<lparr> km_keys = KeysBoth, km_key_len = cc_key_len (cr_cfg a), km_salt = cr_salt a, km_wrapped = wrapped \<rparr>"
  shows "carries cp a told (km_encode m)"
proof -
  have len: "length (tk_key ek) = key_bytes (cc_key_len (cr_cfg a))" "length (tk_key od) = key_bytes (cc_key_len (cr_cfg a))"
      "tk_cipher ek = tk_key ek" "tk_cipher od = tk_key od"
    using assms(2-4) by (auto simp: crypto_inv_def tx_inv_def)
  then have "16 \<le> length (tk_key ek @ tk_key od)"
    using key_bytes_facts(1) [of "cc_key_len (cr_cfg a)"] by simp
  note uw = unwrap_wrap_key [OF assms(1) wrap this]
  have "km_wf m" using uw(2) len assms(2) by (simp add: m km_both_wf crypto_inv_def)
  moreover have "(split_seks m (tk_key ek @ tk_key od) :: (_, crypto_error) outcome)
      = Ok ((\<lambda>_. None)(EVEN := Some (tk_key ek), ODD := Some (tk_key od)))"
    using len by (simp add: split_seks_def m)
  moreover have "((\<lambda>_. None)(EVEN := Some (tk_key ek), ODD := Some (tk_key od))) s = Some (tk_cipher k)"
    if "cr_tx a s = Some k" for s k
    using that assms(3,4) len by (cases s) auto
  ultimately show ?thesis unfolding carries_def
    using uw(1) by (intro exI [of _ m] exI) (auto simp: m)
qed

text \<open>One evaluation of the thresholds: it brings no new key, or a message that carries the new one.\<close>

lemma tick_link:
  assumes "prims_ok cp" "crypto_inv cp a"
  obtains
    (kept) a' where "(tick_refresh cp rnd a :: (_, 'e) outcome) = Ok (a', None)" "no_new_key a a'"
      "\<And>s. announced a' s \<Longrightarrow> announced a s" "crypto_inv cp a'" "cr_outstanding a' = cr_outstanding a"
      "cr_snd_state a' = cr_snd_state a" "cr_key_switches a' = 0 \<Longrightarrow> cr_active a' = cr_active a \<and> cr_key_switches a = 0"
  | (fresh) a' blob new where "(tick_refresh cp rnd a :: (_, 'e) outcome) = Ok (a', Some blob)"
      "a' = a\<lparr> cr_tx := (cr_tx a)(other_slot (cr_active a) := Some new) \<rparr>" "tk_state new = TxAnnounced"
      "\<not> announced a (other_slot (cr_active a))" "crypto_inv cp a'" "\<And>told. carries cp a' told blob"
proof -
  obtain a' req where t: "(tick_refresh cp rnd a :: (_, 'e) outcome) = Ok (a', req)" "crypto_inv cp a'"
      "cr_outstanding a' = cr_outstanding a" "cr_snd_state a' = cr_snd_state a"
    using assms by (rule tick_refresh_inv)
  note kept = kept [where a' = a', OF _ _ _ t(2-4)]
  from assms show thesis
  proof (cases rule: tick_refresh_cases [where rnd = rnd and 'e = 'e])
    case idle
    then show thesis using t(1) by (intro kept) (simp_all add: no_new_key_def)
  next
    case (retire old)
    then show thesis using t(1) by (intro kept) (auto simp: no_new_key_def announced_def split: if_splits)
  next
    case (switch act new)
    then show thesis using t(1) by (intro kept) (auto simp: no_new_key_def announced_def split: if_splits)
  next
    case (announce key wrapped ek od)
    define new where "new = \<lparr> tk_key = key, tk_cipher = key, tk_pkt_cnt = 0, tk_state = TxAnnounced \<rparr>"
    define m where "m = \<lparr> km_keys = KeysBoth, km_key_len = cc_key_len (cr_cfg a), km_salt = cr_salt a,
      km_wrapped = wrapped \<rparr>"
    have a': "a' = a\<lparr> cr_tx := (cr_tx a)(other_slot (cr_active a) := Some new) \<rparr>" "req = Some (km_encode m)"
      using t(1) announce(1) by (simp_all add: m_def new_def)
    have tx: "cr_tx a' EVEN = Some ek" "cr_tx a' ODD = Some od"
      using announce(3,4) by (simp_all add: a'(1) new_def)
    have "carries cp a' told (km_encode m)" for told
      by (rule pair_carried [OF assms(1) t(2) tx]) (use announce(5) in \<open>simp_all add: a'(1) m_def\<close>)
    then show thesis
      using t(1,2) a' announce(6) by (intro fresh [where new = new]) (simp_all add: new_def announced_def)
  qed
qed

section \<open>Runs of the link\<close>

lemma sender_frame [simp]:
  "carries cp (a\<lparr> cr_outstanding := x \<rparr>) = carries cp a" "carries cp (a\<lparr> cr_snd_state := st \<rparr>) = carries cp a"
  "carries cp (a\<lparr> cr_rcv_state := st \<rparr>) = carries cp a"
  "keyed_as told (a\<lparr> cr_outstanding := x \<rparr>) b = keyed_as told a b" "keyed_as told (a\<lparr> cr_snd_state := st \<rparr>) b = keyed_as told a b"
  "keyed_as told (a\<lparr> cr_rcv_state := st \<rparr>) b = keyed_as told a b"
  "announced (a\<lparr> cr_outstanding := x \<rparr>) = announced a"
  by (simp_all add: carries_def keyed_as_def announced_def fun_eq_iff)

text \<open>An acknowledgement without a new key: at most the outstanding request is repeated.\<close>

lemma on_ack_kept:
  assumes "cr_snd_state a \<noteq> KmUnsecured" "(tick_refresh cp rnd a :: (_, 'e) outcome) = Ok (a1, None)"
  obtains x req where "(crypto_on_ack cp rnd a now srtt :: (_, 'e) outcome) = Ok (a1\<lparr> cr_outstanding := x \<rparr>, req)"
    "\<And>out. x = Some out \<Longrightarrow>
       \<exists>o1. cr_outstanding a1 = Some o1 \<and> ok_blob o1 = ok_blob out \<and> (ok_retries out \<noteq> 0 \<longrightarrow> ok_retries o1 \<noteq> 0)"
    "\<And>blob. req = Some blob \<Longrightarrow> \<exists>o1. cr_outstanding a1 = Some o1 \<and> ok_blob o1 = blob \<and> ok_retries o1 \<noteq> 0"
proof -
  have "(crypto_on_ack cp rnd a now srtt :: (_, 'e) outcome) = Ok (a1, None)
    \<or> (\<exists>o1. cr_outstanding a1 = Some o1 \<and> ok_retries o1 \<noteq> 0 \<and> (crypto_on_ack cp rnd a now srtt :: (_, 'e) outcome) =
        Ok (a1\<lparr> cr_outstanding := Some (o1\<lparr> ok_retries := ok_retries o1 - 1, ok_last_send := Some now \<rparr>) \<rparr>,
            Some (ok_blob o1)))"
    using assms by (auto simp: crypto_on_ack_def Let_def split: option.splits)
  then show thesis
  proof (elim disjE exE conjE)
    assume "(crypto_on_ack cp rnd a now srtt :: (_, 'e) outcome) = Ok (a1, None)"
    then show thesis by (intro that [of "cr_outstanding a1" None]) simp_all
  next
    fix o1
    assume o1: "cr_outstanding a1 = Some o1" "ok_retries o1 \<noteq> 0" and
      ack: "(crypto_on_ack cp rnd a now srtt :: (_, 'e) outcome) =
        Ok (a1\<lparr> cr_outstanding := Some (o1\<lparr> ok_retries := ok_retries o1 - 1, ok_last_send := Some now \<rparr>) \<rparr>, Some (ok_blob o1))"
    show thesis by (rule that [OF ack]) (use o1 in auto)
  qed
qed

lemma on_ack_link:
  assumes "prims_ok cp" "link_inv cp l" and a: "a = rl_sender l"
  obtains a' req told' where "(crypto_on_ack cp rnd a now srtt :: (_, 'e) outcome) = Ok (a', req)"
    "told' = (\<lambda>s. rl_told l s \<and> (announced a' s \<longrightarrow> announced a s))"
    "link_inv cp (l\<lparr> rl_sender := a', rl_told := told' \<rparr>)"
    "\<And>blob. req = Some blob \<Longrightarrow> carries cp a' told' blob"
proof -
  have inv: "crypto_inv cp a" "crypto_inv cp (rl_peer l)" "keyed_as (rl_told l) a (rl_peer l)" "cr_snd_state a = KmSecured"
    "\<And>out. cr_outstanding a = Some out \<Longrightarrow> ok_retries out \<noteq> 0 \<Longrightarrow> carries cp a (rl_told l) (ok_blob out)"
    "cr_key_switches a = 0 \<Longrightarrow> rl_told l (cr_active a)"
    using assms(2) by (auto simp: link_inv_def a)
  from assms(1) inv(1) show thesis
  proof (cases rule: tick_link [where rnd = rnd and 'e = 'e])
    case (kept a1)
    have sec: "cr_snd_state a \<noteq> KmUnsecured" using inv(4) by simp
    obtain x req where x: "(crypto_on_ack cp rnd a now srtt :: (_, 'e) outcome) = Ok (a1\<lparr> cr_outstanding := x \<rparr>, req)"
      "\<And>out. x = Some out \<Longrightarrow>
         \<exists>o1. cr_outstanding a1 = Some o1 \<and> ok_blob o1 = ok_blob out \<and> (ok_retries out \<noteq> 0 \<longrightarrow> ok_retries o1 \<noteq> 0)"
      "\<And>blob. req = Some blob \<Longrightarrow> \<exists>o1. cr_outstanding a1 = Some o1 \<and> ok_blob o1 = blob \<and> ok_retries o1 \<noteq> 0"
      by (rule on_ack_kept [OF sec kept(1), where now = now and srtt = srtt]) (rule that)
    have told: "rl_told l = (\<lambda>s. rl_told l s \<and> (announced (a1\<lparr> cr_outstanding := x \<rparr>) s \<longrightarrow> announced a s))"
      using kept(3) by auto
    have car: "carries cp a1 (rl_told l) (ok_blob o1)" if "cr_outstanding a1 = Some o1" "ok_retries o1 \<noteq> 0" for o1
      using inv(5) that kept(5) by (auto intro: no_new_key_carries [OF kept(2)])
    have "link_inv cp (l\<lparr> rl_sender := a1\<lparr> cr_outstanding := x \<rparr>, rl_told := rl_told l \<rparr>)"
      using inv kept(4-7) no_new_key_keyed [OF kept(2) inv(3)] car x(2) by (fastforce simp: link_inv_def)
    then show thesis using car x(3) by (intro that [OF x(1) told]) auto
  next
    case (fresh a1 blob new)
    let ?a = "a1\<lparr> cr_outstanding := Some \<lparr> ok_blob = blob, ok_retries = KM_MAX_RETRY, ok_last_send = Some now \<rparr> \<rparr>"
    define told' where "told' = (\<lambda>s. rl_told l s \<and> (announced ?a s \<longrightarrow> announced a s))"
    have ack: "(crypto_on_ack cp rnd a now srtt :: (_, 'e) outcome) = Ok (?a, Some blob)"
      using inv(4) fresh(1) by (simp add: crypto_on_ack_def)
    have "\<not> told' (other_slot (cr_active a))" "told' s \<Longrightarrow> rl_told l s" for s
      using fresh(2-4) by (simp_all add: told'_def announced_def)
    then have "keyed_as told' a1 (rl_peer l)"
      using inv(3) by (auto simp: keyed_as_def fresh(2))
    moreover have "told' (cr_active a)" if "cr_key_switches a = 0"
      using inv(6) that by (simp add: told'_def announced_def fresh(2))
    ultimately have "link_inv cp (l\<lparr> rl_sender := ?a, rl_told := told' \<rparr>)"
      using inv(2,4) fresh(5,6) by (simp add: link_inv_def) (simp add: fresh(2))
    then show thesis using fresh(6) by (intro that [OF ack told'_def]) auto
  qed
qed

lemma link_deliver_inv:
  assumes "prims_ok cp" "link_inv cp l" "carries cp (rl_sender l) (rl_told l) blob"
  shows "\<exists>l'. link_deliver cp l blob echoed = Ok l' \<and> link_inv cp l' \<and> cr_active (rl_sender l') = cr_active (rl_sender l)"
proof -
  have inv: "crypto_inv cp (rl_sender l)" "crypto_inv cp (rl_peer l)" "keyed_as (rl_told l) (rl_sender l) (rl_peer l)"
    "cr_snd_state (rl_sender l) = KmSecured"
    and out: "\<And>out. cr_outstanding (rl_sender l) = Some out \<Longrightarrow> ok_retries out \<noteq> 0 \<Longrightarrow>
      carries cp (rl_sender l) (\<lambda>_. True) (ok_blob out)"
    using assms(2) by (auto simp: link_inv_def intro: carries_told)
  obtain b' where b': "(handle_kmreq cp (rl_peer l) blob :: (_, unit) outcome) = Ok (b', Installed)" "crypto_inv cp b'"
    "keyed_as (\<lambda>_. True) (rl_sender l) b'"
    using assms(1) inv(1-3) assms(3) by (rule carries_installs)
  obtain m where m: "blob = km_encode m" "km_wf m" using assms(3) unfolding carries_def by blast
  have "4 < length blob" using length_km_encode [OF m(2)] m(1) by simp
  then have rsp: "fst (handle_kmrsp (rl_sender l) blob) = rl_sender l \<or> fst (handle_kmrsp (rl_sender l) blob) =
      (rl_sender l)\<lparr> cr_outstanding := None, cr_snd_state := KmSecured, cr_rcv_state := KmSecured \<rparr>"
    by (simp add: handle_kmrsp_def km_response_parse_def split: option.split)
  define a' where "a' = (if echoed then fst (handle_kmrsp (rl_sender l) blob) else rl_sender l)"
  have "a' = rl_sender l
    \<or> a' = (rl_sender l)\<lparr> cr_outstanding := None, cr_snd_state := KmSecured, cr_rcv_state := KmSecured \<rparr>"
    using rsp by (cases echoed) (simp_all add: a'_def)
  then have "link_inv cp (l\<lparr> rl_sender := a', rl_peer := b', rl_told := (\<lambda>_. True) \<rparr>) \<and> cr_active a' = cr_active (rl_sender l)"
    by (elim disjE) (use b'(2,3) inv(1,4) out in \<open>simp_all add: link_inv_def\<close>)
  moreover have "link_deliver cp l blob echoed = Ok (l\<lparr> rl_sender := a', rl_peer := b', rl_told := (\<lambda>_. True) \<rparr>)"
    using b'(1) by (simp add: link_deliver_def a'_def)
  ultimately show ?thesis by simp
qed

lemma link_call_inv:
  assumes "prims_ok cp" "link_inv cp l" "link_event_ok e"
  shows "\<exists>l'. link_call cp l e = Ok l' \<and> link_inv cp l'"
proof (cases e)
  case (LinkSend sq p)
  obtain a' kk ct where "(encrypt cp (rl_sender l) sq p :: (_, unit) outcome) = Ok (a', kk, ct)" "crypto_inv cp a'"
    using assms(2,3) by (auto simp: LinkSend link_inv_def intro: encrypt_total)
  then show ?thesis
    using assms(2) encrypt_no_new_key [of cp "rl_sender l" sq p a' kk ct]
    by (auto simp: LinkSend link_inv_def intro: no_new_key_keyed no_new_key_carries)
next
  case (LinkAck rnd now srtt arrives echoed)
  obtain a' req told' where "(crypto_on_ack cp rnd (rl_sender l) now srtt :: (_, unit) outcome) = Ok (a', req)"
    "told' = (\<lambda>s. rl_told l s \<and> (announced a' s \<longrightarrow> announced (rl_sender l) s))"
    "link_inv cp (l\<lparr> rl_sender := a', rl_told := told' \<rparr>)"
    "\<And>blob. req = Some blob \<Longrightarrow> carries cp a' told' blob"
    by (rule on_ack_link [OF assms(1,2) refl, where rnd = rnd and now = now and srtt = srtt and 'e = unit]) (rule that)
  then show ?thesis
    using link_deliver_inv [OF assms(1), of "l\<lparr> rl_sender := a', rl_told := told' \<rparr>" _ echoed]
    by (cases req) (auto simp: LinkAck Let_def)
qed

interpretation refresh: inv_machine "link_step cp" "\<lambda>_. link_event_ok" "link_ok cp" for cp
  using link_call_inv by unfold_locales (fastforce simp: link_step_def link_ok_def)

lemma link_run_ok: "refresh.run_ok cp s es \<longleftrightarrow> (\<forall>e \<in> set es. link_event_ok e)"
  by (induction es arbitrary: s) auto

lemma key_exchange_link:
  assumes "prims_ok cp" "cc_passphrase cfg' = cc_passphrase cfg" "key_exchange cp rs rk cfg cfg' = Some (a, b)"
  shows "link_inv cp (link_new a b)" "link_inv cp (link_new b a)"
proof -
  obtain a0 blob where x: "new_initiator cp rs rk cfg = (Ok a0 :: (_, unit) outcome)" "kmreq a0 = Some blob"
    "new_responder cp cfg' blob = Ok b" "handle_kmrsp a0 blob = (a, Confirmed)"
    "crypto_inv cp a0" "crypto_inv cp b" "keyed_for a0 b" "keyed_for b a"
    by (rule key_exchange_keyed [OF assms(1,2), where rs = rs and rk = rk])
      (use assms(3) in \<open>auto simp: key_exchange_def split: outcome.splits\<close>)
  have a: "a = a0\<lparr> cr_outstanding := None, cr_snd_state := KmSecured, cr_rcv_state := KmSecured \<rparr>"
    using x(4) by (auto simp: handle_kmrsp_def peer_km_failure_def Let_def
        split: outcome.splits km_response.splits option.splits if_splits km_state.splits)
  have "keyed_as (\<lambda>_. True) a b" using x(7) by (simp add: a flip: keyed_as_all)
  then show "link_inv cp (link_new a b)"
    using x(5,6) by (simp add: link_inv_def link_new_def a)
  have "cr_snd_state b = KmSecured" "\<exists>out. cr_outstanding b = Some out \<and> ok_retries out = 0"
    using x(3) by (auto simp: new_responder_def Let_def bind_outcome_Ok_iff)
  then show "link_inv cp (link_new b a)"
    using x(5,6,8) by (auto simp: link_inv_def link_new_def keyed_as_all) (simp_all add: a)
qed

lemma told_reads:
  assumes "prims_ok cp" "link_inv cp l" "rl_told l (cr_active (rl_sender l))"
  shows "reads_back cp (rl_sender l) (rl_peer l) sq p"
proof -
  obtain k where k: "cr_tx (rl_sender l) (cr_active (rl_sender l)) = Some k" "tk_state k = TxActive"
    using assms(2) by (auto simp: link_inv_def intro: crypto_inv_tx)
  show ?thesis
    by (rule active_keyed_reads_back [OF assms(1) k(1)])
      (use assms(2,3) k in \<open>auto simp: link_inv_def keyed_as_def\<close>)
qed

lemma unkeyed_refused:
  assumes "crypto_inv cp a" "cr_rx b (cr_active a) = None" "cr_rcv_state b = KmSecured"
  shows "refused cp a b sq p"
proof -
  obtain k where "cr_tx a (cr_active a) = Some k" using assms(1) by (rule crypto_inv_tx)
  then show ?thesis using assms(2,3) by (cases "cr_active a") (simp_all add: refused_def encrypt_def decrypt_def)
qed

lemma switch_at_threshold:
  assumes "prims_ok cp" "link_inv cp l" "switch_due (rl_sender l)"
  shows "\<exists>l'. link_call cp l (LinkAck rnd now srtt arrives echoed) = Ok l'
    \<and> cr_active (rl_sender l') = other_slot (cr_active (rl_sender l))"
proof -
  let ?a = "rl_sender l"
  obtain a' req told' where ack: "(crypto_on_ack cp rnd ?a now srtt :: (_, unit) outcome) = Ok (a', req)"
    "told' = (\<lambda>s. rl_told l s \<and> (announced a' s \<longrightarrow> announced ?a s))"
    "link_inv cp (l\<lparr> rl_sender := a', rl_told := told' \<rparr>)"
    "\<And>blob. req = Some blob \<Longrightarrow> carries cp a' told' blob"
    by (rule on_ack_link [OF assms(1,2) refl, where rnd = rnd and now = now and srtt = srtt and 'e = unit]) (rule that)
  have "cr_snd_state ?a = KmSecured" using assms(2) by (simp add: link_inv_def)
  then have "cr_active a' = other_slot (cr_active ?a)"
    using ack(1) assms(3)
    by (auto simp: switch_due_def announced_def crypto_on_ack_def tick_refresh_def Let_def bind_outcome_Ok_iff
        split: option.splits if_splits)
  then show ?thesis
    using link_deliver_inv [OF assms(1) ack(3)] ack(1,2,4) by (cases req) (fastforce simp: Let_def)+
qed

text \<open>
  C9.  Key refresh over a lossy link.  After a key exchange, in either direction and whatever is sent,
  acknowledged, delivered or lost (no empty payload is encrypted), neither engine panics and:
  the peer reads every packet as long as one message with the key in use has arrived, be it the
  announcement or a repetition, and in any case until the first switch; a peer that has no key in that
  slot refuses the packets instead of delivering something else; and the sender switches at its
  threshold whether or not the announcement arrived.
\<close>

theorem refresh_over_lossy_link:
  assumes "prims_ok cp" "cc_passphrase cfg' = cc_passphrase cfg" "key_exchange cp rs rk cfg cfg' = Some (a, b)"
    and "start = link_new a b \<or> start = link_new b a" "\<forall>e \<in> set es. link_event_ok e"
  shows "\<exists>l. foldl (link_step cp) (Ok start) es = Ok l
    \<and> (rl_told l (cr_active (rl_sender l)) \<longrightarrow> (\<forall>sq p. reads_back cp (rl_sender l) (rl_peer l) sq p))
    \<and> (cr_key_switches (rl_sender l) = 0 \<longrightarrow> rl_told l (cr_active (rl_sender l)))
    \<and> (cr_rx (rl_peer l) (cr_active (rl_sender l)) = None \<longrightarrow> (\<forall>sq p. refused cp (rl_sender l) (rl_peer l) sq p))
    \<and> (switch_due (rl_sender l) \<longrightarrow> (\<forall>rnd now srtt arrives echoed. \<exists>l'.
         link_call cp l (LinkAck rnd now srtt arrives echoed) = Ok l'
         \<and> cr_active (rl_sender l') = other_slot (cr_active (rl_sender l))))"
proof -
  have "link_ok cp (Ok start)"
    using key_exchange_link [OF assms(1-3)] assms(1,4) by (auto simp: link_ok_def)
  then have "link_ok cp (foldl (link_step cp) (Ok start) es)"
    using assms(5) by (intro refresh.run_inv) (simp_all add: link_run_ok)
  then obtain l where l: "foldl (link_step cp) (Ok start) es = Ok l" "link_inv cp l"
    by (auto simp: link_ok_def)
  moreover have "crypto_inv cp (rl_sender l)" "cr_rcv_state (rl_peer l) = KmSecured"
    "cr_key_switches (rl_sender l) = 0 \<Longrightarrow> rl_told l (cr_active (rl_sender l))"
    using l(2) by (simp_all add: link_inv_def keyed_as_def)
  ultimately show ?thesis
    using told_reads [OF assms(1) l(2)] unkeyed_refused [of cp "rl_sender l" "rl_peer l"]
      switch_at_threshold [OF assms(1) l(2)] by (intro exI [of _ l]) simp
qed

section \<open>A refresh whose announcement is lost\<close>

text \<open>
  With a refresh every three packets the announcement after the second packet is lost and so is its first
  repetition; the sender switches after the next packet, and the second repetition arrives.
\<close>

definition demo_lost :: "link_event list" where
  "demo_lost = [LinkSend (SeqNumber 1) [10], LinkSend (SeqNumber 2) [20], LinkAck [4] 0 0 False False,
     LinkSend (SeqNumber 3) [30], LinkAck [5] 1 0 False False]"

definition demo_repeat :: link_event where
  "demo_repeat = LinkAck [6] 2 0 True True"

lemma demo_lost_run:
  "case key_exchange demo_prims [1, 2, 3] [9] demo_config demo_config of
     Some (a, b) \<Rightarrow>
       (case foldl (link_step demo_prims) (Ok (link_new a b)) demo_lost of
          Ok l \<Rightarrow> cr_active (rl_sender l) = ODD \<and> cr_rx (rl_peer l) ODD = None
        | _ \<Rightarrow> False)
   | None \<Rightarrow> False"
  by code_simp

lemma demo_healed_run:
  "case key_exchange demo_prims [1, 2, 3] [9] demo_config demo_config of
     Some (a, b) \<Rightarrow>
       (case foldl (link_step demo_prims) (Ok (link_new a b)) (demo_lost @ [demo_repeat]) of
          Ok l \<Rightarrow> cr_active (rl_sender l) = ODD \<and> rl_told l ODD
        | _ \<Rightarrow> False)
   | None \<Rightarrow> False"
  by code_simp

theorem refresh_over_lossy_link_witness:
  "\<exists>a b lost healed. key_exchange demo_prims [1, 2, 3] [9] demo_config demo_config = Some (a, b)
    \<and> foldl (link_step demo_prims) (Ok (link_new a b)) demo_lost = Ok lost
    \<and> cr_active (rl_sender lost) = ODD \<and> (\<forall>sq p. refused demo_prims (rl_sender lost) (rl_peer lost) sq p)
    \<and> foldl (link_step demo_prims) (Ok (link_new a b)) (demo_lost @ [demo_repeat]) = Ok healed
    \<and> cr_active (rl_sender healed) = ODD \<and> (\<forall>sq p. reads_back demo_prims (rl_sender healed) (rl_peer healed) sq p)"
proof -
  obtain a b where x: "key_exchange demo_prims [1, 2, 3] [9] demo_config demo_config = Some (a, b)"
    using demo_lost_run by (cases "key_exchange demo_prims [1, 2, 3] [9] demo_config demo_config") auto
  obtain lost where lost: "foldl (link_step demo_prims) (Ok (link_new a b)) demo_lost = Ok lost"
      "cr_active (rl_sender lost) = ODD" "cr_rx (rl_peer lost) ODD = None"
    using demo_lost_run x by (cases "foldl (link_step demo_prims) (Ok (link_new a b)) demo_lost") auto
  obtain healed where healed: "foldl (link_step demo_prims) (Ok (link_new a b)) (demo_lost @ [demo_repeat]) = Ok healed"
      "cr_active (rl_sender healed) = ODD" "rl_told healed ODD"
    using demo_healed_run x by (cases "foldl (link_step demo_prims) (Ok (link_new a b)) (demo_lost @ [demo_repeat])")
      (auto simp del: foldl_append)
  note run = refresh_over_lossy_link [OF demo_prims_ok refl x disjI1 [OF refl]]
  have ok: "\<forall>e \<in> set demo_lost. link_event_ok e" "\<forall>e \<in> set (demo_lost @ [demo_repeat]). link_event_ok e"
    by (simp_all add: demo_lost_def demo_repeat_def)
  have "\<forall>sq p. refused demo_prims (rl_sender lost) (rl_peer lost) sq p"
    using run [OF ok(1)] lost by (simp del: link_call.simps)
  moreover have "\<forall>sq p. reads_back demo_prims (rl_sender healed) (rl_peer healed) sq p"
    using run [OF ok(2)] healed by (simp del: link_call.simps foldl_append)
  ultimately show ?thesis using x lost(1,2) healed(1,2) by blast
qed

end
