(* ===== verification/Float64.thy ===== *)
theory Float64
  imports Srt_Prelude Complex_Main "HOL-Library.Log_Nat"
begin

text \<open>
  The fragment of \<open>f64\<close> arithmetic the pacing formula uses: non-negative values, each operation
  rounded to nearest, ties to even, at 53 bits of precision.  The operands are integers far from
  the ends of the exponent range, so neither subnormals nor infinities occur.
\<close>

definition rne :: "rat \<Rightarrow> int" where
  "rne x = (let f = \<lfloor>x\<rfloor>; d = x - of_int f in
     if d < 1 / 2 then f else if d > 1 / 2 then f + 1 else if even f then f else f + 1)"

text \<open>The binary exponent of a positive rational, from the bit lengths of its parts.\<close>

definition f64_exponent :: "rat \<Rightarrow> int" where
  "f64_exponent x =
     (let (a, b) = quotient_of x;
          e = int (floorlog 2 (nat a)) - int (floorlog 2 (nat b)) in
      if 2 powi e \<le> x then e else e - 1)"

definition f64_round :: "rat \<Rightarrow> rat" where
  "f64_round x =
     (if x \<le> 0 then 0
      else let e = f64_exponent x in of_int (rne (x * 2 powi (52 - e))) * 2 powi (e - 52))"

definition f64_of_u64 :: "nat \<Rightarrow> rat" where
  "f64_of_u64 n = f64_round (of_nat n)"

definition f64_mul :: "rat \<Rightarrow> rat \<Rightarrow> rat" where
  "f64_mul x y = f64_round (x * y)"

definition f64_div :: "rat \<Rightarrow> rat \<Rightarrow> rat" where
  "f64_div x y = f64_round (x / y)"

text \<open>\<open>as u64\<close>: truncation, saturating at the top.\<close>

definition f64_as_u64 :: "rat \<Rightarrow> nat" where
  "f64_as_u64 x = min (nat \<lfloor>x\<rfloor>) (2 ^ 64 - 1)"

lemma rne_ge: "of_int z \<le> x \<Longrightarrow> z \<le> rne x"
proof -
  assume "of_int z \<le> x"
  then have "z \<le> \<lfloor>x\<rfloor>" by (simp add: le_floor_iff)
  then show ?thesis by (auto simp: rne_def Let_def)
qed

lemma rne_less: "x < of_int z - 1 / 2 \<Longrightarrow> rne x < z"
proof -
  assume x: "x < of_int z - 1 / 2"
  have fl: "of_int \<lfloor>x\<rfloor> \<le> x" by simp
  with x have "of_int \<lfloor>x\<rfloor> < (of_int z :: rat)" by linarith
  then have lt: "\<lfloor>x\<rfloor> < z" by simp
  show ?thesis
  proof (cases "\<lfloor>x\<rfloor> + 1 < z")
    case True
    then show ?thesis by (auto simp: rne_def Let_def)
  next
    case False
    with lt have "z = \<lfloor>x\<rfloor> + 1" by simp
    then have "x - of_int \<lfloor>x\<rfloor> < 1 / 2" using x by simp
    then show ?thesis using lt by (simp add: rne_def Let_def)
  qed
qed

lemma rne_int [simp]: "rne (of_int z) = z"
  by (simp add: rne_def)

lemma floorlog_bounds_rat:
  assumes "0 < a"
  shows "(2::rat) powi (int (floorlog 2 (nat a)) - 1) \<le> of_int a"
    and "of_int a < (2::rat) powi int (floorlog 2 (nat a))"
proof -
  have pos: "0 < nat a" using assms by simp
  define l where "l = floorlog 2 (nat a)"
  have b: "2 ^ (l - 1) \<le> nat a" "nat a < 2 ^ l" and l: "0 < l"
    using floorlog_bounds [OF pos, of 2] floorlog_eq_zero_iff [of 2 "nat a"] pos by (auto simp: l_def)
  have "2 ^ (l - 1) \<le> a" using b(1) assms by (metis nat_le_iff of_nat_le_iff of_nat_numeral of_nat_power zle_int nat_0_le order_less_imp_le)
  moreover have "a < 2 ^ l" using b(2) by (simp add: nat_less_iff assms order_less_imp_le)
  moreover have "int l - 1 = int (l - 1)" using l by simp
  ultimately show "(2::rat) powi (int (floorlog 2 (nat a)) - 1) \<le> of_int a"
    "of_int a < (2::rat) powi int (floorlog 2 (nat a))"
    unfolding l_def [symmetric]
    by (metis of_int_le_iff of_int_numeral of_int_power power_int_of_nat,
        metis of_int_less_iff of_int_numeral of_int_power power_int_of_nat)
qed

lemma f64_exponent_bounds:
  assumes "0 < x" shows "2 powi f64_exponent x \<le> x" "x < 2 powi (f64_exponent x + 1)"
proof -
  obtain a b where q: "quotient_of x = (a, b)" by (cases "quotient_of x")
  have b: "0 < b" using quotient_of_denom_pos [OF q] .
  have x: "x = of_int a / of_int b" using quotient_of_div [OF q] .
  with assms b have a: "0 < a" by (simp add: zero_less_divide_iff)
  define la lb where "la = int (floorlog 2 (nat a))" and "lb = int (floorlog 2 (nat b))"
  note ba = floorlog_bounds_rat [OF a, folded la_def] and bb = floorlog_bounds_rat [OF b, folded lb_def]
  have pw: "(2::rat) powi (m - n) = 2 powi m / 2 powi n" for m n :: int
    by (simp add: power_int_diff)
  have "x < 2 powi la / 2 powi (lb - 1)"
    unfolding x using ba(2) bb(1) a b by (intro frac_less) simp_all
  then have up: "x < 2 powi (la - lb + 1)"
    using pw [of la "lb - 1"] by (simp add: algebra_simps)
  have "2 powi (la - 1) / 2 powi lb \<le> x"
    unfolding x using ba(1) bb(2) a b by (intro frac_le) simp_all
  then have lo: "2 powi (la - lb - 1) \<le> x"
    using pw [of "la - 1" lb] by (simp add: algebra_simps)
  have e: "f64_exponent x = (if 2 powi (la - lb) \<le> x then la - lb else la - lb - 1)"
    by (simp add: f64_exponent_def q la_def lb_def Let_def)
  show "2 powi f64_exponent x \<le> x" "x < 2 powi (f64_exponent x + 1)"
    using up lo by (auto simp: e)
qed

lemma powi_less_imp: "(2::rat) powi m < 2 powi n \<Longrightarrow> m < n"
  by (metis linorder_not_less one_le_numeral power_int_increasing)

text \<open>
  Truncating a rounded quotient never crosses an integer the exact quotient does not reach, as
  long as the exact quotient stays a little below it.
\<close>

lemma f64_round_floor:
  assumes "0 < x" and up: "x < 2 ^ 53"
    and gap: "1 / 2 < (of_int (\<lfloor>x\<rfloor> + 1) - x) * 2 powi (52 - f64_exponent x)"
  shows "\<lfloor>f64_round x\<rfloor> = \<lfloor>x\<rfloor>"
proof -
  define e where "e = f64_exponent x"
  note b = f64_exponent_bounds [OF assms(1), folded e_def]
  have "2 powi e < (2::rat) powi 53"
    using b(1) up power_int_of_nat [of "2::rat" 53] by simp
  then have e: "e \<le> 52" by - (drule powi_less_imp, simp)
  define k where "k = nat (52 - e)"
  have k: "(2::rat) powi (52 - e) = 2 ^ k"
    using e power_int_of_nat [of "2::rat" k] by (simp add: k_def)
  have k': "(2::rat) powi (e - 52) = 1 / 2 ^ k"
    using k power_int_minus [of "2::rat" "52 - e"] by (simp add: divide_inverse)
  let ?y = "x * 2 ^ k"
  have round: "f64_round x = of_int (rne ?y) / 2 ^ k"
    using assms(1) by (simp add: f64_round_def Let_def e_def [symmetric] k k')
  have "of_int (\<lfloor>x\<rfloor> * 2 ^ k) \<le> ?y" by simp
  then have lo: "\<lfloor>x\<rfloor> * 2 ^ k \<le> rne ?y" by (rule rne_ge)
  have "?y < of_int ((\<lfloor>x\<rfloor> + 1) * 2 ^ k) - 1 / 2"
    using gap unfolding e_def [symmetric] k by (simp add: algebra_simps)
  then have hi: "rne ?y < (\<lfloor>x\<rfloor> + 1) * 2 ^ k" by (rule rne_less)
  have "of_int (\<lfloor>x\<rfloor> * 2 ^ k) \<le> (of_int (rne ?y) :: rat)"
    using lo by (simp only: of_int_le_iff)
  then have "of_int \<lfloor>x\<rfloor> \<le> f64_round x"
    unfolding round by (simp add: pos_le_divide_eq)
  moreover have "(of_int (rne ?y) :: rat) < of_int ((\<lfloor>x\<rfloor> + 1) * 2 ^ k)"
    using hi by (simp only: of_int_less_iff)
  then have "f64_round x < of_int \<lfloor>x\<rfloor> + 1"
    unfolding round by (simp add: pos_divide_less_eq)
  ultimately show ?thesis by (simp add: floor_eq_iff)
qed

lemma powi_half: "(2::rat) powi (52 - e) = 2 powi (53 - e) / 2"
  using power_int_diff [of "2::rat" "53 - e" 1] by (simp add: algebra_simps)

lemma powi_pos [simp]: "0 < (2::rat) powi e"
  by simp

text \<open>Integers of up to 53 bits are exact.\<close>

lemma f64_of_u64_exact:
  assumes "n < 2 ^ 53" shows "f64_of_u64 n = of_nat n"
proof (cases "n = 0")
  case True
  then show ?thesis by (simp add: f64_of_u64_def f64_round_def)
next
  case False
  define x where "x = (of_nat n :: rat)"
  have x: "0 < x" "x < 2 ^ 53" using False assms
    unfolding x_def by (simp, metis of_nat_less_iff of_nat_numeral of_nat_power)
  define e where "e = f64_exponent x"
  note b = f64_exponent_bounds [OF x(1), folded e_def]
  have "2 powi e < (2::rat) powi 53"
    using b(1) x(2) power_int_of_nat [of "2::rat" 53] by simp
  then have e: "e \<le> 52" by - (drule powi_less_imp, simp)
  define k where "k = nat (52 - e)"
  have k: "(2::rat) powi (52 - e) = 2 ^ k"
    using e power_int_of_nat [of "2::rat" k] by (simp add: k_def)
  have k': "(2::rat) powi (e - 52) = 1 / 2 ^ k"
    using k power_int_minus [of "2::rat" "52 - e"] by (simp add: divide_inverse)
  have "x * 2 ^ k = of_int (int n * 2 ^ k)" by (simp add: x_def)
  then have "rne (x * 2 ^ k) = int n * 2 ^ k" by (metis rne_int)
  then have "f64_round x = x"
    using x(1) by (simp add: f64_round_def Let_def e_def [symmetric] k k') (simp add: x_def)
  then show ?thesis by (simp add: f64_of_u64_def x_def)
qed

lemma f64_of_u64_large:
  assumes "2 ^ 53 \<le> n" shows "2 ^ 53 \<le> f64_of_u64 n"
proof -
  define x where "x = (of_nat n :: rat)"
  have x: "2 ^ 53 \<le> x" using assms unfolding x_def by (metis of_nat_le_iff of_nat_numeral of_nat_power)
  then have pos: "0 < x" by (rule order_less_le_trans [rotated]) simp
  define e where "e = f64_exponent x"
  note b = f64_exponent_bounds [OF pos, folded e_def]
  have "(2::rat) powi 53 < 2 powi (e + 1)"
    using b(2) x power_int_of_nat [of "2::rat" 53] by simp
  then have e: "53 \<le> e" by - (drule powi_less_imp, simp)
  have "(2::rat) powi e * 2 powi (52 - e) \<le> x * 2 powi (52 - e)"
    using b(1) by (intro mult_right_mono) simp_all
  moreover have "(2::rat) powi e * 2 powi (52 - e) = of_int (2 ^ 52)"
    using power_int_add [of "2::rat" e "52 - e"] by simp
  ultimately have "2 ^ 52 \<le> rne (x * 2 powi (52 - e))"
    by (intro rne_ge) simp
  then have "(2::rat) ^ 52 \<le> of_int (rne (x * 2 powi (52 - e)))"
    by (metis of_int_le_iff of_int_numeral of_int_power)
  then have "(2::rat) ^ 52 * 2 powi (e - 52) \<le> f64_round x"
    using pos unfolding f64_round_def Let_def e_def [symmetric]
    by (auto intro!: mult_right_mono)
  moreover have "(2::rat) ^ 52 * 2 powi (e - 52) = 2 powi e"
    using power_int_add [of "2::rat" 52 "e - 52"] power_int_of_nat [of "2::rat" 52] by simp
  moreover have "(2::rat) ^ 53 \<le> 2 powi e"
    using power_int_increasing [OF e, of "2::rat"] power_int_of_nat [of "2::rat" 53] by simp
  ultimately show ?thesis by (simp add: f64_of_u64_def x_def)
qed

text \<open>
  The formula of the pacer: a product and a quotient of integers in \<open>f64\<close>, truncated, is integer
  division, for every dividend below \<open>2 ^ 53\<close> and every divisor.
\<close>

lemma f64_div_floor_exact:
  assumes "0 < b" "a < 2 ^ 53"
  shows "f64_as_u64 (f64_div (of_nat a) (of_nat b)) = a div b"
proof (cases "a = 0")
  case True
  then show ?thesis by (simp add: f64_div_def f64_round_def f64_as_u64_def)
next
  case False
  define x where "x = (of_nat a / of_nat b :: rat)"
  have pos: "0 < x" using False assms by (simp add: x_def)
  have fl: "\<lfloor>x\<rfloor> = int (a div b)" by (simp add: x_def floor_divide_of_nat_eq)
  have a53: "(of_nat a :: rat) < 2 ^ 53"
    using assms(2) by (metis of_nat_less_iff of_nat_numeral of_nat_power)
  have b1: "(1::rat) \<le> of_nat b" using assms(1) by simp
  have "x \<le> of_nat a" unfolding x_def using b1 by (simp add: divide_le_eq mult_le_cancel_left1)
  with a53 have up: "x < 2 ^ 53" by linarith
  define e where "e = f64_exponent x"
  have lo: "2 powi e \<le> x" using f64_exponent_bounds(1) [OF pos] by (simp add: e_def)
  have "2 powi e * of_nat b \<le> (of_nat a :: rat)"
    using lo b1 by (simp add: x_def pos_le_divide_eq)
  with a53 have "2 powi e * of_nat b < (2::rat) powi 53"
    using power_int_of_nat [of "2::rat" 53] by simp
  then have small: "of_nat b < (2::rat) powi (53 - e)"
    using power_int_diff [of "2::rat" 53 e] by (simp add: pos_less_divide_eq mult.commute)
  have "a < (a div b + 1) * b"
    using assms(1) by (metis Suc_eq_plus1 dividend_less_times_div mult.commute mult_Suc_right add.commute)
  then have "a + 1 \<le> (a div b + 1) * b" by simp
  then have "(of_nat (a + 1) :: rat) \<le> of_nat ((a div b + 1) * b)" by (rule of_nat_mono)
  then have "1 / of_nat b \<le> of_int (\<lfloor>x\<rfloor> + 1) - x"
    using b1 unfolding fl by (simp add: x_def field_simps)
  then have "1 / of_nat b * 2 powi (52 - e) \<le> (of_int (\<lfloor>x\<rfloor> + 1) - x) * 2 powi (52 - e)"
    by (intro mult_right_mono) simp_all
  moreover have "1 / 2 < 1 / of_nat b * (2::rat) powi (52 - e)"
    using small b1 by (simp add: powi_half pos_less_divide_eq)
  ultimately have "1 / 2 < (of_int (\<lfloor>x\<rfloor> + 1) - x) * 2 powi (52 - e)" by (rule less_le_trans [rotated])
  then have "\<lfloor>f64_round x\<rfloor> = \<lfloor>x\<rfloor>"
    using pos up unfolding e_def by (intro f64_round_floor)
  moreover have "a div b \<le> 2 ^ 64 - 1"
    by (rule order_trans [OF div_le_dividend]) (use assms(2) in simp)
  ultimately show ?thesis
    by (simp add: f64_as_u64_def f64_div_def x_def [symmetric] fl)
qed

lemma f64_div_floor_large:
  assumes "2 ^ 53 \<le> d" "a < 2 ^ 53"
  shows "f64_as_u64 (f64_div (of_nat a) d) = 0"
proof (cases "a = 0")
  case True
  then show ?thesis by (simp add: f64_div_def f64_round_def f64_as_u64_def)
next
  case False
  define x where "x = of_nat a / d"
  have d0: "0 < d" using assms(1) by (rule order_less_le_trans [rotated]) simp
  have pos: "0 < x" using False d0 by (simp add: x_def)
  have "a + 1 \<le> 2 ^ 53" using assms(2) by simp
  then have a1: "(of_nat a :: rat) + 1 \<le> 2 ^ 53"
    by (metis of_nat_1 of_nat_add of_nat_mono of_nat_numeral of_nat_power)
  have lt1: "x < 1" unfolding x_def using a1 assms(1) d0 by (simp add: divide_less_eq)
  have fl: "\<lfloor>x\<rfloor> = 0" using pos lt1 by (simp add: floor_eq_iff)
  define e where "e = f64_exponent x"
  have lo: "2 powi e \<le> x" using f64_exponent_bounds(1) [OF pos] by (simp add: e_def)
  then have "2 powi e < (2::rat) powi 0" using lt1 by simp
  then have e: "e < 0" by (rule powi_less_imp)
  have "1 / 2 < (1 - x) * 2 powi (52 - e)"
  proof (cases "e = -1")
    case True
    have "d \<le> 2 * of_nat a"
      using lo d0 by (simp add: True x_def power_int_minus field_simps)
    moreover have "x * d = of_nat a" using d0 by (simp add: x_def)
    ultimately have "(1 - x) * d \<ge> 1" "d < 2 ^ 54"
      using a1 assms(1) by (simp_all add: algebra_simps)
    then have "1 < (1 - x) * 2 ^ 54"
      using lt1 by (meson diff_gt_0_iff_gt mult_strict_left_mono order_le_less_trans)
    then show ?thesis using power_int_of_nat [of "2::rat" 53] by (simp add: True)
  next
    case False
    with e have e2: "e \<le> -2" by simp
    have "x < 2 powi (e + 1)" using f64_exponent_bounds(2) [OF pos] by (simp add: e_def)
    also have "\<dots> \<le> 2 powi (-1)" using e2 by (intro power_int_increasing) simp_all
    finally have "1 / 2 < 1 - x" by (simp add: power_int_minus)
    moreover have "1 \<le> (2::rat) powi (52 - e)"
      using e2 power_int_increasing [of 0 "52 - e" "2::rat"] by simp
    ultimately have "1 / 2 * 1 < (1 - x) * 2 powi (52 - e)"
      by (intro mult_less_le_imp_less) simp_all
    then show ?thesis by simp
  qed
  then have "\<lfloor>f64_round x\<rfloor> = \<lfloor>x\<rfloor>"
    using pos lt1 by (intro f64_round_floor) (auto simp: fl e_def)
  then show ?thesis
    by (simp add: f64_as_u64_def f64_div_def x_def [symmetric] fl)
qed

lemma f64_div_u64:
  assumes "0 < b" "a < 2 ^ 53"
  shows "f64_as_u64 (f64_div (of_nat a) (f64_of_u64 b)) = a div b"
proof (cases "b < 2 ^ 53")
  case True
  then show ?thesis using assms by (simp only: f64_of_u64_exact f64_div_floor_exact)
next
  case False
  then have "2 ^ 53 \<le> b" by simp
  then show ?thesis
    using assms(2) f64_div_floor_large [OF f64_of_u64_large] by simp
qed

end
