(* ===== verification/Srt_Options.thy ===== *)
theory Srt_Options
  imports Crypto_Keys
begin

text \<open>
  Errors, pacing modes and connection options (\<open>src/error.rs\<close>, \<open>src/options.rs\<close>), with the
  validation that establishes the bounds the pacer and the key-refresh machine rely on.
\<close>

section \<open>Errors\<close>

datatype close_reason =
    CloseShutdown
  | PeerIdle
  | DataIdle
  | CloseLocal
  | CloseConnectTimeout
  | CloseRejected u32
  | SequenceDiscrepancy

datatype srt_error =
    IoError
  | ConnectTimeout
  | Rejected u32
  | EncryptionUnsupported
  | WrongPassphrase
  | PayloadTooLarge nat
  | Closed close_reason
  | NoIpv4Address
  | StreamIdTooLong
  | InvalidPassphrase
  | InvalidKmParameters string
  | InvalidBandwidth string

section \<open>Pacing modes\<close>

text \<open>Rates are \<open>u64\<close> bytes per second, the overhead a \<open>u8\<close> percentage.\<close>

datatype bandwidth =
    Unlimited
  | MaxBw nat
  | InputBw nat nat
  | EstimatedBw nat nat

definition DEFAULT_OVERHEAD_PCT :: nat where "DEFAULT_OVERHEAD_PCT = 25"

fun bandwidth_validate :: "bandwidth \<Rightarrow> (unit, srt_error) outcome" where
  "bandwidth_validate (MaxBw bps) =
     (if bps = 0 then Err (InvalidBandwidth ''max bandwidth must be nonzero'') else Ok ())"
| "bandwidth_validate (InputBw bps pct) =
     (if bps = 0 then Err (InvalidBandwidth
        ''explicit input rate must be nonzero (use Bandwidth::Estimated for auto)'')
      else if \<not> (5 \<le> pct \<and> pct \<le> 100) then
        Err (InvalidBandwidth ''overhead_pct must be within 5..=100'')
      else Ok ())"
| "bandwidth_validate (EstimatedBw _ pct) =
     (if \<not> (5 \<le> pct \<and> pct \<le> 100) then
        Err (InvalidBandwidth ''overhead_pct must be within 5..=100'')
      else Ok ())"
| "bandwidth_validate Unlimited = Ok ()"

section \<open>Options\<close>

text \<open>The two socket-level options (\<open>udp_recv_buffer\<close>, \<open>local_addr\<close>) configure the UDP socket only.\<close>

record srt_options =
  op_latency :: duration
  op_peer_latency :: duration
  op_streamid :: "bytes option"
  op_mss :: u32
  op_flow_window :: u32
  op_recv_buffer_pkts :: nat
  op_send_buffer_pkts :: nat
  op_connect_timeout :: duration
  op_peer_idle_timeout :: duration
  op_data_idle_timeout :: "duration option"
  op_bandwidth :: bandwidth
  op_passphrase :: "bytes option"
  op_pbkeylen :: "key_length option"
  op_km_refresh_rate :: "u32 option"
  op_km_preannounce :: "u32 option"

definition default_options :: srt_options where
  "default_options =
     \<lparr> op_latency = from_millis 120, op_peer_latency = 0, op_streamid = None, op_mss = 1500,
       op_flow_window = 8192, op_recv_buffer_pkts = 8192, op_send_buffer_pkts = 8192,
       op_connect_timeout = from_secs 3, op_peer_idle_timeout = from_secs 5,
       op_data_idle_timeout = None, op_bandwidth = Unlimited, op_passphrase = None,
       op_pbkeylen = None, op_km_refresh_rate = None, op_km_preannounce = None \<rparr>"

text \<open>The builder methods.\<close>

definition set_latency :: "duration \<Rightarrow> srt_options \<Rightarrow> srt_options" where
  "set_latency d opts = opts\<lparr> op_latency := d \<rparr>"

definition set_peer_latency :: "duration \<Rightarrow> srt_options \<Rightarrow> srt_options" where
  "set_peer_latency d opts = opts\<lparr> op_peer_latency := d \<rparr>"

definition set_streamid :: "bytes \<Rightarrow> srt_options \<Rightarrow> srt_options" where
  "set_streamid s opts = opts\<lparr> op_streamid := Some s \<rparr>"

definition set_connect_timeout :: "duration \<Rightarrow> srt_options \<Rightarrow> srt_options" where
  "set_connect_timeout d opts = opts\<lparr> op_connect_timeout := d \<rparr>"

definition set_peer_idle_timeout :: "duration \<Rightarrow> srt_options \<Rightarrow> srt_options" where
  "set_peer_idle_timeout d opts = opts\<lparr> op_peer_idle_timeout := d \<rparr>"

definition set_data_idle_timeout :: "duration \<Rightarrow> srt_options \<Rightarrow> srt_options" where
  "set_data_idle_timeout d opts = opts\<lparr> op_data_idle_timeout := Some d \<rparr>"

definition set_bandwidth :: "bandwidth \<Rightarrow> srt_options \<Rightarrow> srt_options" where
  "set_bandwidth b opts = opts\<lparr> op_bandwidth := b \<rparr>"

definition set_passphrase :: "bytes \<Rightarrow> srt_options \<Rightarrow> srt_options" where
  "set_passphrase pw opts = opts\<lparr> op_passphrase := Some pw \<rparr>"

definition set_pbkeylen :: "key_length \<Rightarrow> srt_options \<Rightarrow> srt_options" where
  "set_pbkeylen l opts = opts\<lparr> op_pbkeylen := Some l \<rparr>"

definition max_payload :: "srt_options \<Rightarrow> nat" where
  "max_payload opts = unat (op_mss opts) - 44"

definition crypto_config_of :: "srt_options \<Rightarrow> (crypto_config option, srt_error) outcome" where
  "crypto_config_of opts =
     (case op_passphrase opts of
        None \<Rightarrow> Ok None
      | Some pw \<Rightarrow>
        if pw = [] then Ok None
        else if length pw < PASSPHRASE_MIN \<or> length pw > PASSPHRASE_MAX then Err InvalidPassphrase
        else
          let rr_explicit = (op_km_refresh_rate opts \<noteq> None \<and> op_km_refresh_rate opts \<noteq> Some 0) in
          bind_outcome
            (case op_km_refresh_rate opts of
               None \<Rightarrow> Ok 0x01000000
             | Some rr \<Rightarrow>
                 if rr = 0 then Ok 0x01000000
                 else if rr \<ge> 0x80000000 then
                   Err (InvalidKmParameters ''km_refresh_rate must be < 2^31 (CTR keystream reuse)'')
                 else Ok (unat rr)) (\<lambda>rr.
          let max_pa = (rr - 1) div 2 in
          bind_outcome
            (if op_km_preannounce opts = None \<or> op_km_preannounce opts = Some 0 then
               Ok (if rr_explicit then max_pa else 0x10000)
             else
               let pa = unat (the (op_km_preannounce opts)) in
               if pa > max_pa then
                 Err (InvalidKmParameters ''km_preannounce must be <= (km_refresh_rate - 1) / 2'')
               else Ok pa) (\<lambda>pa.
          Ok (Some \<lparr> cc_passphrase = pw,
                     cc_key_len = (case op_pbkeylen opts of None \<Rightarrow> Aes128 | Some l \<Rightarrow> l),
                     cc_km_refresh_rate = rr,
                     cc_km_preannounce = pa \<rparr>))))"

definition crypto_config_valid :: "crypto_config \<Rightarrow> bool" where
  "crypto_config_valid c \<longleftrightarrow>
     PASSPHRASE_MIN \<le> length (cc_passphrase c) \<and> length (cc_passphrase c) \<le> PASSPHRASE_MAX
   \<and> 0 < cc_km_refresh_rate c \<and> cc_km_refresh_rate c < 2 ^ 31
   \<and> 2 * cc_km_preannounce c < cc_km_refresh_rate c"

lemma unat_lt_pow31: "\<not> (0x80000000 :: u32) \<le> rr \<Longrightarrow> unat rr < 2147483648"
  by (simp add: word_le_nat_alt)

lemma half_below: "0 < rr \<Longrightarrow> pa \<le> (rr - 1) div 2 \<Longrightarrow> 2 * pa < (rr :: nat)"
  by presburger

text \<open>
  C40.  Resolved encryption options are usable: whenever \<open>crypto_config\<close> accepts the options, the
  passphrase has 10 to 80 bytes, a SEK is refreshed before the 31-bit sequence number can wrap, and
  the pre-announce window fits strictly inside half the refresh period; it never panics.
\<close>

theorem crypto_config_of_valid:
  "crypto_config_of opts \<noteq> Panic
   \<and> (\<forall>c. crypto_config_of opts = Ok (Some c) \<longrightarrow> crypto_config_valid c)"
proof (cases "op_passphrase opts")
  case None
  then show ?thesis by (simp add: crypto_config_of_def)
next
  case pw: (Some pw)
  show ?thesis
  proof (cases "op_km_refresh_rate opts")
    case None
    then show ?thesis
      by (cases "op_km_preannounce opts")
        (auto simp: crypto_config_of_def pw Let_def crypto_config_valid_def)
  next
    case rr: (Some rr)
    have "2 * pa < unat rr" if "rr \<noteq> 0" "pa \<le> (unat rr - 1) div 2" for pa
      using half_below [of "unat rr" pa] that by (simp add: unat_gt_0)
    then show ?thesis
      by (cases "op_km_preannounce opts")
        (auto simp: crypto_config_of_def pw rr Let_def crypto_config_valid_def unat_gt_0
          unat_lt_pow31)
  qed
qed

theorem crypto_config_of_valid_witness:
  "crypto_config_of (default_options\<lparr> op_passphrase := Some (replicate 12 65), op_km_refresh_rate := Some 9 \<rparr>)
     = Ok (Some \<lparr> cc_passphrase = replicate 12 65, cc_key_len = Aes128, cc_km_refresh_rate = 9,
                  cc_km_preannounce = 4 \<rparr>)
   \<and> crypto_config_valid \<lparr> cc_passphrase = replicate 12 65, cc_key_len = Aes128,
        cc_km_refresh_rate = 9, cc_km_preannounce = 4 \<rparr>"
proof -
  let ?o = "default_options\<lparr> op_passphrase := Some (replicate 12 65), op_km_refresh_rate := Some 9 \<rparr>"
  have "crypto_config_of ?o = Ok (Some \<lparr> cc_passphrase = replicate 12 65, cc_key_len = Aes128,
      cc_km_refresh_rate = 9, cc_km_preannounce = 4 \<rparr>)"
    by (simp add: crypto_config_of_def default_options_def PASSPHRASE_MIN_def PASSPHRASE_MAX_def)
  with crypto_config_of_valid [of ?o] show ?thesis by blast
qed

end
