(* ===== verification/Pacing.thy ===== *)
theory Pacing
  imports Float64 Srt_Options
begin

text \<open>
  LiveCC pacing (\<open>src/core/pacing.rs\<close>): the input-rate estimator, the send-interval formula and
  the lateness-credit schedule.  \<open>u64\<close> counters are naturals; \<open>saturating_mul\<close> saturates.
\<close>

section \<open>Constants and arithmetic\<close>

definition U64_MAX :: nat where "U64_MAX = 2 ^ 64 - 1"
definition BW_INFINITE :: nat where "BW_INFINITE = 125000000"
definition DATA_HDR_SIZE :: nat where "DATA_HDR_SIZE = 44"
definition LIVE_DEF_PAYLOAD :: nat where "LIVE_DEF_PAYLOAD = 1316"
definition INPUTRATE_FAST_START :: duration where "INPUTRATE_FAST_START = from_millis 500"
definition INPUTRATE_RUNNING :: duration where "INPUTRATE_RUNNING = from_secs 1"
definition INPUTRATE_MAX_PACKETS :: nat where "INPUTRATE_MAX_PACKETS = 2000"

definition saturating_mul :: "nat \<Rightarrow> nat \<Rightarrow> nat" where
  "saturating_mul a b = min (a * b) U64_MAX"

definition avg_iir :: "nat \<Rightarrow> nat \<Rightarrow> nat \<Rightarrow> nat" where
  "avg_iir n old sample = (old * (n - 1) + sample) div n"

definition with_overhead :: "nat \<Rightarrow> nat \<Rightarrow> nat" where
  "with_overhead base pct = saturating_mul base (100 + pct) div 100"

section \<open>Input-rate estimator\<close>

record input_rate_estimator =
  ir_period :: duration
  ir_window_start :: "instant option"
  ir_pkts :: nat
  ir_bytes :: nat
  ir_rate :: "nat option"

definition estimator_new :: input_rate_estimator where
  "estimator_new = \<lparr> ir_period = INPUTRATE_FAST_START, ir_window_start = None, ir_pkts = 0,
     ir_bytes = 0, ir_rate = None \<rparr>"

definition estimator_on_input :: "input_rate_estimator \<Rightarrow> instant \<Rightarrow> nat \<Rightarrow> input_rate_estimator" where
  "estimator_on_input est now payload_len =
     (case ir_window_start est of
        None \<Rightarrow> est\<lparr> ir_window_start := Some now \<rparr>
      | Some start \<Rightarrow>
          let pkts = ir_pkts est + 1;
              bytes = ir_bytes est + payload_len;
              early = (ir_period est < INPUTRATE_RUNNING \<and> pkts > INPUTRATE_MAX_PACKETS);
              elapsed_us = as_micros (since now start) in
          if (early \<or> elapsed_us > as_micros (ir_period est)) \<and> elapsed_us \<ge> 1 then
            let total = bytes + pkts * DATA_HDR_SIZE in
            est\<lparr> ir_rate := Some (saturating_mul total 1000000 div elapsed_us),
                 ir_pkts := 0, ir_bytes := 0,
                 ir_window_start := Some now, ir_period := INPUTRATE_RUNNING \<rparr>
          else est\<lparr> ir_pkts := pkts, ir_bytes := bytes \<rparr>)"

definition ceiling_input :: "input_rate_estimator \<Rightarrow> nat" where
  "ceiling_input est = (case ir_rate est of Some r \<Rightarrow> r | None \<Rightarrow> BW_INFINITE)"

definition measured :: "input_rate_estimator \<Rightarrow> nat" where
  "measured est = (case ir_rate est of Some r \<Rightarrow> r | None \<Rightarrow> 0)"

section \<open>The pacer\<close>

datatype pacer_mode = Fixed | Estimated input_rate_estimator nat nat

record pacer =
  pc_mode :: pacer_mode
  pc_max_bw :: nat
  pc_avg_payload :: nat
  pc_period :: duration
  pc_next_send_time :: "instant option"
  pc_credit :: duration

definition recompute_period :: "pacer \<Rightarrow> pacer" where
  "recompute_period p =
     p\<lparr> pc_period := from_micros (f64_as_u64
          (f64_div (f64_mul 1000000 (f64_of_u64 (pc_avg_payload p + DATA_HDR_SIZE)))
                   (f64_of_u64 (max (pc_max_bw p) 1)))) \<rparr>"

definition pacer_new :: "bandwidth \<Rightarrow> nat \<Rightarrow> pacer option" where
  "pacer_new bw max_pl =
     (let mk = (\<lambda>mode max_bw.
            Some (recompute_period
              \<lparr> pc_mode = mode, pc_max_bw = max_bw, pc_avg_payload = min LIVE_DEF_PAYLOAD max_pl,
                pc_period = 0, pc_next_send_time = None, pc_credit = 0 \<rparr>)) in
      case bw of
        Unlimited \<Rightarrow> None
      | MaxBw bps \<Rightarrow> mk Fixed bps
      | InputBw bps pct \<Rightarrow> mk Fixed (with_overhead bps pct)
      | EstimatedBw floor_bps pct \<Rightarrow> mk (Estimated estimator_new floor_bps pct) BW_INFINITE)"

definition pacer_on_input :: "pacer \<Rightarrow> instant \<Rightarrow> nat \<Rightarrow> pacer" where
  "pacer_on_input p now payload_len =
     (case pc_mode p of
        Estimated est floor_bps pct \<Rightarrow>
          p\<lparr> pc_mode := Estimated (estimator_on_input est now payload_len) floor_bps pct \<rparr>
      | Fixed \<Rightarrow> p)"

definition pacer_refresh :: "pacer \<Rightarrow> pacer" where
  "pacer_refresh p =
     recompute_period
       (case pc_mode p of
          Estimated est floor_bps pct \<Rightarrow>
            let bw = with_overhead (max floor_bps (ceiling_input est)) pct in
            if bw > 0 then p\<lparr> pc_max_bw := bw \<rparr> else p
        | Fixed \<Rightarrow> p)"

definition pacer_on_send :: "pacer \<Rightarrow> instant \<Rightarrow> nat \<Rightarrow> bool \<Rightarrow> pacer" where
  "pacer_on_send p0 now payload_len probe =
     (let p = p0\<lparr> pc_avg_payload := avg_iir 128 (pc_avg_payload p0) payload_len \<rparr> in
      if probe then p\<lparr> pc_next_send_time := Some now \<rparr>
      else if pc_credit p \<ge> pc_period p then
        p\<lparr> pc_next_send_time := Some now, pc_credit := pc_credit p - pc_period p \<rparr>
      else p\<lparr> pc_next_send_time := Some (now + (pc_period p - pc_credit p)), pc_credit := 0 \<rparr>)"

definition pacer_on_nothing_to_send :: "pacer \<Rightarrow> pacer" where
  "pacer_on_nothing_to_send p = p\<lparr> pc_next_send_time := None, pc_credit := 0 \<rparr>"

definition pacer_deadline :: "pacer \<Rightarrow> instant option" where
  "pacer_deadline p = pc_next_send_time p"

definition period_us :: "pacer \<Rightarrow> nat" where
  "period_us p = as_micros (pc_period p)"

definition input_rate :: "pacer \<Rightarrow> nat" where
  "input_rate p = (case pc_mode p of Estimated est _ _ \<Rightarrow> measured est | Fixed \<Rightarrow> 0)"

text \<open>
  The gate at the head of \<open>Sender::poll_transmit\<close>: \<open>None\<close> while the schedule is in the future,
  otherwise the lateness is banked as credit.
\<close>

definition pace_gate :: "pacer \<Rightarrow> instant \<Rightarrow> pacer option" where
  "pace_gate p now =
     (case pc_next_send_time p of
        Some t \<Rightarrow> if now < t then None else Some (p\<lparr> pc_credit := pc_credit p + (now - t) \<rparr>)
      | None \<Rightarrow> Some p)"

section \<open>Invariant\<close>

text \<open>The ceiling is never zero, and average payloads stay within what was submitted.\<close>

definition pacer_inv :: "nat \<Rightarrow> pacer \<Rightarrow> bool" where
  "pacer_inv mx p \<longleftrightarrow> 0 < pc_max_bw p \<and> pc_avg_payload p \<le> mx"

lemma avg_iir_le: "0 < n \<Longrightarrow> old \<le> m \<Longrightarrow> x \<le> m \<Longrightarrow> avg_iir n old x \<le> m"
proof -
  assume n: "0 < n" "old \<le> m" "x \<le> m"
  then have "old * (n - 1) + x \<le> m * (n - 1) + m" by (intro add_mono mult_le_mono1)
  also have "\<dots> = m * n" using n(1) by (cases n) simp_all
  finally have "(old * (n - 1) + x) div n \<le> m * n div n" by (rule div_le_mono)
  then show ?thesis using n(1) by (simp add: avg_iir_def)
qed

lemma with_overhead_pos: "0 < b \<Longrightarrow> 0 < with_overhead b pct"
proof -
  assume "0 < b"
  then have "100 \<le> b * (100 + pct)"
    by (metis One_nat_def Suc_leI le_add1 mult_le_mono nat_mult_1)
  then have "100 \<le> saturating_mul b (100 + pct)" by (simp add: saturating_mul_def U64_MAX_def)
  then show ?thesis by (simp add: with_overhead_def div_greater_zero_iff)
qed

lemma recompute_period_sel [simp]:
  "pc_mode (recompute_period p) = pc_mode p" "pc_max_bw (recompute_period p) = pc_max_bw p"
  "pc_avg_payload (recompute_period p) = pc_avg_payload p"
  "pc_next_send_time (recompute_period p) = pc_next_send_time p"
  "pc_credit (recompute_period p) = pc_credit p"
  by (simp_all add: recompute_period_def)

lemma pacer_new_inv:
  assumes "bandwidth_validate bw = Ok ()" "pacer_new bw max_pl = Some p"
  shows "pacer_inv (min LIVE_DEF_PAYLOAD max_pl) p"
  using assms
  by (cases bw) (auto simp: pacer_new_def pacer_inv_def with_overhead_pos BW_INFINITE_def split: if_splits)

lemma pacer_inv_mono: "pacer_inv m p \<Longrightarrow> m \<le> n \<Longrightarrow> pacer_inv n p"
  by (simp add: pacer_inv_def)

lemma pacer_inv_ops:
  assumes "pacer_inv m p"
  shows "pacer_inv m (pacer_on_input p now len)" "pacer_inv m (pacer_refresh p)"
    "len \<le> m \<Longrightarrow> pacer_inv m (pacer_on_send p now len probe)"
    "pacer_inv m (pacer_on_nothing_to_send p)" "pace_gate p now = Some p' \<Longrightarrow> pacer_inv m p'"
  using assms
  by (auto simp: pacer_inv_def pacer_on_input_def pacer_refresh_def pacer_on_send_def Let_def avg_iir_le
      pacer_on_nothing_to_send_def pace_gate_def split: pacer_mode.splits option.splits if_splits)

section \<open>Guarantees\<close>

text \<open>
  C35.  The floating-point send interval is exact: for every ceiling and every average payload a
  32-bit payload size allows, the truncated \<open>f64\<close> formula equals the integer quotient
  \<open>10^6 * (avg + 44) / max_bw\<close> in microseconds.
\<close>

theorem recompute_period_exact:
  assumes "pc_avg_payload p < 2 ^ 32"
  shows "pc_period (recompute_period p)
    = from_micros (1000000 * (pc_avg_payload p + DATA_HDR_SIZE) div max (pc_max_bw p) 1)"
proof -
  define a where "a = pc_avg_payload p + DATA_HDR_SIZE"
  have small: "a < 2 ^ 53" "1000000 * a < 2 ^ 53"
    using assms by (simp_all add: a_def DATA_HDR_SIZE_def)
  have "f64_mul 1000000 (f64_of_u64 a) = f64_of_u64 (1000000 * a)"
    unfolding f64_of_u64_exact [OF small(1)] by (simp add: f64_mul_def f64_of_u64_def)
  also have "\<dots> = of_nat (1000000 * a)" using small(2) by (rule f64_of_u64_exact)
  finally have "f64_as_u64 (f64_div (f64_mul 1000000 (f64_of_u64 a)) (f64_of_u64 (max (pc_max_bw p) 1)))
      = 1000000 * a div max (pc_max_bw p) 1"
    using f64_div_u64 [of "max (pc_max_bw p) 1" "1000000 * a"] small(2) by simp
  then show ?thesis by (simp add: recompute_period_def a_def)
qed

theorem recompute_period_exact_witness:
  "let p = \<lparr> pc_mode = Fixed, pc_max_bw = 125000000, pc_avg_payload = 1316, pc_period = 0,
             pc_next_send_time = None, pc_credit = 0 \<rparr> in
   pc_avg_payload p < 2 ^ 32 \<and> pc_period (recompute_period p) = 10000"
  using recompute_period_exact [of "\<lparr> pc_mode = Fixed, pc_max_bw = 125000000, pc_avg_payload = 1316,
      pc_period = 0, pc_next_send_time = None, pc_credit = 0 \<rparr>"]
  by (simp add: DATA_HDR_SIZE_def from_micros_def)

text \<open>
  A busy stretch: every send passes the gate at its instant, with no idle reset and no rate refresh
  in between.  \<open>virtual_time\<close> is the schedule minus the banked credit.
\<close>

fun paced_burst :: "pacer \<Rightarrow> (instant \<times> nat \<times> bool) list \<Rightarrow> pacer option" where
  "paced_burst p [] = Some p"
| "paced_burst p ((now, len, probe) # sends) =
     (case pace_gate p now of
        None \<Rightarrow> None
      | Some p1 \<Rightarrow> paced_burst (pacer_on_send p1 now len probe) sends)"

definition nonprobes :: "(instant \<times> nat \<times> bool) list \<Rightarrow> nat" where
  "nonprobes sends = length (filter (\<lambda>(_, _, probe). \<not> probe) sends)"

definition virtual_time :: "pacer \<Rightarrow> int" where
  "virtual_time p = (case pc_next_send_time p of Some t \<Rightarrow> int t - int (pc_credit p) | None \<Rightarrow> 0)"

lemma paced_send_step:
  assumes "pc_next_send_time p = Some t" "pace_gate p now = Some p1"
    and p2_def: "p2 = pacer_on_send p1 now len probe"
  shows "t \<le> now" "\<exists>t'. pc_next_send_time p2 = Some t'" "pc_period p2 = pc_period p"
    "virtual_time p2 = virtual_time p + (if probe then 0 else int (pc_period p))"
  using assms
  by (auto simp: pace_gate_def pacer_on_send_def p2_def Let_def virtual_time_def of_nat_diff split: if_splits)

lemma paced_burst_append:
  "paced_burst p (xs @ ys) = (case paced_burst p xs of None \<Rightarrow> None | Some p' \<Rightarrow> paced_burst p' ys)"
  by (induction p xs rule: paced_burst.induct) (auto split: option.splits)

lemma paced_burst_virtual:
  "pc_next_send_time p = Some t \<Longrightarrow> paced_burst p sends = Some p' \<Longrightarrow>
   (\<exists>t'. pc_next_send_time p' = Some t') \<and> pc_period p' = pc_period p
   \<and> virtual_time p' = virtual_time p + int (pc_period p) * int (nonprobes sends)"
proof (induction p sends arbitrary: t rule: paced_burst.induct)
  case (2 p now len probe sends)
  then obtain p1 where p1: "pace_gate p now = Some p1"
    "paced_burst (pacer_on_send p1 now len probe) sends = Some p'"
    by (auto split: option.splits)
  note st = paced_send_step [OF 2(2) p1(1) refl]
  from st(2) obtain t1 where "pc_next_send_time (pacer_on_send p1 now len probe) = Some t1" ..
  from 2(1) [OF p1(1) this p1(2)] st show ?case
    by (auto simp: nonprobes_def algebra_simps)
qed (simp add: nonprobes_def)

text \<open>
  C36.  Pacing conserves the rate.  Within a busy stretch the virtual schedule advances by exactly
  one period per packet (probe-pair packets ride free), so late polls earn no extra packets: a
  packet that follows \<open>k\<close> unprobed ones never leaves before \<open>k\<close> periods past the schedule the
  stretch started from, less the credit banked then.
\<close>

theorem pacing_rate_bound:
  assumes "pc_next_send_time p = Some t"
    and "paced_burst p (pre @ [(now, len, probe)]) = Some p'"
  shows "t + pc_period p * nonprobes pre \<le> now + pc_credit p
    \<and> (\<exists>t'. pc_next_send_time p' = Some t'
         \<and> t' + pc_credit p = t + pc_credit p' + pc_period p * nonprobes (pre @ [(now, len, probe)]))"
proof -
  obtain q where q: "paced_burst p pre = Some q" "paced_burst q [(now, len, probe)] = Some p'"
    using assms(2) by (auto simp: paced_burst_append split: option.splits)
  from paced_burst_virtual [OF assms(1) q(1)] obtain tq where
    tq: "pc_next_send_time q = Some tq" "pc_period q = pc_period p"
      "virtual_time q = virtual_time p + int (pc_period p) * int (nonprobes pre)"
    by blast
  have "tq \<le> now" using q(2) tq(1) by (auto simp: pace_gate_def split: if_splits)
  moreover have "int tq - int (pc_credit q) = int t - int (pc_credit p) + int (pc_period p * nonprobes pre)"
    using tq assms(1) by (simp add: virtual_time_def)
  ultimately have first: "t + pc_period p * nonprobes pre \<le> now + pc_credit p" by linarith
  from paced_burst_virtual [OF assms] obtain t' where t': "pc_next_send_time p' = Some t'"
    "virtual_time p' = virtual_time p + int (pc_period p) * int (nonprobes (pre @ [(now, len, probe)]))"
    by blast
  then have "int t' - int (pc_credit p') = int t - int (pc_credit p)
      + int (pc_period p * nonprobes (pre @ [(now, len, probe)]))"
    using assms(1) by (simp add: virtual_time_def)
  then have "t' + pc_credit p = t + pc_credit p' + pc_period p * nonprobes (pre @ [(now, len, probe)])"
    by linarith
  with first t'(1) show ?thesis by blast
qed

theorem pacing_rate_bound_witness:
  "let p = \<lparr> pc_mode = Fixed, pc_max_bw = 1000000, pc_avg_payload = 956, pc_period = 1000,
             pc_next_send_time = Some 5000, pc_credit = 0 \<rparr>;
       sends = [(5000, 956, False), (7500, 956, False), (7500, 956, False)] in
   paced_burst p sends \<noteq> None \<and> 5000 + 1000 * nonprobes (butlast sends) \<le> 7500"
proof -
  let ?p = "\<lparr> pc_mode = Fixed, pc_max_bw = 1000000, pc_avg_payload = 956, pc_period = 1000,
             pc_next_send_time = Some 5000, pc_credit = 0 \<rparr>"
  have run: "paced_burst ?p ([(5000, 956, False), (7500, 956, False)] @ [(7500, 956, False)]) =
      Some \<lparr> pc_mode = Fixed, pc_max_bw = 1000000, pc_avg_payload = 956, pc_period = 1000,
             pc_next_send_time = Some 8000, pc_credit = 0 \<rparr>"
    by (simp add: pace_gate_def pacer_on_send_def avg_iir_def)
  from pacing_rate_bound [OF _ run, of 5000] run show ?thesis by simp
qed

end
