(* ===== verification/Sender.thy ===== *)
theory Sender
  imports Pacing Packet_Control Time_Base Crypto_Context
begin

text \<open>
  The live-mode sender (\<open>src/core/sender.rs\<close>): send buffer, retransmission, flow window, pacing and
  too-late packet drop.

  Extended indices (\<open>u64\<close>, \<open>i64\<close>) are naturals and integers; the \<open>BTreeSet\<close> loss list is a sorted
  list without duplicates, so \<open>pop_first\<close> takes its head and \<open>split_off\<close> filters it.  Indexing
  the buffer out of range is \<open>Panic\<close>.
\<close>

section \<open>State\<close>

definition ACKACK_THROTTLE :: duration where "ACKACK_THROTTLE = from_millis 10"
definition TLPKTDROP_MIN_THRESHOLD :: duration where "TLPKTDROP_MIN_THRESHOLD = from_millis 1000"
definition TLPKTDROP_REACTION :: duration where "TLPKTDROP_REACTION = from_millis 20"
definition INITIAL_RTT_US :: u32 where "INITIAL_RTT_US = 100000"
definition INITIAL_RTT_VAR_US :: u32 where "INITIAL_RTT_VAR_US = 50000"

record sender_config =
  sc_initial_seq :: seq_number
  sc_flow_window :: u32
  sc_snd_latency :: duration
  sc_max_payload :: nat
  sc_buffer_pkts :: nat
  sc_bandwidth :: bandwidth
  sc_timebase :: timebase

record sender_stats =
  ss_pkts_sent :: nat
  ss_bytes_sent :: nat
  ss_pkts_retransmitted :: nat
  ss_pkts_dropped :: nat
  ss_snd_period_us :: nat
  ss_snd_max_bw :: nat
  ss_snd_input_rate :: nat

record buf_entry =
  be_msg :: msg_number
  be_origin :: instant
  be_ts :: timestamp
  be_last_rexmit :: "instant option"
  be_encryption :: encryption_flags
  be_payload :: bytes

record sender =
  sn_cfg :: sender_config
  sn_buffer :: "buf_entry list"
  sn_base_index :: nat
  sn_next_send_index :: nat
  sn_last_ack_index :: nat
  sn_next_msg :: msg_number
  sn_advertised_window :: u32
  sn_loss_list :: "nat list"
  sn_control_queue :: "control_type list"
  sn_last_ackack_number :: u32
  sn_last_ackack_time :: "instant option"
  sn_rtt_us :: u32
  sn_rtt_var_us :: u32
  sn_rtt_adopted :: bool
  sn_protocol_violation :: bool
  sn_pacer :: "pacer option"
  sn_stats :: sender_stats

definition sender_stats_default :: sender_stats where
  "sender_stats_default = \<lparr> ss_pkts_sent = 0, ss_bytes_sent = 0, ss_pkts_retransmitted = 0,
     ss_pkts_dropped = 0, ss_snd_period_us = 0, ss_snd_max_bw = 0, ss_snd_input_rate = 0 \<rparr>"

definition sender_new :: "sender_config \<Rightarrow> sender" where
  "sender_new cfg =
     \<lparr> sn_cfg = cfg, sn_buffer = [], sn_base_index = 0, sn_next_send_index = 0, sn_last_ack_index = 0,
       sn_next_msg = msg_new 1, sn_advertised_window = sc_flow_window cfg, sn_loss_list = [],
       sn_control_queue = [], sn_last_ackack_number = 0, sn_last_ackack_time = None,
       sn_rtt_us = INITIAL_RTT_US, sn_rtt_var_us = INITIAL_RTT_VAR_US, sn_rtt_adopted = False,
       sn_protocol_violation = False,
       sn_pacer = pacer_new (sc_bandwidth cfg) (sc_max_payload cfg),
       sn_stats = sender_stats_default \<rparr>"

section \<open>Derived quantities\<close>

definition flight :: "sender \<Rightarrow> nat" where
  "flight s = sn_next_send_index s - sn_last_ack_index s"

definition effective_window :: "sender \<Rightarrow> u32" where
  "effective_window s = min (sc_flow_window (sn_cfg s)) (sn_advertised_window s)"

definition seq_at :: "sender \<Rightarrow> nat \<Rightarrow> seq_number" where
  "seq_at s index = seq_new (of_nat (unat (seq_value (sc_initial_seq (sn_cfg s))) + index))"

definition ext_of :: "sender \<Rightarrow> seq_number \<Rightarrow> int" where
  "ext_of s sq = int (sn_base_index s) + seq_diff sq (seq_at s (sn_base_index s))"

definition drop_threshold :: "sender \<Rightarrow> duration" where
  "drop_threshold s = max (sc_snd_latency (sn_cfg s)) TLPKTDROP_MIN_THRESHOLD + TLPKTDROP_REACTION"

definition packet_at :: "sender \<Rightarrow> nat \<Rightarrow> bool \<Rightarrow> (data_packet, 'e) outcome" where
  "packet_at s index retransmitted =
     (if sn_base_index s \<le> index \<and> index - sn_base_index s < length (sn_buffer s) then
        let e = sn_buffer s ! (index - sn_base_index s) in
        Ok \<lparr> dp_seq = seq_at s index, dp_position = Only, dp_order = False,
             dp_encryption = be_encryption e, dp_retransmitted = retransmitted,
             dp_msg_number = be_msg e, dp_timestamp = be_ts e, dp_dst_socket_id = SocketId 0,
             dp_payload = be_payload e \<rparr>
      else Panic)"

section \<open>Dropping\<close>

text \<open>Callers pass \<open>0 < n \<le> len\<close>, as the source asserts.\<close>

definition drop_front :: "sender \<Rightarrow> nat \<Rightarrow> bool \<Rightarrow> sender" where
  "drop_front s n announce =
     (let first = seq_at s (sn_base_index s);
          last_seq = seq_at s (sn_base_index s + n - 1);
          base = sn_base_index s + n in
      s\<lparr> sn_buffer := drop n (sn_buffer s),
         sn_base_index := base,
         sn_next_send_index := max (sn_next_send_index s) base,
         sn_last_ack_index := max (sn_last_ack_index s) base,
         sn_loss_list := filter (\<lambda>i. base \<le> i) (sn_loss_list s),
         sn_stats := (sn_stats s)\<lparr> ss_pkts_dropped := ss_pkts_dropped (sn_stats s) + n \<rparr>,
         sn_control_queue :=
           (if announce then sn_control_queue s @ [DropRequest (msg_new 0) first last_seq]
            else sn_control_queue s) \<rparr>)"

definition too_late :: "sender \<Rightarrow> instant \<Rightarrow> nat" where
  "too_late s now = length (takeWhile (\<lambda>e. since now (be_origin e) \<ge> drop_threshold s) (sn_buffer s))"

definition check_tlpktdrop :: "sender \<Rightarrow> instant \<Rightarrow> sender" where
  "check_tlpktdrop s now =
     (if sn_buffer s = [] then s
      else
        let front = be_origin (hd (sn_buffer s)); back = be_origin (last (sn_buffer s)) in
        if since back front \<le> drop_threshold s then s
        else
          let n = too_late s now in
          if n > 0 then drop_front s n True else s)"

function drop_while_full :: "sender \<Rightarrow> sender" where
  "drop_while_full s =
     (if sn_buffer s \<noteq> [] \<and> length (sn_buffer s) \<ge> sc_buffer_pkts (sn_cfg s)
      then drop_while_full (drop_front s 1 False) else s)"
  by pat_completeness auto
termination
  by (relation "measure (\<lambda>s. length (sn_buffer s))") (auto simp: drop_front_def Let_def)

function drop_while_blocked :: "sender \<Rightarrow> sender" where
  "drop_while_blocked s =
     (if sn_buffer s \<noteq> [] \<and> flight s \<ge> unat (effective_window s)
      then drop_while_blocked (drop_front s 1 False) else s)"
  by pat_completeness auto
termination
  by (relation "measure (\<lambda>s. length (sn_buffer s))") (auto simp: drop_front_def Let_def)

declare drop_while_full.simps [simp del] drop_while_blocked.simps [simp del]

section \<open>Submission\<close>

definition succ_msg :: "msg_number \<Rightarrow> msg_number" where
  "succ_msg m = (let succ = msg_next m in if msg_value succ = 0 then msg_new 1 else succ)"

definition encrypt_payload ::
  "crypto_prims \<Rightarrow> crypto option \<Rightarrow> seq_number \<Rightarrow> bytes
   \<Rightarrow> (crypto option \<times> encryption_flags \<times> bytes, srt_error) outcome" where
  "encrypt_payload cp cr sq payload =
     (case cr of
        Some c \<Rightarrow>
          if payload \<noteq> [] then
            bind_outcome (encrypt cp c sq payload) (\<lambda>(c', kk, ct). Ok (Some c', kk, ct))
          else Ok (cr, EncNone, payload)
      | None \<Rightarrow> Ok (cr, EncNone, payload))"

definition push ::
  "crypto_prims \<Rightarrow> sender \<Rightarrow> instant \<Rightarrow> bytes \<Rightarrow> crypto option
   \<Rightarrow> (sender \<times> crypto option, srt_error) outcome" where
  "push cp s0 now payload cr =
     (if length payload > sc_max_payload (sn_cfg s0) then Err (PayloadTooLarge (length payload))
      else
        let s1 = s0\<lparr> sn_pacer := map_option (\<lambda>p. pacer_on_input p now (length payload)) (sn_pacer s0) \<rparr>;
            s2 = check_tlpktdrop s1 now;
            s3 = drop_while_full s2;
            s4 = drop_while_blocked s3;
            index = sn_base_index s4 + length (sn_buffer s4);
            msg = sn_next_msg s4 in
        bind_outcome (encrypt_payload cp cr (seq_at s4 index) payload) (\<lambda>(cr', encryption, wire).
        Ok (s4\<lparr> sn_next_msg := succ_msg msg,
                sn_buffer := sn_buffer s4 @
                  [\<lparr> be_msg = msg, be_origin = now,
                     be_ts = timebase_timestamp (sc_timebase (sn_cfg s4)) now,
                     be_last_rexmit = None, be_encryption = encryption, be_payload = wire \<rparr>] \<rparr>,
            cr')))"

section \<open>Acknowledgements and loss reports\<close>

definition refresh_pacer :: "sender \<Rightarrow> sender" where
  "refresh_pacer s = s\<lparr> sn_pacer := map_option pacer_refresh (sn_pacer s) \<rparr>"

definition release_acked :: "sender \<Rightarrow> int \<Rightarrow> sender" where
  "release_acked s ack_ext =
     (if ack_ext > int (sn_base_index s) then
        let n = min (nat (ack_ext - int (sn_base_index s))) (length (sn_buffer s));
            base = sn_base_index s + n in
        s\<lparr> sn_buffer := drop n (sn_buffer s), sn_base_index := base,
           sn_loss_list := filter (\<lambda>i. base \<le> i) (sn_loss_list s) \<rparr>
      else s)"

definition light_ack :: "sender \<Rightarrow> int \<Rightarrow> sender" where
  "light_ack s ack_ext =
     (if ack_ext \<ge> int (sn_last_ack_index s) then
        let off = nat (ack_ext - int (sn_last_ack_index s)) in
        s\<lparr> sn_advertised_window :=
             of_nat (unat (sn_advertised_window s) - min off (2 ^ 32 - 1)),
           sn_last_ack_index := nat ack_ext \<rparr>
      else s)"

definition adopt_rtt :: "sender \<Rightarrow> ack_cif \<Rightarrow> sender" where
  "adopt_rtt s cif =
     (case (ac_rtt_us cif, ac_rtt_var_us cif) of
        (Some rtt, Some rtt_var) \<Rightarrow>
          if sn_rtt_adopted s \<or> (rtt \<noteq> INITIAL_RTT_US \<and> rtt_var \<noteq> INITIAL_RTT_VAR_US)
          then s\<lparr> sn_rtt_us := rtt, sn_rtt_var_us := rtt_var, sn_rtt_adopted := True \<rparr>
          else s
      | _ \<Rightarrow> s)"

definition answer_ack :: "sender \<Rightarrow> instant \<Rightarrow> u32 \<Rightarrow> sender \<times> u32 option" where
  "answer_ack s now ack_number =
     (let throttle_open =
            (case sn_last_ackack_time s of None \<Rightarrow> True | Some t \<Rightarrow> since now t > ACKACK_THROTTLE) in
      if throttle_open \<or> ack_number = sn_last_ackack_number s
      then (s\<lparr> sn_last_ackack_number := ack_number, sn_last_ackack_time := Some now \<rparr>, Some ack_number)
      else (s, None))"

definition adopt_window :: "sender \<Rightarrow> int \<Rightarrow> ack_cif \<Rightarrow> sender" where
  "adopt_window s ack_ext cif =
     (if ack_ext \<ge> int (sn_last_ack_index s) then
        s\<lparr> sn_advertised_window :=
             (case ac_avail_buf_pkts cif of Some avail \<Rightarrow> avail | None \<Rightarrow> sn_advertised_window s),
           sn_last_ack_index := nat ack_ext \<rparr>
      else s)"

definition handle_ack ::
  "sender \<Rightarrow> instant \<Rightarrow> u32 \<Rightarrow> ack_cif \<Rightarrow> sender \<times> (u32 option, srt_error) outcome" where
  "handle_ack s now ack_number cif =
     (let ack_ext = ext_of s (ac_last_ack_seq cif) in
      if ack_ext > int (sn_next_send_index s) then
        (s\<lparr> sn_protocol_violation := True \<rparr>, Err (Closed CloseLocal))
      else
        let s1 = release_acked s ack_ext in
        if ac_rtt_us cif = None then (light_ack s1 ack_ext, Ok None)
        else
          let s2 = adopt_rtt s1 cif;
              (s3, ackack) = answer_ack s2 now ack_number;
              s4 = adopt_window s3 ack_ext cif in
          (refresh_pacer s4, Ok ackack))"

definition insert_losses :: "nat list \<Rightarrow> int \<Rightarrow> int \<Rightarrow> nat list" where
  "insert_losses l lo hi = fold insort_insert [nat lo ..< Suc (nat hi)] l"

text \<open>One range of the loop; \<open>None\<close> is the early return on a violation.\<close>

definition nak_range :: "sender \<Rightarrow> loss_range \<Rightarrow> sender option" where
  "nak_range s r =
     (let lo = ext_of s (lr_first r); hi = ext_of s (lr_last r);
          last_ack = int (sn_last_ack_index s) in
      if lo > hi \<or> hi \<ge> int (sn_next_send_index s) then None
      else if lo \<ge> last_ack then Some (s\<lparr> sn_loss_list := insert_losses (sn_loss_list s) lo hi \<rparr>)
      else if hi \<ge> last_ack then Some (s\<lparr> sn_loss_list := insert_losses (sn_loss_list s) last_ack hi \<rparr>)
      else if lr_first r \<noteq> lr_last r then
        Some (s\<lparr> sn_control_queue := sn_control_queue s @
                   [DropRequest (msg_new 0) (lr_first r) (lr_last r)] \<rparr>)
      else Some s)"

fun handle_nak :: "sender \<Rightarrow> loss_range list \<Rightarrow> sender" where
  "handle_nak s [] = refresh_pacer s"
| "handle_nak s (r # rs) =
     (case nak_range s r of
        None \<Rightarrow> s\<lparr> sn_protocol_violation := True \<rparr>
      | Some s' \<Rightarrow> handle_nak s' rs)"

definition sender_on_timer :: "sender \<Rightarrow> instant \<Rightarrow> sender" where
  "sender_on_timer s now = refresh_pacer (check_tlpktdrop s now)"

section \<open>Transmission\<close>

definition count_sent :: "sender \<Rightarrow> bytes \<Rightarrow> bool \<Rightarrow> sender" where
  "count_sent s payload rexmit =
     s\<lparr> sn_stats := (sn_stats s)\<lparr>
          ss_pkts_sent := ss_pkts_sent (sn_stats s) + 1,
          ss_bytes_sent := ss_bytes_sent (sn_stats s) + length payload,
          ss_pkts_retransmitted := ss_pkts_retransmitted (sn_stats s) + (if rexmit then 1 else 0) \<rparr> \<rparr>"

definition pace_sent :: "sender \<Rightarrow> instant \<Rightarrow> nat \<Rightarrow> bool \<Rightarrow> sender" where
  "pace_sent s now len probe = s\<lparr> sn_pacer := map_option (\<lambda>p. pacer_on_send p now len probe) (sn_pacer s) \<rparr>"

text \<open>The \<open>while let Some(index) = self.loss_list.pop_first()\<close> loop.\<close>

function rexmit_loop :: "sender \<Rightarrow> instant \<Rightarrow> duration \<Rightarrow> (sender \<times> data_packet option, 'e) outcome" where
  "rexmit_loop s now rexmit_window =
     (case sn_loss_list s of
        [] \<Rightarrow> Ok (s, None)
      | index # rest \<Rightarrow>
          let s1 = s\<lparr> sn_loss_list := rest \<rparr> in
          if index < sn_base_index s1 \<or> index \<ge> sn_next_send_index s1
          then rexmit_loop s1 now rexmit_window
          else
            let i = index - sn_base_index s1 in
            if i \<ge> length (sn_buffer s1) then Panic
            else if (case be_last_rexmit (sn_buffer s1 ! i) of
                       Some last_at \<Rightarrow> since now last_at < rexmit_window | None \<Rightarrow> False)
            then rexmit_loop s1 now rexmit_window
            else
              let s2 = s1\<lparr> sn_buffer := (sn_buffer s1)[i := (sn_buffer s1 ! i)\<lparr> be_last_rexmit := Some now \<rparr>] \<rparr> in
              bind_outcome (packet_at s2 index True) (\<lambda>pkt.
              Ok (pace_sent (count_sent s2 (dp_payload pkt) True) now (length (dp_payload pkt)) False,
                  Some pkt)))"
  by pat_completeness auto
termination
  by (relation "measure (\<lambda>(s, _, _). length (sn_loss_list s))") auto

declare rexmit_loop.simps [simp del]

definition rexmit_window_of :: "sender \<Rightarrow> duration" where
  "rexmit_window_of s = from_micros (unat (sn_rtt_us s) - 4 * unat (sn_rtt_var_us s))"

definition send_new :: "sender \<Rightarrow> instant \<Rightarrow> (sender \<times> data_packet option, 'e) outcome" where
  "send_new s now =
     (let end_index = sn_base_index s + length (sn_buffer s) in
      if sn_next_send_index s < end_index \<and> flight s < unat (effective_window s) then
        let index = sn_next_send_index s;
            s1 = s\<lparr> sn_next_send_index := index + 1 \<rparr> in
        bind_outcome (packet_at s1 index False) (\<lambda>pkt.
        let probe = (seq_value (dp_seq pkt) AND 0xF = 0) in
        Ok (pace_sent (count_sent s1 (dp_payload pkt) False) now (length (dp_payload pkt)) probe, Some pkt))
      else Ok (s\<lparr> sn_pacer := map_option pacer_on_nothing_to_send (sn_pacer s) \<rparr>, None))"

definition gate_sender :: "sender \<Rightarrow> instant \<Rightarrow> sender option" where
  "gate_sender s now =
     (case sn_pacer s of
        None \<Rightarrow> Some s
      | Some p \<Rightarrow> map_option (\<lambda>p'. s\<lparr> sn_pacer := Some p' \<rparr>) (pace_gate p now))"

definition poll_transmit :: "sender \<Rightarrow> instant \<Rightarrow> (sender \<times> data_packet option, 'e) outcome" where
  "poll_transmit s now =
     (case gate_sender s now of
        None \<Rightarrow> Ok (s, None)
      | Some s1 \<Rightarrow>
          bind_outcome (rexmit_loop s1 now (rexmit_window_of s1)) (\<lambda>(s2, sent).
          case sent of Some pkt \<Rightarrow> Ok (s2, Some pkt) | None \<Rightarrow> send_new s2 now))"

definition sender_poll_control :: "sender \<Rightarrow> sender \<times> control_type option" where
  "sender_poll_control s =
     (case sn_control_queue s of
        [] \<Rightarrow> (s, None)
      | c # cs \<Rightarrow> (s\<lparr> sn_control_queue := cs \<rparr>, Some c))"

section \<open>Deadlines and gauges\<close>

definition sender_next_deadline :: "sender \<Rightarrow> instant option" where
  "sender_next_deadline s =
     (let threshold = drop_threshold s;
          drop_at = (if sn_buffer s \<noteq> [] \<and>
                        since (be_origin (last (sn_buffer s))) (be_origin (hd (sn_buffer s))) > threshold
                     then Some (be_origin (hd (sn_buffer s)) + threshold) else None);
          pace = (case sn_pacer s of None \<Rightarrow> None | Some p \<Rightarrow> pacer_deadline p) in
      case (drop_at, pace) of
        (Some d, Some p) \<Rightarrow> Some (min d p)
      | (Some d, None) \<Rightarrow> Some d
      | (None, p) \<Rightarrow> p)"

definition sender_stats_of :: "sender \<Rightarrow> sender_stats" where
  "sender_stats_of s =
     (case sn_pacer s of
        None \<Rightarrow> sn_stats s
      | Some p \<Rightarrow> (sn_stats s)\<lparr> ss_snd_period_us := period_us p, ss_snd_max_bw := pc_max_bw p,
                               ss_snd_input_rate := input_rate p \<rparr>)"

definition sender_rtt :: "sender \<Rightarrow> u32 \<times> u32" where
  "sender_rtt s = (sn_rtt_us s, sn_rtt_var_us s)"

definition sender_max_payload :: "sender \<Rightarrow> nat" where
  "sender_max_payload s = sc_max_payload (sn_cfg s)"

end
