(* ===== verification/Sender_Inv.thy ===== *)
theory Sender_Inv
  imports Sender Crypto_Engine
begin

text \<open>
  The sender's invariant, its preservation by every operation, and the relation between successive
  states: indices only advance and a buffered packet never changes.
\<close>

section \<open>Invariant\<close>

definition end_index :: "sender \<Rightarrow> nat" where
  "end_index s = sn_base_index s + length (sn_buffer s)"

definition entry_ok :: "nat \<Rightarrow> buf_entry \<Rightarrow> bool" where
  "entry_ok mx e \<longleftrightarrow> length (be_payload e) \<le> mx \<and> msg_ok (be_msg e) \<and> msg_value (be_msg e) \<noteq> 0"

definition dropreq_ok :: "control_type \<Rightarrow> bool" where
  "dropreq_ok c \<longleftrightarrow> (\<exists>f l. c = DropRequest (msg_new 0) f l \<and> seq_ok f \<and> seq_ok l)"

definition cursor_inv :: "sender \<Rightarrow> bool" where
  "cursor_inv s \<longleftrightarrow> sn_last_ack_index s = sn_base_index s
     \<and> sn_base_index s \<le> sn_next_send_index s \<and> sn_next_send_index s \<le> end_index s"

definition loss_inv :: "sender \<Rightarrow> bool" where
  "loss_inv s \<longleftrightarrow> sorted_wrt (<) (sn_loss_list s)
     \<and> set (sn_loss_list s) \<subseteq> {sn_base_index s ..< sn_next_send_index s}"

definition store_inv :: "sender \<Rightarrow> bool" where
  "store_inv s \<longleftrightarrow> length (sn_buffer s) \<le> max (sc_buffer_pkts (sn_cfg s)) 1
     \<and> (\<forall>e \<in> set (sn_buffer s). entry_ok (sc_max_payload (sn_cfg s)) e)
     \<and> msg_ok (sn_next_msg s) \<and> msg_value (sn_next_msg s) \<noteq> 0
     \<and> (\<forall>c \<in> set (sn_control_queue s). dropreq_ok c)
     \<and> (\<forall>p. sn_pacer s = Some p \<longrightarrow> pacer_inv (sc_max_payload (sn_cfg s)) p)"

definition sender_inv :: "sender \<Rightarrow> bool" where
  "sender_inv s \<longleftrightarrow> cursor_inv s \<and> loss_inv s \<and> store_inv s"

lemmas sender_inv_defs = sender_inv_def cursor_inv_def loss_inv_def store_inv_def end_index_def

section \<open>Evolution\<close>

text \<open>What of an entry is emitted: everything but the retransmission stamp.\<close>

definition static :: "buf_entry \<Rightarrow> buf_entry" where
  "static e = e\<lparr> be_last_rexmit := None \<rparr>"

definition entry_at :: "sender \<Rightarrow> nat \<Rightarrow> buf_entry" where
  "entry_at s i = static (sn_buffer s ! (i - sn_base_index s))"

definition evolves :: "sender \<Rightarrow> sender \<Rightarrow> bool" where
  "evolves s s' \<longleftrightarrow> sn_cfg s' = sn_cfg s \<and> sn_base_index s \<le> sn_base_index s'
     \<and> sn_next_send_index s \<le> sn_next_send_index s' \<and> end_index s \<le> end_index s'
     \<and> (\<forall>i. sn_base_index s' \<le> i \<longrightarrow> i < end_index s \<longrightarrow> entry_at s' i = entry_at s i)"

lemma evolves_refl [simp]: "evolves s s"
  by (simp add: evolves_def)

lemma evolves_trans: "evolves a b \<Longrightarrow> evolves b c \<Longrightarrow> evolves a c"
  by (auto simp: evolves_def)

lemma evolves_frame:
  "sn_cfg s' = sn_cfg s \<Longrightarrow> sn_base_index s' = sn_base_index s \<Longrightarrow>
   sn_next_send_index s' = sn_next_send_index s \<Longrightarrow> map static (sn_buffer s') = map static (sn_buffer s) \<Longrightarrow>
   evolves s s'"
proof -
  assume *: "sn_cfg s' = sn_cfg s" "sn_base_index s' = sn_base_index s"
    "sn_next_send_index s' = sn_next_send_index s" "map static (sn_buffer s') = map static (sn_buffer s)"
  then have "length (sn_buffer s') = length (sn_buffer s)" by (metis length_map)
  with * show ?thesis
    by (auto simp: evolves_def end_index_def entry_at_def) (metis add_less_cancel_left le_add_diff_inverse nth_map)
qed

section \<open>Dropping and releasing a prefix\<close>

lemma sorted_wrt_filter_less: "sorted_wrt (<) xs \<Longrightarrow> sorted_wrt (<) (filter P (xs :: nat list))"
  by (rule sorted_wrt_filter)

lemma drop_front_sel [simp]:
  "sn_cfg (drop_front s n a) = sn_cfg s" "sn_buffer (drop_front s n a) = drop n (sn_buffer s)"
  "sn_base_index (drop_front s n a) = sn_base_index s + n"
  "sn_next_send_index (drop_front s n a) = max (sn_next_send_index s) (sn_base_index s + n)"
  "sn_last_ack_index (drop_front s n a) = max (sn_last_ack_index s) (sn_base_index s + n)"
  "sn_loss_list (drop_front s n a) = filter (\<lambda>i. sn_base_index s + n \<le> i) (sn_loss_list s)"
  "sn_next_msg (drop_front s n a) = sn_next_msg s" "sn_pacer (drop_front s n a) = sn_pacer s"
  "sn_advertised_window (drop_front s n a) = sn_advertised_window s"
  "sn_control_queue (drop_front s n a) = sn_control_queue s @
     (if a then [DropRequest (msg_new 0) (seq_at s (sn_base_index s)) (seq_at s (sn_base_index s + n - 1))] else [])"
  by (simp_all add: drop_front_def Let_def)

lemma seq_at_ok [simp]: "seq_ok (seq_at s i)"
  by (simp add: seq_at_def)

lemma drop_front_inv:
  assumes "sender_inv s" "n \<le> length (sn_buffer s)"
  shows "sender_inv (drop_front s n a)" "evolves s (drop_front s n a)"
    "end_index (drop_front s n a) = end_index s"
proof -
  show "sender_inv (drop_front s n a)"
    using assms by (auto simp: sender_inv_defs dropreq_ok_def sorted_wrt_filter_less dest: in_set_dropD)
  show "evolves s (drop_front s n a)"
    using assms by (auto simp: evolves_def end_index_def entry_at_def sender_inv_defs)
  show "end_index (drop_front s n a) = end_index s"
    using assms(2) by (simp add: end_index_def)
qed

lemma check_tlpktdrop_inv:
  assumes "sender_inv s"
  shows "sender_inv (check_tlpktdrop s now)" "evolves s (check_tlpktdrop s now)"
    "end_index (check_tlpktdrop s now) = end_index s"
proof -
  have "too_late s now \<le> length (sn_buffer s)"
    by (simp add: too_late_def length_takeWhile_le)
  with assms show "sender_inv (check_tlpktdrop s now)" "evolves s (check_tlpktdrop s now)"
    "end_index (check_tlpktdrop s now) = end_index s"
    by (auto simp: check_tlpktdrop_def Let_def drop_front_inv)
qed

lemma drop_while_full_inv:
  "sender_inv s \<Longrightarrow> sender_inv (drop_while_full s) \<and> evolves s (drop_while_full s)
   \<and> end_index (drop_while_full s) = end_index s
   \<and> (length (sn_buffer (drop_while_full s)) < sc_buffer_pkts (sn_cfg s) \<or> sn_buffer (drop_while_full s) = [])"
proof (induction s rule: drop_while_full.induct)
  case (1 s)
  show ?case
  proof (cases "sn_buffer s \<noteq> [] \<and> sc_buffer_pkts (sn_cfg s) \<le> length (sn_buffer s)")
    case True
    then have "1 \<le> length (sn_buffer s)" by (simp add: Suc_le_eq)
    note d = drop_front_inv [OF 1(2) this, of False]
    have eq: "drop_while_full s = drop_while_full (drop_front s 1 False)"
      using True by (subst drop_while_full.simps) simp
    from 1(1) [OF True d(1)] show ?thesis
      unfolding eq using d(3) evolves_trans [OF d(2)] by auto
  next
    case False
    have eq: "drop_while_full s = s" using False by (subst drop_while_full.simps) auto
    from False 1(2) show ?thesis unfolding eq by auto
  qed
qed

lemma drop_while_blocked_inv:
  "sender_inv s \<Longrightarrow> sender_inv (drop_while_blocked s) \<and> evolves s (drop_while_blocked s)
   \<and> end_index (drop_while_blocked s) = end_index s
   \<and> length (sn_buffer (drop_while_blocked s)) \<le> length (sn_buffer s)
   \<and> sn_next_msg (drop_while_blocked s) = sn_next_msg s"
proof (induction s rule: drop_while_blocked.induct)
  case (1 s)
  show ?case
  proof (cases "sn_buffer s \<noteq> [] \<and> unat (effective_window s) \<le> flight s")
    case True
    then have "1 \<le> length (sn_buffer s)" by (simp add: Suc_le_eq)
    note d = drop_front_inv [OF 1(2) this, of False]
    have eq: "drop_while_blocked s = drop_while_blocked (drop_front s 1 False)"
      using True by (subst drop_while_blocked.simps) simp
    from 1(1) [OF True d(1)] show ?thesis
      unfolding eq using d(3) evolves_trans [OF d(2)] by auto
  next
    case False
    have eq: "drop_while_blocked s = s" using False by (subst drop_while_blocked.simps) auto
    from False 1(2) show ?thesis unfolding eq by auto
  qed
qed

section \<open>Submission\<close>

lemma succ_msg_ok: "msg_ok (succ_msg m)" "msg_value (succ_msg m) \<noteq> 0"
  by (simp_all add: succ_msg_def Let_def) (simp add: msg_new_def msg_value_def MSG_MASK_def)

definition crypto_ok :: "crypto_prims \<Rightarrow> crypto option \<Rightarrow> bool" where
  "crypto_ok cp cr \<longleftrightarrow> (\<forall>c. cr = Some c \<longrightarrow> crypto_inv cp c)"

lemma encrypt_payload_Ok:
  assumes "prims_ok cp" "crypto_ok cp cr"
  obtains cr' kk w where "encrypt_payload cp cr sq p = Ok (cr', kk, w)" "length w = length p"
    "crypto_ok cp cr'"
proof (cases "\<exists>c. cr = Some c \<and> p \<noteq> []")
  case True
  then obtain c where c: "cr = Some c" "p \<noteq> []" by blast
  obtain c' kk ct where e: "(encrypt cp c sq p :: (_, srt_error) outcome) = Ok (c', kk, ct)" "crypto_inv cp c'"
  proof (rule encrypt_total [where sq = sq and p = p and 'e = srt_error])
    show "crypto_inv cp c" using assms(2) c(1) by (simp add: crypto_ok_def)
    show "p \<noteq> []" by (rule c(2))
  qed
  moreover have "length ct = length p"
    using e(1) assms(1) by (auto simp: encrypt_def split: option.splits if_splits)
  ultimately show thesis using c that [of "Some c'" kk ct] by (simp add: encrypt_payload_def crypto_ok_def)
next
  case False
  then have "encrypt_payload cp cr sq p = Ok (cr, EncNone, p)"
    by (auto simp: encrypt_payload_def split: option.splits)
  with assms(2) show thesis by (intro that) simp_all
qed

text \<open>The state in which \<open>push\<close> appends: the late, the overflowing and the blocked are gone.\<close>

definition push_room :: "sender \<Rightarrow> instant \<Rightarrow> nat \<Rightarrow> sender" where
  "push_room s now len =
     drop_while_blocked (drop_while_full (check_tlpktdrop
       (s\<lparr> sn_pacer := map_option (\<lambda>p. pacer_on_input p now len) (sn_pacer s) \<rparr>) now))"

definition queued :: "sender \<Rightarrow> instant \<Rightarrow> encryption_flags \<Rightarrow> bytes \<Rightarrow> sender" where
  "queued s now kk wire =
     s\<lparr> sn_next_msg := succ_msg (sn_next_msg s),
        sn_buffer := sn_buffer s @
          [\<lparr> be_msg = sn_next_msg s, be_origin = now,
             be_ts = timebase_timestamp (sc_timebase (sn_cfg s)) now,
             be_last_rexmit = None, be_encryption = kk, be_payload = wire \<rparr>] \<rparr>"

lemma push_eq:
  "push cp s now payload cr =
     (if length payload > sc_max_payload (sn_cfg s) then Err (PayloadTooLarge (length payload))
      else let r = push_room s now (length payload) in
        bind_outcome (encrypt_payload cp cr (seq_at r (end_index r)) payload) (\<lambda>(cr', kk, wire).
        Ok (queued r now kk wire, cr')))"
  by (simp add: push_def push_room_def queued_def Let_def end_index_def)

lemma push_room_inv:
  assumes "sender_inv s" and r_def: "r = push_room s now len"
  shows "sender_inv r" "evolves s r" "end_index r = end_index s"
    "length (sn_buffer r) < max (sc_buffer_pkts (sn_cfg s)) 1" "sn_cfg r = sn_cfg s"
proof -
  define s1 where "s1 = s\<lparr> sn_pacer := map_option (\<lambda>p. pacer_on_input p now len) (sn_pacer s) \<rparr>"
  have s1: "sender_inv s1" "evolves s s1"
    using assms(1) by (auto simp: s1_def sender_inv_defs pacer_inv_ops intro: evolves_frame)
  note s2 = check_tlpktdrop_inv [OF s1(1), of now]
  note s3 = drop_while_full_inv [OF s2(1)]
  note s4 = drop_while_blocked_inv [OF conjunct1 [OF s3]]
  have r: "r = drop_while_blocked (drop_while_full (check_tlpktdrop s1 now))"
    by (simp add: r_def push_room_def s1_def)
  show "sender_inv r" using s4 by (simp add: r)
  show "end_index r = end_index s"
    using s2(3) s3 s4 by (simp add: r s1_def end_index_def)
  show ev: "evolves s r"
    unfolding r using s1(2) s2(2) s3 s4 by (blast intro: evolves_trans)
  then show "sn_cfg r = sn_cfg s" by (simp add: evolves_def)
  have "sn_cfg (check_tlpktdrop s1 now) = sn_cfg s"
    using s1(2) s2(2) by (simp add: evolves_def)
  then show "length (sn_buffer r) < max (sc_buffer_pkts (sn_cfg s)) 1"
    using s3 s4 by (auto simp: r)
qed

lemma queued_inv:
  assumes "sender_inv r" "length (sn_buffer r) < max (sc_buffer_pkts (sn_cfg r)) 1"
    "length wire \<le> sc_max_payload (sn_cfg r)"
  shows "sender_inv (queued r now kk wire)" "evolves r (queued r now kk wire)"
proof -
  show "sender_inv (queued r now kk wire)"
    using assms by (auto simp: queued_def sender_inv_defs entry_ok_def succ_msg_ok)
  show "evolves r (queued r now kk wire)"
    by (auto simp: evolves_def queued_def end_index_def entry_at_def nth_append)
qed

lemma push_Ok:
  assumes "sender_inv s" "prims_ok cp" "crypto_ok cp cr"
    and "length payload \<le> sc_max_payload (sn_cfg s)"
  obtains s' cr' where "push cp s now payload cr = Ok (s', cr')" "sender_inv s'" "evolves s s'"
    "crypto_ok cp cr'" "end_index s' = end_index s + 1"
proof -
  define r where "r = push_room s now (length payload)"
  note room = push_room_inv [OF assms(1) r_def]
  obtain cr' kk w where e: "encrypt_payload cp cr (seq_at r (end_index r)) payload = Ok (cr', kk, w)"
    "length w = length payload" "crypto_ok cp cr'"
    using assms(2,3) by (rule encrypt_payload_Ok)
  have q: "sender_inv (queued r now kk w)" "evolves r (queued r now kk w)"
    using room e(2) assms(4) by (auto intro!: queued_inv)
  have "end_index (queued r now kk w) = end_index s + 1"
    using room(3) by (simp add: end_index_def queued_def)
  then show thesis
    using assms(4) e q evolves_trans [OF room(2) q(2)]
    by (intro that) (simp_all add: push_eq r_def [symmetric])
qed

section \<open>Acknowledgements\<close>

text \<open>The effect of an acknowledgement up to index \<open>i\<close> on buffer, cursors and loss list.\<close>

definition acked :: "sender \<Rightarrow> nat \<Rightarrow> sender" where
  "acked s i = s\<lparr> sn_buffer := drop (i - sn_base_index s) (sn_buffer s), sn_base_index := i,
     sn_last_ack_index := i, sn_loss_list := filter (\<lambda>j. i \<le> j) (sn_loss_list s) \<rparr>"

lemma acked_inv:
  assumes "sender_inv s" "sn_base_index s \<le> i" "i \<le> sn_next_send_index s"
  shows "sender_inv (acked s i)" "evolves s (acked s i)"
  using assms
  by (auto simp: acked_def evolves_def entry_at_def sender_inv_defs sorted_wrt_filter_less dest: in_set_dropD)

lemma acked_same:
  assumes "sender_inv s" shows "acked s (sn_base_index s) = s"
proof -
  have "filter (\<lambda>j. sn_base_index s \<le> j) (sn_loss_list s) = sn_loss_list s"
    using assms by (auto simp: sender_inv_defs intro!: filter_True)
  then show ?thesis using assms by (simp add: acked_def sender_inv_defs)
qed

text \<open>Agreement on everything but window, RTT, ACKACK bookkeeping, pacer and counters.\<close>

definition same_core :: "sender \<Rightarrow> sender \<Rightarrow> bool" where
  "same_core a b \<longleftrightarrow> sn_cfg b = sn_cfg a \<and> sn_buffer b = sn_buffer a \<and> sn_base_index b = sn_base_index a
     \<and> sn_next_send_index b = sn_next_send_index a \<and> sn_last_ack_index b = sn_last_ack_index a
     \<and> sn_next_msg b = sn_next_msg a \<and> sn_loss_list b = sn_loss_list a
     \<and> sn_control_queue b = sn_control_queue a"

lemma same_core_refl [simp]: "same_core a a"
  by (simp add: same_core_def)

lemma same_core_trans: "same_core a b \<Longrightarrow> same_core b c \<Longrightarrow> same_core a c"
  by (simp add: same_core_def)

lemma same_core_inv:
  assumes "same_core a b" "sender_inv a" "\<And>p. sn_pacer b = Some p \<Longrightarrow> pacer_inv (sc_max_payload (sn_cfg a)) p"
  shows "sender_inv b"
  using assms by (simp add: same_core_def sender_inv_defs)

lemma sender_inv_pacer: "sender_inv s \<Longrightarrow> sn_pacer s = Some p \<Longrightarrow> pacer_inv (sc_max_payload (sn_cfg s)) p"
  by (simp add: sender_inv_defs)

lemma same_core_evolves: "same_core a b \<Longrightarrow> evolves s a \<Longrightarrow> evolves s b"
  by (simp add: same_core_def evolves_def end_index_def entry_at_def)

lemma ack_helpers_core:
  "same_core s (adopt_rtt s cif)" "same_core s (fst (answer_ack s now n))" "same_core s (refresh_pacer s)"
  "sn_pacer (adopt_rtt s cif) = sn_pacer s" "sn_pacer (fst (answer_ack s now n)) = sn_pacer s"
  by (auto simp: same_core_def adopt_rtt_def answer_ack_def refresh_pacer_def Let_def split: option.splits)

text \<open>Moving the acknowledgement cursor, whichever kind of ACK does it.\<close>

lemma release_then_move:
  assumes inv: "sender_inv s" and le: "e \<le> int (sn_next_send_index s)"
    and s1: "same_core (release_acked s e) s1"
    and s2: "if int (sn_base_index s) \<le> e then same_core (s1\<lparr> sn_last_ack_index := nat e \<rparr>) s2 else same_core s1 s2"
  shows "same_core (acked s (max (sn_base_index s) (nat e))) s2"
proof -
  have cur: "sn_last_ack_index s = sn_base_index s" "sn_next_send_index s \<le> sn_base_index s + length (sn_buffer s)"
    using inv by (simp_all add: sender_inv_defs)
  consider (beyond) "int (sn_base_index s) < e" | (at) "int (sn_base_index s) = e" | (stale) "e < int (sn_base_index s)"
    by linarith
  then show ?thesis
  proof cases
    case beyond
    define i where "i = nat e"
    have i: "sn_base_index s < i" "i \<le> sn_next_send_index s" "e = int i" using beyond le by (auto simp: i_def)
    then have "nat (int i - int (sn_base_index s)) = i - sn_base_index s"
      "min (i - sn_base_index s) (length (sn_buffer s)) = i - sn_base_index s"
      "sn_base_index s + (i - sn_base_index s) = i"
      using cur by auto
    with i s1 s2 show ?thesis
      by (simp add: same_core_def acked_def release_acked_def Let_def max_absorb2)
  next
    case at
    have "acked s (sn_base_index s) = s" using inv by (rule acked_same)
    with at s1 s2 cur show ?thesis by (auto simp: same_core_def release_acked_def)
  next
    case stale
    have "acked s (sn_base_index s) = s" using inv by (rule acked_same)
    with stale s1 s2 cur show ?thesis by (auto simp: same_core_def release_acked_def max_absorb1)
  qed
qed

lemma release_acked_cursor:
  "sn_last_ack_index (release_acked s e) = sn_last_ack_index s" "sn_pacer (release_acked s e) = sn_pacer s"
  by (simp_all add: release_acked_def Let_def)

lemma handle_ack_core:
  assumes inv: "sender_inv s" and le: "ext_of s (ac_last_ack_seq cif) \<le> int (sn_next_send_index s)"
    and i: "i = max (sn_base_index s) (nat (ext_of s (ac_last_ack_seq cif)))"
    and h: "handle_ack s now ack_number cif = (s', res)"
  shows "same_core (acked s i) s'" "\<exists>a. res = Ok a"
    "sn_pacer s' = sn_pacer s \<or> sn_pacer s' = map_option pacer_refresh (sn_pacer s)"
proof -
  define e where "e = ext_of s (ac_last_ack_seq cif)"
  have cur: "sn_last_ack_index s = sn_base_index s" using inv by (simp add: sender_inv_defs)
  have "same_core (acked s i) s' \<and> (\<exists>a. res = Ok a)
    \<and> (sn_pacer s' = sn_pacer s \<or> sn_pacer s' = map_option pacer_refresh (sn_pacer s))"
  proof (cases "ac_rtt_us cif")
    case None
    then have s': "s' = light_ack (release_acked s e) e" "res = Ok None"
      using h le by (auto simp: handle_ack_def e_def [symmetric] Let_def)
    have "same_core (acked s i) s'"
      unfolding i e_def [symmetric]
      by (rule release_then_move [OF inv le [folded e_def] same_core_refl])
        (simp add: s' light_ack_def Let_def release_acked_cursor cur same_core_def)
    then show ?thesis using s' by (simp add: light_ack_def Let_def release_acked_cursor)
  next
    case (Some rtt)
    define s2 where "s2 = adopt_rtt (release_acked s e) cif"
    define s3 where "s3 = fst (answer_ack s2 now ack_number)"
    have s': "s' = refresh_pacer (adopt_window s3 e cif)" "\<exists>a. res = Ok a"
      using h le Some by (auto simp: handle_ack_def e_def [symmetric] Let_def s2_def s3_def split: prod.splits)
    have s3: "same_core (release_acked s e) s3" "sn_pacer s3 = sn_pacer s"
      unfolding s3_def s2_def
      by (blast intro: ack_helpers_core same_core_trans, simp add: ack_helpers_core release_acked_cursor)
    have la: "sn_last_ack_index s3 = sn_base_index s"
      using s3(1) by (simp add: same_core_def release_acked_cursor cur)
    have "same_core (acked s i) s'"
      unfolding i e_def [symmetric]
      by (rule release_then_move [OF inv le [folded e_def] s3(1)])
        (simp add: s' adopt_window_def refresh_pacer_def la same_core_def)
    then show ?thesis using s' s3(2) by (simp add: refresh_pacer_def adopt_window_def)
  qed
  then show "same_core (acked s i) s'" "\<exists>a. res = Ok a"
    "sn_pacer s' = sn_pacer s \<or> sn_pacer s' = map_option pacer_refresh (sn_pacer s)" by blast+
qed

lemma handle_ack_inv:
  assumes "sender_inv s"
  shows "sender_inv (fst (handle_ack s now n cif))" "evolves s (fst (handle_ack s now n cif))"
proof -
  obtain s' res where h: "handle_ack s now n cif = (s', res)" by (cases "handle_ack s now n cif")
  define e where "e = ext_of s (ac_last_ack_seq cif)"
  have "sender_inv s' \<and> evolves s s'"
  proof (cases "e > int (sn_next_send_index s)")
    case True
    then have "same_core s s'" "sn_pacer s' = sn_pacer s"
      using h by (auto simp: handle_ack_def e_def [symmetric] same_core_def)
    moreover from this have "sender_inv s'"
      by (intro same_core_inv [OF _ assms]) (simp_all add: sender_inv_pacer [OF assms])
    ultimately show ?thesis using same_core_evolves evolves_refl by blast
  next
    case False
    then have le: "e \<le> int (sn_next_send_index s)" by simp
    note c = handle_ack_core [OF assms le [unfolded e_def] refl h]
    let ?i = "max (sn_base_index s) (nat (ext_of s (ac_last_ack_seq cif)))"
    have "?i \<le> sn_next_send_index s"
      using le assms by (auto simp: e_def sender_inv_defs)
    then have a: "sender_inv (acked s ?i)" "evolves s (acked s ?i)"
      by (simp_all add: acked_inv [OF assms])
    have "pacer_inv (sc_max_payload (sn_cfg (acked s ?i))) p" if "sn_pacer s' = Some p" for p
      using c(3) that sender_inv_pacer [OF assms]
      by (cases "sn_pacer s") (auto simp: acked_def pacer_inv_ops)
    then show ?thesis
      using same_core_inv [OF c(1) a(1)] same_core_evolves [OF c(1) a(2)] by blast
  qed
  then show "sender_inv (fst (handle_ack s now n cif))" "evolves s (fst (handle_ack s now n cif))"
    by (simp_all add: h)
qed

section \<open>Loss reports\<close>

lemma fold_insort_insert:
  fixes l :: "nat list"
  assumes "sorted_wrt (<) l"
  shows "sorted_wrt (<) (fold insort_insert xs l)" "set (fold insort_insert xs l) = set xs \<union> set l"
proof -
  have "sorted (fold insort_insert xs l) \<and> distinct (fold insort_insert xs l)
    \<and> set (fold insort_insert xs l) = set xs \<union> set l"
    using assms
    by (induction xs arbitrary: l)
      (auto simp: strict_sorted_iff sorted_insort_insert distinct_insort_insert set_insort_insert)
  then show "sorted_wrt (<) (fold insort_insert xs l)" "set (fold insort_insert xs l) = set xs \<union> set l"
    by (simp_all add: strict_sorted_iff)
qed

lemma insert_losses_set:
  assumes "sorted_wrt (<) l" "0 \<le> lo" "lo \<le> hi"
  shows "sorted_wrt (<) (insert_losses l lo hi)" "set (insert_losses l lo hi) = set l \<union> {nat lo .. nat hi}"
  using assms fold_insort_insert [OF assms(1)]
  by (auto simp: insert_losses_def atLeastLessThanSuc_atLeastAtMost simp del: upt_Suc)

lemma nak_range_inv:
  assumes "sender_inv s" "seq_ok (lr_first r)" "seq_ok (lr_last r)" "nak_range s r = Some s'"
  shows "sender_inv s' \<and> evolves s s'"
proof -
  define lo hi where "lo = ext_of s (lr_first r)" and "hi = ext_of s (lr_last r)"
  have inv: "sorted_wrt (<) (sn_loss_list s)" "sn_last_ack_index s = sn_base_index s"
    "set (sn_loss_list s) \<subseteq> {sn_base_index s ..< sn_next_send_index s}"
    using assms(1) by (simp_all add: sender_inv_defs)
  have range: "lo \<le> hi" "hi < int (sn_next_send_index s)"
    using assms(4) by (auto simp: nak_range_def Let_def lo_def hi_def split: if_splits)
  have queue: "sender_inv (s\<lparr> sn_loss_list := insert_losses (sn_loss_list s) a hi \<rparr>)"
    if "int (sn_base_index s) \<le> a" "a \<le> hi" for a
    using assms(1) insert_losses_set [OF inv(1), of a hi] that range inv(3)
    by (auto simp: sender_inv_defs)
  consider "int (sn_base_index s) \<le> lo" "s' = s\<lparr> sn_loss_list := insert_losses (sn_loss_list s) lo hi \<rparr>"
    | "int (sn_base_index s) \<le> hi" "s' = s\<lparr> sn_loss_list := insert_losses (sn_loss_list s) (int (sn_base_index s)) hi \<rparr>"
    | "s' = s\<lparr> sn_control_queue := sn_control_queue s @ [DropRequest (msg_new 0) (lr_first r) (lr_last r)] \<rparr>"
    | "s' = s"
    using assms(4) inv(2) by (auto simp: nak_range_def Let_def lo_def hi_def split: if_splits)
  then have "sender_inv s'"
  proof cases
    case 3
    then show ?thesis using assms(1-3) by (auto simp: sender_inv_defs dropreq_ok_def)
  qed (use queue range assms(1) in auto)
  moreover have "evolves s s'"
    using assms(4) by (auto simp: nak_range_def Let_def split: if_splits intro: evolves_frame)
  ultimately show ?thesis ..
qed

lemma refresh_pacer_inv: "sender_inv s \<Longrightarrow> sender_inv (refresh_pacer s) \<and> evolves s (refresh_pacer s)"
  by (auto simp: refresh_pacer_def sender_inv_defs pacer_inv_ops intro: evolves_frame)

lemma handle_nak_inv:
  "sender_inv s \<Longrightarrow> \<forall>r \<in> set rs. seq_ok (lr_first r) \<and> seq_ok (lr_last r) \<Longrightarrow>
   sender_inv (handle_nak s rs) \<and> evolves s (handle_nak s rs)"
proof (induction s rs rule: handle_nak.induct)
  case (1 s)
  then show ?case by (simp add: refresh_pacer_inv)
next
  case (2 s r rs)
  show ?case
  proof (cases "nak_range s r")
    case None
    then show ?thesis using 2(2) by (auto simp: sender_inv_defs intro: evolves_frame)
  next
    case (Some s')
    then have "sender_inv s' \<and> evolves s s'" using 2(3) nak_range_inv [OF 2(2) _ _ Some] by simp
    with 2(1) [OF Some] 2(3) Some show ?thesis by (auto intro: evolves_trans)
  qed
qed

lemma sender_on_timer_inv:
  "sender_inv s \<Longrightarrow> sender_inv (sender_on_timer s now) \<and> evolves s (sender_on_timer s now)"
  unfolding sender_on_timer_def
  using check_tlpktdrop_inv refresh_pacer_inv by (blast intro: evolves_trans)

section \<open>Transmission\<close>

text \<open>
  The packet for a buffered index, and the retransmission loop without its recursion: it skips the
  throttled head of the loss list and emits the first index after it.
\<close>

definition packet_of :: "sender \<Rightarrow> nat \<Rightarrow> bool \<Rightarrow> data_packet" where
  "packet_of s i r =
     \<lparr> dp_seq = seq_at s i, dp_position = Only, dp_order = False, dp_encryption = be_encryption (entry_at s i),
       dp_retransmitted = r, dp_msg_number = be_msg (entry_at s i), dp_timestamp = be_ts (entry_at s i),
       dp_dst_socket_id = SocketId 0, dp_payload = be_payload (entry_at s i) \<rparr>"

definition throttled :: "sender \<Rightarrow> instant \<Rightarrow> duration \<Rightarrow> nat \<Rightarrow> bool" where
  "throttled s now w i =
     (case be_last_rexmit (sn_buffer s ! (i - sn_base_index s)) of
        Some t \<Rightarrow> since now t < w | None \<Rightarrow> False)"

definition rexmitted :: "sender \<Rightarrow> instant \<Rightarrow> nat \<Rightarrow> nat list \<Rightarrow> sender" where
  "rexmitted s now i rest =
     (let k = i - sn_base_index s; len = length (be_payload (entry_at s i)) in
      pace_sent (count_sent
        (s\<lparr> sn_loss_list := rest,
            sn_buffer := (sn_buffer s)[k := (sn_buffer s ! k)\<lparr> be_last_rexmit := Some now \<rparr>] \<rparr>)
        (be_payload (entry_at s i)) True) now len False)"

lemma packet_at_of:
  assumes "sn_base_index s \<le> i" "i < end_index s"
  shows "packet_at s i r = Ok (packet_of s i r)"
  using assms by (auto simp: packet_at_def packet_of_def entry_at_def end_index_def static_def Let_def)

lemma rexmit_loop_eq:
  assumes "sender_inv s"
  shows "(rexmit_loop s now w :: (_, 'e) outcome) =
    (case dropWhile (throttled s now w) (sn_loss_list s) of
       [] \<Rightarrow> Ok (s\<lparr> sn_loss_list := [] \<rparr>, None)
     | i # rest \<Rightarrow> Ok (rexmitted s now i rest, Some (packet_of s i True)))"
  using assms
proof (induction "sn_loss_list s" arbitrary: s)
  case Nil
  then show ?case by (subst rexmit_loop.simps) simp
next
  case (Cons i rest)
  let ?s = "s\<lparr> sn_loss_list := rest \<rparr>"
  let ?k = "i - sn_base_index s"
  have inv: "sender_inv ?s" "sn_base_index s \<le> i" "i < sn_next_send_index s" "?k < length (sn_buffer s)"
    using Cons(2,3) by (auto simp: sender_inv_defs Cons(2) [symmetric])
  have same: "throttled ?s = throttled s" by (simp add: throttled_def fun_eq_iff)
  show ?case
  proof (cases "throttled s now w i")
    case True
    then have "(rexmit_loop s now w :: (_, 'e) outcome) = rexmit_loop ?s now w"
      using inv by (subst rexmit_loop.simps)
        (auto simp: Cons(2) [symmetric] Let_def throttled_def split: option.splits)
    also have "\<dots> = (case dropWhile (throttled ?s now w) rest of
       [] \<Rightarrow> Ok (?s\<lparr> sn_loss_list := [] \<rparr>, None)
     | j # r \<Rightarrow> Ok (rexmitted ?s now j r, Some (packet_of ?s j True)))"
      using Cons(1) [of ?s] inv(1) by simp
    finally show ?thesis
      using True by (cases "dropWhile (throttled s now w) rest")
        (simp_all del: dropWhile_eq_Nil_conv
          add: Cons(2) [symmetric] same rexmitted_def packet_of_def entry_at_def seq_at_def)
  next
    case False
    let ?s2 = "?s\<lparr> sn_buffer := (sn_buffer s)[?k := (sn_buffer s ! ?k)\<lparr> be_last_rexmit := Some now \<rparr>] \<rparr>"
    have "packet_of ?s2 i True = packet_of s i True"
      using inv(4) by (simp add: packet_of_def entry_at_def seq_at_def static_def)
    moreover have "(packet_at ?s2 i True :: (_, 'e) outcome) = Ok (packet_of ?s2 i True)"
      using inv by (intro packet_at_of) (auto simp: end_index_def)
    ultimately have "(rexmit_loop s now w :: (_, 'e) outcome) = Ok (rexmitted s now i rest, Some (packet_of s i True))"
      using False inv
      by (subst rexmit_loop.simps)
        (auto simp: Cons(2) [symmetric] Let_def throttled_def rexmitted_def packet_of_def entry_at_def
          static_def split: option.splits)
    then show ?thesis using False by (simp add: Cons(2) [symmetric])
  qed
qed

lemma packet_fields_core:
  "sn_cfg (pace_sent s now l b) = sn_cfg s" "sn_cfg (count_sent s p r) = sn_cfg s"
  "sn_buffer (pace_sent s now l b) = sn_buffer s" "sn_buffer (count_sent s p r) = sn_buffer s"
  "sn_base_index (pace_sent s now l b) = sn_base_index s" "sn_base_index (count_sent s p r) = sn_base_index s"
  "sn_next_send_index (pace_sent s now l b) = sn_next_send_index s"
  "sn_next_send_index (count_sent s p r) = sn_next_send_index s"
  "sn_last_ack_index (pace_sent s now l b) = sn_last_ack_index s"
  "sn_last_ack_index (count_sent s p r) = sn_last_ack_index s"
  "sn_loss_list (pace_sent s now l b) = sn_loss_list s" "sn_loss_list (count_sent s p r) = sn_loss_list s"
  "sn_next_msg (pace_sent s now l b) = sn_next_msg s" "sn_next_msg (count_sent s p r) = sn_next_msg s"
  "sn_control_queue (pace_sent s now l b) = sn_control_queue s"
  "sn_control_queue (count_sent s p r) = sn_control_queue s"
  "sn_advertised_window (pace_sent s now l b) = sn_advertised_window s"
  "sn_advertised_window (count_sent s p r) = sn_advertised_window s"
  "sn_pacer (count_sent s p r) = sn_pacer s"
  "sn_pacer (pace_sent s now l b) = map_option (\<lambda>p. pacer_on_send p now l b) (sn_pacer s)"
  by (simp_all add: pace_sent_def count_sent_def)

lemma static_rexmit [simp]: "static (e\<lparr> be_last_rexmit := t \<rparr>) = static e"
  by (simp add: static_def)

lemma static_fields [simp]:
  "be_payload (static e) = be_payload e" "be_msg (static e) = be_msg e" "be_ts (static e) = be_ts e"
  "be_encryption (static e) = be_encryption e" "be_origin (static e) = be_origin e"
  by (simp_all add: static_def)

lemma entry_at_ok:
  assumes "sender_inv s" "sn_base_index s \<le> i" "i < end_index s"
  shows "entry_ok (sc_max_payload (sn_cfg s)) (entry_at s i)"
proof -
  have "sn_buffer s ! (i - sn_base_index s) \<in> set (sn_buffer s)"
    using assms by (intro nth_mem) (auto simp: end_index_def)
  then show ?thesis using assms(1) by (simp add: sender_inv_defs entry_at_def entry_ok_def)
qed

lemma dropWhile_suffix_inv:
  assumes "loss_inv s" "dropWhile P (sn_loss_list s) = i # rest"
  shows "i \<in> set (sn_loss_list s)" "set rest \<subseteq> set (sn_loss_list s)" "sorted_wrt (<) rest"
proof -
  obtain xs where xs: "sn_loss_list s = xs @ i # rest"
    using assms(2) by (metis takeWhile_dropWhile_id)
  then show "i \<in> set (sn_loss_list s)" "set rest \<subseteq> set (sn_loss_list s)" by auto
  show "sorted_wrt (<) rest"
    using assms(1) xs by (simp add: loss_inv_def sorted_wrt_append)
qed

lemma rexmitted_inv:
  assumes inv: "sender_inv s" and dw: "dropWhile P (sn_loss_list s) = i # rest"
  shows "sender_inv (rexmitted s now i rest)" "evolves s (rexmitted s now i rest)"
proof -
  note suf = dropWhile_suffix_inv [OF _ dw]
  have l: "loss_inv s" using inv by (simp add: sender_inv_def)
  have i: "sn_base_index s \<le> i" "i < end_index s"
    using suf(1) [OF l] inv by (auto simp: sender_inv_defs)
  then have i: "sn_base_index s \<le> i" "i < end_index s" "i - sn_base_index s < length (sn_buffer s)"
    by (auto simp: end_index_def)
  have len: "length (be_payload (entry_at s i)) \<le> sc_max_payload (sn_cfg s)"
    using entry_at_ok [OF inv i(1,2)] by (simp add: entry_ok_def)
  have "entry_ok (sc_max_payload (sn_cfg s)) e"
    if e: "e \<in> set ((sn_buffer s)[i - sn_base_index s := (sn_buffer s ! (i - sn_base_index s))\<lparr> be_last_rexmit := Some now \<rparr>])" for e
  proof -
    have ok: "entry_ok (sc_max_payload (sn_cfg s)) x" if "x \<in> set (sn_buffer s)" for x
      using inv that by (simp add: sender_inv_def store_inv_def)
    from e set_update_subset_insert
    consider "e = (sn_buffer s ! (i - sn_base_index s))\<lparr> be_last_rexmit := Some now \<rparr>" | "e \<in> set (sn_buffer s)"
      by fast
    then show ?thesis
      using ok [OF nth_mem [OF i(3)]] ok by cases (simp_all add: entry_ok_def)
  qed
  then show "sender_inv (rexmitted s now i rest)"
    using inv suf(2,3) [OF l] len
    by (auto simp: sender_inv_defs rexmitted_def Let_def packet_fields_core pacer_inv_ops)
  show "evolves s (rexmitted s now i rest)"
    using i(3) by (intro evolves_frame)
      (simp_all add: rexmitted_def Let_def packet_fields_core map_update, metis length_map list_update_id nth_map)
qed

section \<open>Polling\<close>

text \<open>Everything a poll can do.\<close>

lemma gate_sender_Some:
  assumes inv: "sender_inv s" and gate: "gate_sender s now = Some s1"
  obtains p where "s1 = s\<lparr> sn_pacer := p \<rparr>" "same_core s s1" "sender_inv s1"
proof -
  obtain p where s1: "s1 = s\<lparr> sn_pacer := p \<rparr>" "\<And>q. p = Some q \<Longrightarrow> pacer_inv (sc_max_payload (sn_cfg s)) q"
  proof (cases "sn_pacer s")
    case None
    have "s\<lparr> sn_pacer := sn_pacer s \<rparr> = s" by simp
    then have "s1 = s\<lparr> sn_pacer := None \<rparr>" using None gate by (simp add: gate_sender_def)
    then show thesis by (rule that) simp
  next
    case (Some q)
    then obtain q' where "pace_gate q now = Some q'" "s1 = s\<lparr> sn_pacer := Some q' \<rparr>"
      using gate by (auto simp: gate_sender_def)
    then show thesis
      using pacer_inv_ops(5) [OF sender_inv_pacer [OF inv Some]] by (intro that [of "Some q'"]) simp_all
  qed
  have core: "same_core s s1" by (simp add: s1 same_core_def)
  have "sender_inv s1" using inv s1(2) by (intro same_core_inv [OF core]) (simp_all add: s1)
  with s1(1) core show thesis by (rule that)
qed

lemma poll_transmit_cases:
  assumes inv: "sender_inv s"
  obtains
    (gated) p t where "(poll_transmit s now :: (_, 'e) outcome) = Ok (s, None)" "sn_pacer s = Some p"
      "pc_next_send_time p = Some t" "now < t"
  | (rexmit) s1 i rest where
      "gate_sender s now = Some s1" "sender_inv s1" "same_core s s1"
      "dropWhile (throttled s1 now (rexmit_window_of s1)) (sn_loss_list s1) = i # rest"
      "(poll_transmit s now :: (_, 'e) outcome) = Ok (rexmitted s1 now i rest, Some (packet_of s i True))"
      "i \<in> set (sn_loss_list s)"
  | (fresh) s1 where
      "gate_sender s now = Some s1" "sender_inv s1" "same_core s s1"
      "sn_next_send_index s < end_index s" "flight s < unat (effective_window s)"
      "(poll_transmit s now :: (_, 'e) outcome) =
         Ok (pace_sent (count_sent (s1\<lparr> sn_loss_list := [], sn_next_send_index := sn_next_send_index s + 1 \<rparr>)
               (be_payload (entry_at s (sn_next_send_index s))) False) now
               (length (be_payload (entry_at s (sn_next_send_index s))))
               (seq_value (seq_at s (sn_next_send_index s)) AND 0xF = 0),
             Some (packet_of s (sn_next_send_index s) False))"
      "dropWhile (throttled s1 now (rexmit_window_of s1)) (sn_loss_list s1) = []"
  | (idle) s1 where
      "gate_sender s now = Some s1" "sender_inv s1" "same_core s s1"
      "\<not> (sn_next_send_index s < end_index s \<and> flight s < unat (effective_window s))"
      "(poll_transmit s now :: (_, 'e) outcome) =
         Ok (s1\<lparr> sn_loss_list := [], sn_pacer := map_option pacer_on_nothing_to_send (sn_pacer s1) \<rparr>, None)"
      "dropWhile (throttled s1 now (rexmit_window_of s1)) (sn_loss_list s1) = []"
proof (cases "gate_sender s now")
  case None
  then obtain p t where "sn_pacer s = Some p" "pc_next_send_time p = Some t" "now < t"
    by (auto simp: gate_sender_def pace_gate_def split: option.splits if_splits)
  with None show thesis by (intro gated) (simp_all add: poll_transmit_def)
next
  case (Some s1)
  obtain p where s1: "s1 = s\<lparr> sn_pacer := p \<rparr>" and core: "same_core s s1" and inv1: "sender_inv s1"
    using gate_sender_Some [OF inv Some] .
  have po: "packet_of s1 = packet_of s"
    by (simp add: s1 packet_of_def fun_eq_iff entry_at_def seq_at_def)
  note loop = rexmit_loop_eq [OF inv1, of now "rexmit_window_of s1", where 'e = 'e]
  show thesis
  proof (cases "dropWhile (throttled s1 now (rexmit_window_of s1)) (sn_loss_list s1)")
    case (Cons i rest)
    have "loss_inv s1" using inv1 by (simp add: sender_inv_def)
    then have "i \<in> set (sn_loss_list s)" using dropWhile_suffix_inv(1) [OF _ Cons] by (simp add: s1)
    then show thesis
      by (intro rexmit [OF Some inv1 core Cons]) (simp_all add: poll_transmit_def Some loop Cons po)
  next
    case Nil
    define s2 where "s2 = s1\<lparr> sn_loss_list := [] \<rparr>"
    have poll: "(poll_transmit s now :: (_, 'e) outcome) = send_new s2 now"
      by (simp del: dropWhile_eq_Nil_conv add: poll_transmit_def Some loop Nil s2_def)
    have s2: "flight s2 = flight s" "effective_window s2 = effective_window s" "end_index s2 = end_index s"
      "sn_next_send_index s2 = sn_next_send_index s"
      by (simp_all add: s2_def s1 flight_def effective_window_def end_index_def)
    show thesis
    proof (cases "sn_next_send_index s < end_index s \<and> flight s < unat (effective_window s)")
      case True
      let ?i = "sn_next_send_index s"
      let ?s3 = "s2\<lparr> sn_next_send_index := ?i + 1 \<rparr>"
      have "(packet_at ?s3 ?i False :: (_, 'e) outcome) = Ok (packet_of ?s3 ?i False)"
        using True inv by (intro packet_at_of) (simp_all add: s2_def s1 sender_inv_defs)
      moreover have "packet_of ?s3 ?i False = packet_of s ?i False"
        by (simp add: s2_def s1 packet_of_def entry_at_def seq_at_def)
      ultimately show thesis
        using True Nil by (intro fresh [OF Some inv1 core])
          (simp_all add: poll send_new_def s2 end_index_def [symmetric] Let_def, simp add: packet_of_def s2_def)
    next
      case False
      then have "\<not> (sn_next_send_index s2 < sn_base_index s2 + length (sn_buffer s2)
          \<and> flight s2 < unat (effective_window s2))"
        using s2 by (simp add: end_index_def)
      then have "(send_new s2 now :: (_, 'e) outcome)
          = Ok (s2\<lparr> sn_pacer := map_option pacer_on_nothing_to_send (sn_pacer s2) \<rparr>, None)"
        by (simp only: send_new_def Let_def if_False)
      then show thesis
        using False Nil by (intro idle [OF Some inv1 core]) (simp_all add: poll s2_def)
    qed
  qed
qed

lemma fresh_inv:
  assumes inv: "sender_inv s1" and i: "i = sn_next_send_index s1" "i < end_index s1"
    and len: "len = length (be_payload (entry_at s1 i))"
    and s'_def: "s' = pace_sent (count_sent (s1\<lparr> sn_loss_list := [], sn_next_send_index := i + 1 \<rparr>) pl False) now len b"
  shows "sender_inv s'" "evolves s1 s'"
proof -
  have "sn_base_index s1 \<le> i" using inv i by (simp add: sender_inv_defs)
  then have "len \<le> sc_max_payload (sn_cfg s1)"
    using entry_at_ok [OF inv _ i(2)] by (simp add: len entry_ok_def)
  then show "sender_inv s'"
    using inv i by (auto simp: sender_inv_defs s'_def packet_fields_core pacer_inv_ops)
  show "evolves s1 s'"
    using i by (auto simp: evolves_def s'_def packet_fields_core end_index_def entry_at_def)
qed

lemma poll_transmit_inv:
  assumes inv: "sender_inv s"
  obtains s' sent where "(poll_transmit s now :: (_, 'e) outcome) = Ok (s', sent)" "sender_inv s'" "evolves s s'"
proof -
  from inv show thesis
  proof (cases rule: poll_transmit_cases [where now = now and 'e = 'e])
    case gated
    then show thesis using inv by (intro that [OF gated(1)]) simp_all
  next
    case (rexmit s1 i rest)
    note r = rexmitted_inv [OF rexmit(2,4), of now]
    have "evolves s s1" using same_core_evolves [OF rexmit(3) evolves_refl] .
    then show thesis using r evolves_trans by (intro that [OF rexmit(5)]) blast+
  next
    case (fresh s1)
    have c: "sn_next_send_index s1 = sn_next_send_index s" "end_index s1 = end_index s"
        "entry_at s1 = entry_at s"
      using fresh(3) by (simp_all add: same_core_def end_index_def entry_at_def fun_eq_iff)
    note r = fresh_inv [OF fresh(2) c(1) [symmetric]]
    have "evolves s s1" using same_core_evolves [OF fresh(3) evolves_refl] .
    then show thesis
      using r fresh(4) c by (intro that [OF fresh(6)]) (auto intro: evolves_trans)
  next
    case (idle s1)
    let ?s = "s1\<lparr> sn_loss_list := [], sn_pacer := map_option pacer_on_nothing_to_send (sn_pacer s1) \<rparr>"
    have "sender_inv ?s" using idle(2) by (auto simp: sender_inv_defs pacer_inv_ops)
    moreover have "evolves s ?s"
      using same_core_evolves [OF idle(3) evolves_refl] by (rule evolves_trans) (simp add: evolves_frame)
    ultimately show thesis by (intro that [OF idle(5)])
  qed
qed

section \<open>Runs\<close>

datatype sender_event =
    SPush crypto_prims instant bytes "crypto option"
  | SAck instant u32 ack_cif
  | SNak "loss_range list"
  | STimer instant
  | SPoll instant
  | SControl

fun sender_step :: "sender \<Rightarrow> sender_event \<Rightarrow> sender" where
  "sender_step s (SPush cp now payload cr) = (case push cp s now payload cr of Ok (s', _) \<Rightarrow> s' | _ \<Rightarrow> s)"
| "sender_step s (SAck now n cif) = fst (handle_ack s now n cif)"
| "sender_step s (SNak rs) = handle_nak s rs"
| "sender_step s (STimer now) = sender_on_timer s now"
| "sender_step s (SPoll now) = (case (poll_transmit s now :: (_, unit) outcome) of Ok (s', _) \<Rightarrow> s' | _ \<Rightarrow> s)"
| "sender_step s SControl = fst (sender_poll_control s)"

text \<open>What the caller guarantees: a sound encryption engine, and loss ranges as the parser delivers them.\<close>

fun sender_event_ok :: "sender \<Rightarrow> sender_event \<Rightarrow> bool" where
  "sender_event_ok s (SPush cp now payload cr) = (prims_ok cp \<and> crypto_ok cp cr)"
| "sender_event_ok s (SNak rs) = (\<forall>r \<in> set rs. seq_ok (lr_first r) \<and> seq_ok (lr_last r))"
| "sender_event_ok s _ = True"

lemma sender_step_inv:
  assumes "sender_inv s" "sender_event_ok s e"
  shows "sender_inv (sender_step s e) \<and> evolves s (sender_step s e)"
proof (cases e)
  case (SPush cp now payload cr)
  show ?thesis
  proof (cases "length payload \<le> sc_max_payload (sn_cfg s)")
    case True
    obtain s' cr' where "push cp s now payload cr = Ok (s', cr')" "sender_inv s'" "evolves s s'"
      by (rule push_Ok [OF assms(1) _ _ True, of cp cr now]) (use assms(2) SPush in auto)
    then show ?thesis by (simp add: SPush)
  next
    case False
    then show ?thesis using assms(1) by (simp add: SPush push_eq)
  qed
next
  case (SPoll now)
  obtain s' sent where "(poll_transmit s now :: (_, unit) outcome) = Ok (s', sent)" "sender_inv s'" "evolves s s'"
    using assms(1) by (rule poll_transmit_inv)
  then show ?thesis by (simp add: SPoll)
next
  case SControl
  then show ?thesis using assms(1)
    by (auto simp: sender_poll_control_def sender_inv_defs split: list.splits intro: evolves_frame)
qed (use assms in \<open>simp_all add: handle_ack_inv handle_nak_inv sender_on_timer_inv\<close>)

interpretation snd_machine: inv_machine sender_step sender_event_ok sender_inv
  using sender_step_inv by unfold_locales blast

lemma sender_run_evolves:
  "sender_inv s \<Longrightarrow> snd_machine.run_ok s es \<Longrightarrow> evolves s (foldl sender_step s es)"
  by (rule snd_machine.run_relation [where R = evolves])
    (use sender_step_inv evolves_refl evolves_trans in blast)+

lemma sender_new_inv:
  assumes "bandwidth_validate (sc_bandwidth cfg) = Ok ()" shows "sender_inv (sender_new cfg)"
proof -
  have "pacer_inv (sc_max_payload cfg) p" if "pacer_new (sc_bandwidth cfg) (sc_max_payload cfg) = Some p" for p
    using pacer_new_inv [OF assms that] by (rule pacer_inv_mono) simp
  then show ?thesis
    by (simp add: sender_inv_defs sender_new_def) (simp add: msg_new_def msg_value_def MSG_MASK_def)
qed

end
