(* ===== verification/Sender_Props.thy ===== *)
theory Sender_Props
  imports Sender_Inv
begin

text \<open>
  What the sender guarantees on the wire: reachable states are sound, acknowledgements release
  exactly the acknowledged prefix, the flow window holds, the late are dropped and announced, and a
  sequence number always carries the same bytes.
\<close>

section \<open>Sequence numbers of extended indices\<close>

lemma seq_at_seq_of:
  "seq_at s i = seq_of (uint (raw (sc_initial_seq (sn_cfg s))) + int i)"
proof -
  have "(of_nat (unat (raw q) + i) :: u32) = word_of_int (uint (raw q) + int i)" for q
    by simp
  then show ?thesis by (simp add: seq_at_def seq_of_def seq_new_def seq_value_def)
qed

lemma ext_of_seq_at:
  assumes "- (2 ^ 30) \<le> int i - int (sn_base_index s)" "int i - int (sn_base_index s) < 2 ^ 30"
  shows "ext_of s (seq_at s i) = int i"
  using assms by (simp add: ext_of_def seq_at_seq_of sq.dist_rep)

lemma seq_at_inj:
  assumes "seq_at s i = seq_at s j" "i \<le> j" "j < i + 2 ^ 31" shows "i = j"
proof -
  define c where "c = uint (raw (sc_initial_seq (sn_cfg s)))"
  have "(c + int i) mod 2 ^ 31 = (c + int j) mod 2 ^ 31"
    using assms(1) by (simp only: seq_at_seq_of seq_of_eq_iff c_def)
  then have "2 ^ 31 dvd (c + int j) - (c + int i)" by (metis mod_eq_dvd_iff)
  then have dvd: "2 ^ 31 dvd int j - int i" by simp
  have "0 \<le> int j - int i" "int j - int i < 2 ^ 31" using assms(2,3) by simp_all
  with dvd have "int j - int i = 0" by (metis zdvd_imp_le linorder_not_less order_le_less)
  then show ?thesis by simp
qed

lemma evolves_seq_at: "evolves s s' \<Longrightarrow> seq_at s' = seq_at s"
  by (simp add: evolves_def seq_at_def fun_eq_iff)

lemma evolves_packet_of:
  assumes "evolves s s'" "sn_base_index s' \<le> i" "i < end_index s"
  shows "packet_of s' i r = packet_of s i r"
  using assms evolves_seq_at [OF assms(1)] by (simp add: evolves_def packet_of_def)

section \<open>What a poll emits\<close>

lemma poll_emits:
  assumes inv: "sender_inv s" and poll: "(poll_transmit s now :: (_, 'e) outcome) = Ok (s', Some p)"
  obtains (rexmit) i where "p = packet_of s i True" "sn_base_index s \<le> i" "i < sn_next_send_index s"
      "i \<in> set (sn_loss_list s)" "sn_next_send_index s' = sn_next_send_index s"
  | (fresh) "p = packet_of s (sn_next_send_index s) False" "sn_next_send_index s < end_index s"
      "flight s < unat (effective_window s)" "sn_next_send_index s' = sn_next_send_index s + 1"
      "sn_last_ack_index s' = sn_last_ack_index s" "effective_window s' = effective_window s"
proof -
  from inv show thesis
  proof (cases rule: poll_transmit_cases [where now = now and 'e = 'e])
    case gated
    then show thesis using poll by simp
  next
    case (rexmit s1 i rest)
    then have "p = packet_of s i True" "s' = rexmitted s1 now i rest" using poll by simp_all
    moreover have "sn_base_index s \<le> i" "i < sn_next_send_index s"
      using rexmit(6) inv by (auto simp: sender_inv_defs)
    ultimately show thesis
      using rexmit(3,6) by (intro that(1)) (simp_all add: rexmitted_def Let_def packet_fields_core same_core_def)
  next
    case (fresh s1)
    let ?i = "sn_next_send_index s"
    have "p = packet_of s ?i False" "s' = pace_sent (count_sent (s1\<lparr> sn_loss_list := [], sn_next_send_index := ?i + 1 \<rparr>)
         (be_payload (entry_at s ?i)) False) now (length (be_payload (entry_at s ?i))) (seq_value (seq_at s ?i) AND 0xF = 0)"
      using poll fresh(6) by simp_all
    moreover have "sn_advertised_window s1 = sn_advertised_window s"
      using fresh(1) by (auto simp: gate_sender_def split: option.splits)
    ultimately show thesis
      using fresh(3-5) by (intro that(2)) (simp_all add: packet_fields_core same_core_def effective_window_def)
  next
    case idle
    then show thesis using poll by simp
  qed
qed

section \<open>Guarantees\<close>

text \<open>
  C14.  Every state the sender reaches is sound.  From construction with a validated bandwidth, any
  sequence of submissions, ACKs, NAKs, timer ticks and polls keeps the cursors ordered, the loss
  list sorted and inside the sent window, the buffer within its capacity and every payload within
  its limit; and neither a poll nor an accepted submission panics.
\<close>

theorem sender_run_safe:
  assumes "bandwidth_validate (sc_bandwidth cfg) = Ok ()"
    and "snd_machine.run_ok (sender_new cfg) es"
    and "s = foldl sender_step (sender_new cfg) es"
  shows "sender_inv s \<and> poll_transmit s now \<noteq> (Panic :: (_, unit) outcome)
    \<and> (prims_ok cp \<and> crypto_ok cp cr \<longrightarrow> push cp s now payload cr \<noteq> Panic)"
proof -
  have inv: "sender_inv s"
    unfolding assms(3) using sender_new_inv [OF assms(1)] assms(2) by (rule snd_machine.run_inv)
  moreover have "poll_transmit s now \<noteq> (Panic :: (_, unit) outcome)"
    using inv by (rule poll_transmit_inv [where now = now and 'e = unit]) simp
  moreover have "push cp s now payload cr \<noteq> Panic" if "prims_ok cp" "crypto_ok cp cr"
  proof (cases "length payload \<le> sc_max_payload (sn_cfg s)")
    case True
    show ?thesis using inv that True by (rule push_Ok [where now = now]) simp
  next
    case False
    then show ?thesis by (simp add: push_eq)
  qed
  ultimately show ?thesis by blast
qed

text \<open>
  C8.  A sequence number always carries the same bytes.  If two polls of one sender emit packets
  with the same sequence number (fewer than \<open>2 ^ 31\<close> indices apart), then, whatever happened in
  between, the later one is the earlier one with the retransmission flag set: same message number,
  same timestamp, same key flags, same (cipher) payload.
\<close>

theorem rexmit_same_bytes:
  assumes inv: "sender_inv s"
    and p: "(poll_transmit s t1 :: (_, unit) outcome) = Ok (s1, Some p)"
    and run: "snd_machine.run_ok s1 es" "s2 = foldl sender_step s1 es"
    and q: "(poll_transmit s2 t2 :: (_, unit) outcome) = Ok (s3, Some q)"
    and sq: "dp_seq q = dp_seq p"
    and near: "end_index s2 \<le> sn_base_index s + 2 ^ 31"
  shows "q = p\<lparr> dp_retransmitted := True \<rparr>"
proof -
  have inv1: "sender_inv s1" "evolves s s1"
    by (rule poll_transmit_inv [OF inv, where now = t1 and 'e = unit], use p in simp)+
  have inv2: "sender_inv s2" and "evolves s1 s2"
    unfolding run(2) using snd_machine.run_inv [OF inv1(1) run(1)] sender_run_evolves [OF inv1(1) run(1)] by blast+
  then have ev: "evolves s s2" using inv1(2) evolves_trans by blast
  have mono: "sn_base_index s \<le> sn_base_index s2" "sn_next_send_index s1 \<le> sn_next_send_index s2"
    using ev \<open>evolves s1 s2\<close> by (simp_all add: evolves_def)
  have seqs: "seq_at s2 = seq_at s" using ev by (rule evolves_seq_at)
  obtain i r where i: "p = packet_of s i r" "sn_base_index s \<le> i" "i < end_index s" "i < sn_next_send_index s1"
    using inv p by (rule poll_emits) (use inv in \<open>auto simp: sender_inv_defs\<close>)
  from inv2 q show ?thesis
  proof (cases rule: poll_emits)
    case (rexmit j)
    have "j < end_index s2" using rexmit(3) inv2 by (auto simp: sender_inv_defs)
    then have "i < end_index s2" "j < sn_base_index s + 2 ^ 31" "i < sn_base_index s + 2 ^ 31"
      using i(3) ev near by (auto simp: evolves_def)
    moreover have eq: "seq_at s i = seq_at s j" using sq i(1) rexmit(1) seqs by (simp add: packet_of_def)
    ultimately have "i = j"
      using seq_at_inj [OF eq] seq_at_inj [OF eq [symmetric]] i(2) rexmit(2) mono(1) by (cases "i \<le> j") auto
    then have "q = packet_of s i True"
      using rexmit(1,2) i(3) evolves_packet_of [OF ev] by simp
    then show ?thesis using i(1) by (simp add: packet_of_def)
  next
    case fresh
    let ?j = "sn_next_send_index s2"
    have "i < ?j" using i(4) mono(2) by simp
    moreover have "?j < i + 2 ^ 31" using fresh(2) near i(2) by simp
    moreover have "seq_at s i = seq_at s ?j" using sq i(1) fresh(1) seqs by (simp add: packet_of_def)
    ultimately show ?thesis using seq_at_inj [of s i ?j] by simp
  qed
qed

section \<open>A concrete sender\<close>

text \<open>Four buffer slots, a window of eight, no pacing and no encryption, one payload submitted.\<close>

definition demo_sender_config :: sender_config where
  "demo_sender_config = \<lparr> sc_initial_seq = SeqNumber 100, sc_flow_window = 8, sc_snd_latency = from_millis 120,
     sc_max_payload = 4, sc_buffer_pkts = 4, sc_bandwidth = Unlimited, sc_timebase = \<lparr> tb_start = 0 \<rparr> \<rparr>"

definition demo_entry :: buf_entry where
  "demo_entry = \<lparr> be_msg = MsgNumber 1, be_origin = 1000, be_ts = Timestamp 1, be_last_rexmit = None,
     be_encryption = EncNone, be_payload = [7, 8] \<rparr>"

definition demo_sender :: sender where
  "demo_sender = (sender_new demo_sender_config)\<lparr> sn_buffer := [demo_entry], sn_next_msg := MsgNumber 2 \<rparr>"

definition demo_packet :: "bool \<Rightarrow> data_packet" where
  "demo_packet r = \<lparr> dp_seq = SeqNumber 100, dp_position = Only, dp_order = False, dp_encryption = EncNone,
     dp_retransmitted = r, dp_msg_number = MsgNumber 1, dp_timestamp = Timestamp 1,
     dp_dst_socket_id = SocketId 0, dp_payload = [7, 8] \<rparr>"

lemmas demo_sender_defs = demo_sender_def demo_entry_def demo_sender_config_def demo_packet_def sender_new_def
  sender_stats_default_def pacer_new_def

lemma drop_loops_idle:
  "sn_buffer s = [] \<Longrightarrow> drop_while_full s = s" "sn_buffer s = [] \<Longrightarrow> drop_while_blocked s = s"
  by (subst drop_while_full.simps, simp, subst drop_while_blocked.simps, simp)

lemma demo_push: "push cp (sender_new demo_sender_config) 1000 [7, 8] None = Ok (demo_sender, None)"
  by (simp add: push_def demo_sender_defs check_tlpktdrop_def drop_loops_idle
      Let_def encrypt_payload_def succ_msg_def msg_next_def msg_new_def msg_value_def MSG_MASK_def
      timebase_timestamp_def as_micros_def)

lemma demo_sender_inv: "sender_inv demo_sender"
  using sender_step_inv [of "sender_new demo_sender_config" "SPush demo_prims 1000 [7, 8] None"]
    sender_new_inv [of demo_sender_config]
  by (simp add: demo_push demo_prims_ok crypto_ok_def) (simp add: demo_sender_config_def)

definition demo_sent :: sender where
  "demo_sent = demo_sender\<lparr> sn_next_send_index := 1,
     sn_stats := sender_stats_default\<lparr> ss_pkts_sent := 1, ss_bytes_sent := 2 \<rparr> \<rparr>"

lemma demo_poll: "poll_transmit demo_sender 2000 = Ok (demo_sent, Some (demo_packet False))"
  by (simp add: poll_transmit_def gate_sender_def rexmit_loop.simps send_new_def packet_at_def demo_sender_defs
      demo_sent_def flight_def effective_window_def Let_def count_sent_def pace_sent_def seq_at_def seq_new_def
      seq_value_def SEQ_MASK_def)

definition demo_nak :: "loss_range list" where
  "demo_nak = [\<lparr> lr_first = SeqNumber 100, lr_last = SeqNumber 100 \<rparr>]"

lemma demo_repoll:
  "\<exists>s3. poll_transmit (handle_nak demo_sent demo_nak) 3000 = Ok (s3, Some (demo_packet True))"
  by (simp add: demo_nak_def nak_range_def ext_of_def seq_diff_def poll_transmit_def gate_sender_def
      rexmit_loop.simps refresh_pacer_def packet_at_def demo_sender_defs insert_losses_def insort_insert_key_def
      demo_sent_def flight_def effective_window_def Let_def seq_at_def seq_new_def seq_value_def SEQ_MASK_def
      rexmit_window_of_def)

theorem sender_run_safe_witness:
  "let s = foldl sender_step (sender_new demo_sender_config)
       [SPush demo_prims 1000 [7, 8] None, SPoll 2000, SNak demo_nak, SPoll 3000, STimer 4000, SControl] in
   sender_inv s \<and> poll_transmit s 5000 \<noteq> (Panic :: (_, unit) outcome)"
proof -
  let ?es = "[SPush demo_prims 1000 [7, 8] None, SPoll 2000, SNak demo_nak, SPoll 3000, STimer 4000, SControl]"
  have "bandwidth_validate (sc_bandwidth demo_sender_config) = Ok ()" by (simp add: demo_sender_config_def)
  moreover have "snd_machine.run_ok (sender_new demo_sender_config) ?es"
    by (simp add: demo_prims_ok crypto_ok_def demo_nak_def seq_ok_def SEQ_MASK_def)
  ultimately show ?thesis using sender_run_safe [OF _ _ refl] unfolding Let_def by blast
qed

theorem rexmit_same_bytes_witness:
  "\<exists>s3 q. (poll_transmit demo_sender 2000 :: (_, unit) outcome) = Ok (demo_sent, Some (demo_packet False))
    \<and> (poll_transmit (foldl sender_step demo_sent [SNak demo_nak]) 3000 :: (_, unit) outcome) = Ok (s3, Some q)
    \<and> q = (demo_packet False)\<lparr> dp_retransmitted := True \<rparr>"
proof -
  obtain s3 where q: "(poll_transmit (foldl sender_step demo_sent [SNak demo_nak]) 3000 :: (_, unit) outcome)
      = Ok (s3, Some (demo_packet True))"
    using demo_repoll by auto
  have ok: "snd_machine.run_ok demo_sent [SNak demo_nak]"
    by (simp add: demo_nak_def seq_ok_def SEQ_MASK_def)
  have near: "end_index (foldl sender_step demo_sent [SNak demo_nak]) \<le> sn_base_index demo_sender + 2 ^ 31"
    by (simp add: demo_nak_def nak_range_def ext_of_def seq_diff_def demo_sent_def demo_sender_defs refresh_pacer_def
      Let_def seq_at_def seq_new_def seq_value_def SEQ_MASK_def end_index_def)
  show ?thesis
    using demo_poll [where 'a = unit] q rexmit_same_bytes [OF demo_sender_inv demo_poll ok refl q _ near]
    by (auto simp: demo_packet_def)
qed

section \<open>Acknowledgement\<close>

text \<open>
  C15.  Acknowledgements are exact.  An ACK whose sequence number stands for index \<open>i\<close> (within half
  the sequence space of the window base) releases precisely the packets below \<open>i\<close> when it lies in
  the sent window, forgets their pending retransmissions, and moves the window base there; a stale
  ACK releases nothing; an ACK past the highest sent packet is refused, and changes nothing but the
  violation flag.
\<close>

theorem handle_ack_exact:
  assumes inv: "sender_inv s" and ack: "ac_last_ack_seq cif = seq_at s i"
    and near: "- (2 ^ 30) \<le> int i - int (sn_base_index s)" "int i - int (sn_base_index s) < 2 ^ 30"
    and h: "handle_ack s now n cif = (s', res)"
  shows "if i > sn_next_send_index s then res = Err (Closed CloseLocal) \<and> s' = s\<lparr> sn_protocol_violation := True \<rparr>
    else (\<exists>r. res = Ok r)
      \<and> sn_base_index s' = max i (sn_base_index s) \<and> sn_last_ack_index s' = max i (sn_base_index s)
      \<and> sn_buffer s' = drop (i - sn_base_index s) (sn_buffer s)
      \<and> sn_loss_list s' = filter (\<lambda>j. i \<le> j) (sn_loss_list s)
      \<and> sn_next_send_index s' = sn_next_send_index s \<and> sn_control_queue s' = sn_control_queue s"
proof -
  have ext: "ext_of s (ac_last_ack_seq cif) = int i" unfolding ack using near by (rule ext_of_seq_at)
  show ?thesis
  proof (cases "i > sn_next_send_index s")
    case True
    then show ?thesis using h by (auto simp: handle_ack_def ext)
  next
    case False
    then have le: "ext_of s (ac_last_ack_seq cif) \<le> int (sn_next_send_index s)" by (simp add: ext)
    have core: "same_core (acked s (max (sn_base_index s) i)) s'" "\<exists>r. res = Ok r"
      using handle_ack_core [OF inv le refl h] by (simp_all add: ext)
    have "filter (\<lambda>j. max (sn_base_index s) i \<le> j) (sn_loss_list s) = filter (\<lambda>j. i \<le> j) (sn_loss_list s)"
      using inv by (intro filter_cong) (auto simp: sender_inv_defs)
    then show ?thesis
      using core False by (auto simp: same_core_def acked_def max_def split: if_splits)
  qed
qed

theorem handle_ack_exact_witness:
  "\<exists>s' res. handle_ack demo_sent 3000 9 (ack_cif_light (SeqNumber 101)) = (s', res)
    \<and> (\<exists>r. res = Ok r) \<and> sn_base_index s' = 1 \<and> sn_buffer s' = []"
proof -
  have inv: "sender_inv demo_sent"
    by (rule poll_transmit_inv [OF demo_sender_inv, where now = 2000 and 'e = unit]) (simp add: demo_poll)
  obtain s' res where h: "handle_ack demo_sent 3000 9 (ack_cif_light (SeqNumber 101)) = (s', res)"
    by (cases "handle_ack demo_sent 3000 9 (ack_cif_light (SeqNumber 101))")
  have seq: "ac_last_ack_seq (ack_cif_light (SeqNumber 101)) = seq_at demo_sent 1"
    by (simp add: ack_cif_light_def seq_at_def demo_sent_def demo_sender_defs seq_new_def seq_value_def SEQ_MASK_def)
  from handle_ack_exact [OF inv seq _ _ h] h show ?thesis
    by (simp add: demo_sent_def demo_sender_defs)
qed

section \<open>Flow window\<close>

text \<open>
  C24.  The flow window holds.  A first transmission happens only while fewer packets are in flight
  than both the negotiated window and the peer's advertised buffer allow; it takes the next index in
  order and leaves the window respected.
\<close>

theorem first_transmission_in_window:
  assumes inv: "sender_inv s" and p: "(poll_transmit s now :: (_, unit) outcome) = Ok (s', Some p)"
    and new: "\<not> dp_retransmitted p"
  shows "dp_seq p = seq_at s (sn_next_send_index s) \<and> sn_next_send_index s' = sn_next_send_index s + 1
    \<and> flight s < unat (effective_window s) \<and> flight s' = flight s + 1
    \<and> flight s' \<le> unat (sc_flow_window (sn_cfg s')) \<and> flight s' \<le> unat (sn_advertised_window s')"
  using inv p
proof (cases rule: poll_emits)
  case (rexmit i)
  then show ?thesis using new by (simp add: packet_of_def)
next
  case fresh
  have "sn_last_ack_index s \<le> sn_next_send_index s" using inv by (simp add: sender_inv_defs)
  then have "flight s' = flight s + 1" using fresh(4,5) by (simp add: flight_def)
  moreover have "unat (effective_window s') \<le> unat (sc_flow_window (sn_cfg s'))"
    "unat (effective_window s') \<le> unat (sn_advertised_window s')"
    by (simp_all add: effective_window_def word_le_nat_alt [symmetric])
  ultimately show ?thesis using fresh by (simp add: packet_of_def)
qed

theorem first_transmission_in_window_witness:
  "(poll_transmit demo_sender 2000 :: (_, unit) outcome) = Ok (demo_sent, Some (demo_packet False))
   \<and> flight demo_sent = 1 \<and> flight demo_sent \<le> unat (sn_advertised_window demo_sent)"
  using first_transmission_in_window [OF demo_sender_inv demo_poll] demo_poll [where 'a = unit]
  by (simp add: demo_packet_def flight_def demo_sent_def demo_sender_defs)

section \<open>Retransmission\<close>

text \<open>
  C25.  Loss reports are served in order.  Whenever the gate is open and the loss list holds an
  index whose last retransmission is old enough, the poll retransmits the smallest such index
  (before any new data, and regardless of the flow window), and the list keeps exactly the larger
  ones.
\<close>

theorem poll_serves_losses:
  assumes inv: "sender_inv s" and gate: "gate_sender s now = Some s1"
    and find: "find (\<lambda>i. \<not> throttled s1 now (rexmit_window_of s1) i) (sn_loss_list s) = Some i"
  shows "\<exists>s'. (poll_transmit s now :: (_, unit) outcome) = Ok (s', Some (packet_of s i True))
    \<and> sn_loss_list s' = filter (\<lambda>j. i < j) (sn_loss_list s)
    \<and> sn_next_send_index s' = sn_next_send_index s"
proof -
  let ?T = "throttled s1 now (rexmit_window_of s1)"
  have l1: "sn_loss_list s1 = sn_loss_list s" "packet_of s1 = packet_of s" "sn_next_send_index s1 = sn_next_send_index s"
    using gate by (auto simp: gate_sender_def packet_of_def entry_at_def seq_at_def fun_eq_iff split: option.splits)
  obtain rest where rest: "dropWhile ?T (sn_loss_list s) = i # rest"
    using find by (auto simp: find_dropWhile o_def split: list.splits)
  obtain xs where xs: "sn_loss_list s = xs @ i # rest" using rest by (metis takeWhile_dropWhile_id)
  have "sorted_wrt (<) (sn_loss_list s)" using inv by (simp add: sender_inv_defs)
  then have flt: "filter (\<lambda>j. i < j) (sn_loss_list s) = rest"
    unfolding xs by (auto simp: sorted_wrt_append filter_id_conv filter_empty_conv)
  from inv show ?thesis
  proof (cases rule: poll_transmit_cases [where now = now and 'e = unit])
    case gated
    then show ?thesis using gate by (auto simp: gate_sender_def pace_gate_def)
  next
    case (rexmit s1' i' rest')
    then have "s1' = s1" "i' = i" "rest' = rest" using gate rest l1 by auto
    with rexmit(5) flt l1 show ?thesis
      by (auto simp: rexmitted_def Let_def packet_fields_core)
  next
    case (fresh s1')
    then have "s1' = s1" using gate by simp
    with fresh(7) rest l1(1) show ?thesis by (simp del: dropWhile_eq_Nil_conv)
  next
    case (idle s1')
    then have "s1' = s1" using gate by simp
    with idle(6) rest l1(1) show ?thesis by (simp del: dropWhile_eq_Nil_conv)
  qed
qed

theorem poll_serves_losses_witness:
  "find (\<lambda>i. \<not> throttled (demo_sent\<lparr> sn_loss_list := [0] \<rparr>) 3000 (rexmit_window_of (demo_sent\<lparr> sn_loss_list := [0] \<rparr>)) i) [0] = Some 0
   \<and> (\<exists>s'. (poll_transmit (demo_sent\<lparr> sn_loss_list := [0] \<rparr>) 3000 :: (_, unit) outcome)
        = Ok (s', Some (packet_of (demo_sent\<lparr> sn_loss_list := [0] \<rparr>) 0 True)) \<and> sn_loss_list s' = [])"
proof -
  let ?s = "demo_sent\<lparr> sn_loss_list := [0] \<rparr>"
  have "sender_inv demo_sent"
    by (rule poll_transmit_inv [OF demo_sender_inv, where now = 2000 and 'e = unit]) (simp add: demo_poll)
  then have inv: "sender_inv ?s"
    by (simp add: sender_inv_defs) (simp add: demo_sent_def demo_sender_defs)
  have gate: "gate_sender ?s 3000 = Some ?s"
    by (simp add: gate_sender_def demo_sent_def demo_sender_defs)
  have find: "find (\<lambda>i. \<not> throttled ?s 3000 (rexmit_window_of ?s) i) (sn_loss_list ?s) = Some 0"
    by (simp add: throttled_def demo_sent_def demo_sender_defs)
  from poll_serves_losses [OF inv gate find] find show ?thesis by auto
qed

text \<open>
  C22.  Loss reports are read exactly.  A reported range standing for the sent indices \<open>i \<dots> j\<close> queues
  precisely those still buffered; a range already released is answered with a drop request when it
  spans more than one packet and ignored otherwise; nothing else of the state changes.
\<close>

theorem nak_range_exact:
  assumes inv: "sender_inv s" and r: "lr_first r = seq_at s i" "lr_last r = seq_at s j"
    and ij: "i \<le> j" "j < sn_next_send_index s" "int (sn_base_index s) - int i \<le> 2 ^ 30"
      "int j - int (sn_base_index s) < 2 ^ 30"
  shows "\<exists>s'. nak_range s r = Some s' \<and> s' = s\<lparr> sn_loss_list := sn_loss_list s', sn_control_queue := sn_control_queue s' \<rparr>
    \<and> sorted_wrt (<) (sn_loss_list s') \<and> set (sn_loss_list s') = set (sn_loss_list s) \<union> {max i (sn_base_index s) .. j}
    \<and> sn_control_queue s' = sn_control_queue s @
        (if j < sn_base_index s \<and> i < j then [DropRequest (msg_new 0) (seq_at s i) (seq_at s j)] else [])"
proof -
  have lo: "ext_of s (lr_first r) = int i" and hi: "ext_of s (lr_last r) = int j"
    unfolding r using ij by (auto intro!: ext_of_seq_at)
  have facts: "sorted_wrt (<) (sn_loss_list s)" "sn_last_ack_index s = sn_base_index s"
    using inv by (simp_all add: sender_inv_defs)
  have distinct: "lr_first r \<noteq> lr_last r \<longleftrightarrow> i < j"
  proof -
    have "j < i + 2 ^ 31" using ij(3,4) by simp
    then have "seq_at s i = seq_at s j \<longleftrightarrow> i = j" using seq_at_inj [of s i j] ij(1) by blast
    then show ?thesis unfolding r using ij(1) by auto
  qed
  note ins = insert_losses_set [OF facts(1)]
  consider "sn_base_index s \<le> i" | "i < sn_base_index s" "sn_base_index s \<le> j" | "j < sn_base_index s"
    by linarith
  then show ?thesis
  proof cases
    case 1
    then show ?thesis
      using ij ins [of "int i" "int j"] by (simp add: nak_range_def Let_def lo hi facts max_absorb1)
  next
    case 2
    then show ?thesis
      using ij ins [of "int (sn_base_index s)" "int j"]
      by (simp add: nak_range_def Let_def lo hi facts max_absorb2)
  next
    case 3
    then have "nak_range s r = Some (if i < j then s\<lparr> sn_control_queue := sn_control_queue s @
        [DropRequest (msg_new 0) (lr_first r) (lr_last r)] \<rparr> else s)"
      using ij distinct by (simp add: nak_range_def Let_def lo hi facts)
    then show ?thesis using 3 ij(1) facts(1) r by (cases "i < j") simp_all
  qed
qed

theorem nak_range_exact_witness:
  "\<exists>s'. nak_range demo_sent \<lparr> lr_first = SeqNumber 100, lr_last = SeqNumber 100 \<rparr> = Some s'
    \<and> set (sn_loss_list s') = {0}"
proof -
  have inv: "sender_inv demo_sent"
    by (rule poll_transmit_inv [OF demo_sender_inv, where now = 2000 and 'e = unit]) (simp add: demo_poll)
  have "seq_at demo_sent 0 = SeqNumber 100"
    by (simp add: seq_at_def demo_sent_def demo_sender_defs seq_new_def seq_value_def SEQ_MASK_def)
  then show ?thesis
    using nak_range_exact [OF inv, of "\<lparr> lr_first = SeqNumber 100, lr_last = SeqNumber 100 \<rparr>" 0 0]
    by (auto simp: demo_sent_def demo_sender_defs)
qed

section \<open>Too-late packet drop\<close>

text \<open>
  C23.  Too-late drop is exact.  When the buffered span exceeds the threshold, the packets dropped
  are the maximal late prefix -- every one of them has waited at least the threshold, and the new
  front, if any, has not -- and the peer is told exactly their sequence range; otherwise nothing is
  dropped.
\<close>

theorem tlpktdrop_exact:
  assumes "sn_buffer s \<noteq> []"
    and n_def: "n = (if since (be_origin (last (sn_buffer s))) (be_origin (hd (sn_buffer s))) \<le> drop_threshold s
      then 0 else too_late s now)"
  shows "sn_buffer (check_tlpktdrop s now) = drop n (sn_buffer s)
    \<and> sn_base_index (check_tlpktdrop s now) = sn_base_index s + n
    \<and> (\<forall>e \<in> set (take n (sn_buffer s)). since now (be_origin e) \<ge> drop_threshold s)
    \<and> (since (be_origin (last (sn_buffer s))) (be_origin (hd (sn_buffer s))) > drop_threshold s
         \<longrightarrow> sn_buffer (check_tlpktdrop s now) \<noteq> []
         \<longrightarrow> since now (be_origin (hd (sn_buffer (check_tlpktdrop s now)))) < drop_threshold s)
    \<and> sn_control_queue (check_tlpktdrop s now) = sn_control_queue s @
        (if n = 0 then [] else [DropRequest (msg_new 0) (seq_at s (sn_base_index s)) (seq_at s (sn_base_index s + n - 1))])"
proof -
  let ?P = "\<lambda>e. since now (be_origin e) \<ge> drop_threshold s"
  have late: "take (too_late s now) (sn_buffer s) = takeWhile ?P (sn_buffer s)"
    "drop (too_late s now) (sn_buffer s) = dropWhile ?P (sn_buffer s)"
    by (simp_all add: too_late_def takeWhile_eq_take [symmetric] dropWhile_eq_drop [symmetric])
  have "\<forall>e \<in> set (take n (sn_buffer s)). ?P e"
    by (auto simp: n_def late dest: set_takeWhileD)
  moreover have check: "check_tlpktdrop s now = (if n = 0 then s else drop_front s n True)"
    using assms(1) by (simp add: check_tlpktdrop_def n_def Let_def)
  then have buf: "sn_buffer (check_tlpktdrop s now) = drop n (sn_buffer s)" by simp
  moreover have "since now (be_origin (hd (drop n (sn_buffer s)))) < drop_threshold s"
    if "since (be_origin (last (sn_buffer s))) (be_origin (hd (sn_buffer s))) > drop_threshold s"
      "drop n (sn_buffer s) \<noteq> []"
  proof -
    have "drop n (sn_buffer s) = dropWhile ?P (sn_buffer s)" using that(1) late(2) by (simp add: n_def)
    then show ?thesis using hd_dropWhile [of ?P "sn_buffer s"] that(2) by (metis not_le)
  qed
  ultimately show ?thesis by (auto simp: check)
qed

theorem tlpktdrop_exact_witness:
  "let s = demo_sender\<lparr> sn_buffer := [demo_entry, demo_entry\<lparr> be_origin := 1100000000000 \<rparr>] \<rparr> in
   sn_buffer s \<noteq> [] \<and> sn_buffer (check_tlpktdrop s 1100000000000) = [demo_entry\<lparr> be_origin := 1100000000000 \<rparr>]"
  using tlpktdrop_exact [of "demo_sender\<lparr> sn_buffer := [demo_entry, demo_entry\<lparr> be_origin := 1100000000000 \<rparr>] \<rparr>"
      1 1100000000000]
  by (simp add: too_late_def drop_threshold_def demo_sender_defs TLPKTDROP_MIN_THRESHOLD_def
      TLPKTDROP_REACTION_def from_millis_def)

section \<open>Zero window\<close>

text \<open>
  While the peer advertises no buffer at all, every submission discards all that was waiting, not
  only the oldest packet: the overflow loop runs until the buffer is empty.
\<close>

lemma drop_while_blocked_zero:
  "unat (effective_window s) = 0 \<Longrightarrow> sn_buffer (drop_while_blocked s) = []"
proof (induction s rule: drop_while_blocked.induct)
  case (1 s)
  then show ?case
    by (cases "sn_buffer s = []") (subst drop_while_blocked.simps, simp add: effective_window_def)+
qed

lemma push_zero_window_discards_all:
  assumes "sn_advertised_window s = 0" "push cp s now payload cr = Ok (s', cr')"
  shows "length (sn_buffer s') = 1"
proof -
  have same: "sn_advertised_window (check_tlpktdrop s now) = sn_advertised_window s" for s
    by (simp add: check_tlpktdrop_def Let_def)
  have full: "sn_advertised_window (drop_while_full s) = sn_advertised_window s" for s
    by (induction s rule: drop_while_full.induct) (subst drop_while_full.simps, simp)
  have "sn_buffer (push_room s now (length payload)) = []"
    unfolding push_room_def using assms(1)
    by (intro drop_while_blocked_zero) (simp add: effective_window_def full same)
  then show ?thesis
    using assms(2) by (auto simp: push_eq Let_def bind_outcome_Ok_iff queued_def split: if_splits)
qed

end
