(* ===== verification/Receiver.thy ===== *)
theory Receiver
  imports Packet_Control Packet_Data Time_Base
begin

text \<open>
  The live-mode receiver (\<open>src/core/receiver.rs\<close>): receive buffer, loss list, ACK and NAK
  generation, round-trip estimation and timestamp-based delivery.

  The \<open>VecDeque\<close> of slots is a list of options, the loss list a list of ranges.  Counters
  (\<open>u32\<close>, \<open>u64\<close>) are naturals, 64-bit microsecond offsets integers; the round-trip estimates keep
  their 32-bit width.  Reading an empty slot with \<open>expect\<close> is \<open>Panic\<close>.
\<close>

section \<open>State\<close>

definition FULL_ACK_INTERVAL :: duration where "FULL_ACK_INTERVAL = from_millis 10"
definition LIGHT_ACK_PACKETS :: nat where "LIGHT_ACK_PACKETS = 64"
definition ACK_HISTORY :: nat where "ACK_HISTORY = 1024"
definition RCV_INITIAL_RTT_US :: u32 where "RCV_INITIAL_RTT_US = 100000"
definition RCV_INITIAL_RTT_VAR_US :: u32 where "RCV_INITIAL_RTT_VAR_US = 50000"
definition NAK_MIN_INTERVAL :: duration where "NAK_MIN_INTERVAL = from_millis 20"
definition NAK_INITIAL_INTERVAL :: duration where "NAK_INITIAL_INTERVAL = from_millis 300"
definition MIN_AVAIL_BUF :: nat where "MIN_AVAIL_BUF = 2"
definition DEFAULT_MAX_PAYLOAD :: nat where "DEFAULT_MAX_PAYLOAD = 1456"
definition MIN_NAK_WORDS :: nat where "MIN_NAK_WORDS = 2"

definition incack :: "u32 \<Rightarrow> u32" where
  "incack a = (if a = 0x7FFFFFFF then 0 else a + 1)"

record receiver_config =
  rc_initial_seq :: seq_number
  rc_rcv_latency :: duration
  rc_buffer_pkts :: nat

record receiver_stats =
  rs_pkts_recv :: nat
  rs_bytes_recv :: nat
  rs_pkts_lost :: nat
  rs_pkts_dropped :: nat
  rs_pkts_belated :: nat
  rs_pkts_oversized :: nat
  rs_rtt_us :: u32
  rs_rtt_var_us :: u32
  rs_tsbpd_drift_us :: int

record anchor =
  an_instant :: instant
  an_ext_us :: nat

record rcv_slot =
  sl_payload :: bytes
  sl_msg_number :: msg_number
  sl_ext_us :: nat
  sl_undecryptable :: bool

record ack_record =
  ar_number :: u32
  ar_seq :: seq_number
  ar_sent :: instant

record receiver =
  rv_cfg :: receiver_config
  rv_base_seq :: seq_number
  rv_slots :: "rcv_slot option list"
  rv_scan_hint :: nat
  rv_rcv_curr_seq :: seq_number
  rv_loss :: "loss_range list"
  rv_extender :: ts_extender
  rv_anchor :: "anchor option"
  rv_rcv_last_ack :: seq_number
  rv_rcv_last_ackack :: seq_number
  rv_ack_journal :: "ack_record list"
  rv_ack_seq_no :: u32
  rv_next_full_ack :: instant
  rv_last_ack_time :: instant
  rv_pkt_count :: nat
  rv_light_ack_count :: nat
  rv_nak_interval :: duration
  rv_next_nak_time :: instant
  rv_srtt_us :: u32
  rv_rtt_var_us :: u32
  rv_rtt_first :: bool
  rv_first_rtt_us :: u32
  rv_drift :: drift_tracer
  rv_max_payload :: nat
  rv_discrepancy :: bool
  rv_undecrypted :: nat
  rv_control_q :: "control_type list"
  rv_stats :: receiver_stats

definition receiver_stats_default :: receiver_stats where
  "receiver_stats_default = \<lparr> rs_pkts_recv = 0, rs_bytes_recv = 0, rs_pkts_lost = 0, rs_pkts_dropped = 0,
     rs_pkts_belated = 0, rs_pkts_oversized = 0, rs_rtt_us = 0, rs_rtt_var_us = 0, rs_tsbpd_drift_us = 0 \<rparr>"

definition receiver_new :: "instant \<Rightarrow> receiver_config \<Rightarrow> receiver" where
  "receiver_new now cfg =
     \<lparr> rv_cfg = cfg, rv_base_seq = rc_initial_seq cfg, rv_slots = [], rv_scan_hint = 0,
       rv_rcv_curr_seq = seq_prev (rc_initial_seq cfg), rv_loss = [], rv_extender = extender_new,
       rv_anchor = None, rv_rcv_last_ack = rc_initial_seq cfg, rv_rcv_last_ackack = rc_initial_seq cfg,
       rv_ack_journal = [], rv_ack_seq_no = 0, rv_next_full_ack = now + FULL_ACK_INTERVAL,
       rv_last_ack_time = now, rv_pkt_count = 0, rv_light_ack_count = 1,
       rv_nak_interval = NAK_INITIAL_INTERVAL, rv_next_nak_time = now + NAK_INITIAL_INTERVAL,
       rv_srtt_us = RCV_INITIAL_RTT_US, rv_rtt_var_us = RCV_INITIAL_RTT_VAR_US, rv_rtt_first = True,
       rv_first_rtt_us = 0, rv_drift = drift_new, rv_max_payload = DEFAULT_MAX_PAYLOAD,
       rv_discrepancy = False, rv_undecrypted = 0, rv_control_q = [],
       rv_stats = receiver_stats_default \<rparr>"

definition set_hs_anchor :: "receiver \<Rightarrow> instant \<Rightarrow> timestamp \<Rightarrow> receiver" where
  "set_hs_anchor r at ts =
     (if rv_anchor r \<noteq> None then r
      else
        let (ex, ext_us) = ts_extend (rv_extender r) ts at in
        r\<lparr> rv_extender := ex, rv_anchor := Some \<lparr> an_instant = at, an_ext_us = ext_us \<rparr> \<rparr>)"

definition set_max_payload :: "receiver \<Rightarrow> nat \<Rightarrow> receiver" where
  "set_max_payload r n = r\<lparr> rv_max_payload := n \<rparr>"

definition sequence_discrepancy :: "receiver \<Rightarrow> bool" where
  "sequence_discrepancy r = rv_discrepancy r"

definition undecrypted_count :: "receiver \<Rightarrow> nat" where
  "undecrypted_count r = rv_undecrypted r"

section \<open>The loss list\<close>

fun unlose :: "seq_number \<Rightarrow> loss_range list \<Rightarrow> loss_range list" where
  "unlose s [] = []"
| "unlose s (e # es) =
     (if seq_diff s (lr_first e) < 0 then e # es
      else if seq_diff (lr_last e) s < 0 then e # unlose s es
      else if lr_first e = lr_last e then es
      else if s = lr_first e then e\<lparr> lr_first := seq_next s \<rparr> # es
      else if s = lr_last e then e\<lparr> lr_last := seq_prev s \<rparr> # es
      else e\<lparr> lr_last := seq_prev s \<rparr> # \<lparr> lr_first = seq_next s, lr_last = lr_last e \<rparr> # es)"

text \<open>What one entry leaves of itself when \<open>[lo, hi]\<close> is removed.\<close>

definition cut_entry :: "seq_number \<Rightarrow> seq_number \<Rightarrow> loss_range \<Rightarrow> loss_range list" where
  "cut_entry lo hi e =
     (if seq_diff hi (lr_first e) < 0 \<or> seq_diff (lr_last e) lo < 0 then [e]
      else
        (if seq_diff (lr_first e) lo < 0 then [\<lparr> lr_first = lr_first e, lr_last = seq_prev lo \<rparr>] else []) @
        (if seq_diff (lr_last e) hi > 0 then [\<lparr> lr_first = seq_next hi, lr_last = lr_last e \<rparr>] else []))"

definition remove_loss_range :: "seq_number \<Rightarrow> seq_number \<Rightarrow> loss_range list \<Rightarrow> loss_range list" where
  "remove_loss_range lo hi loss = concat (map (cut_entry lo hi) loss)"

fun nak_take :: "nat \<Rightarrow> nat \<Rightarrow> loss_range list \<Rightarrow> loss_range list" where
  "nak_take max_words words [] = []"
| "nak_take max_words words (e # es) =
     (let need = (if lr_first e = lr_last e then 1 else 2) in
      if words + need > max_words then [] else e # nak_take max_words (words + need) es)"

definition nak_ranges :: "receiver \<Rightarrow> loss_range list" where
  "nak_ranges r = nak_take (max (rv_max_payload r div 4) MIN_NAK_WORDS) 0 (rv_loss r)"

section \<open>Acknowledgements and loss reports\<close>

definition ack_value :: "receiver \<Rightarrow> seq_number" where
  "ack_value r = (case rv_loss r of e # _ \<Rightarrow> lr_first e | [] \<Rightarrow> seq_next (rv_rcv_curr_seq r))"

definition avail_buf_pkts :: "receiver \<Rightarrow> u32" where
  "avail_buf_pkts r =
     (let used = nat (max 0 (seq_diff (rv_rcv_last_ack r) (rv_base_seq r)))
      in of_nat (max (rc_buffer_pkts (rv_cfg r) - used) MIN_AVAIL_BUF))"

definition emit_full_ack :: "receiver \<Rightarrow> instant \<Rightarrow> receiver" where
  "emit_full_ack r now =
     (let n = incack (rv_ack_seq_no r);
          cif = \<lparr> ac_last_ack_seq = rv_rcv_last_ack r, ac_rtt_us = Some (rv_srtt_us r),
                  ac_rtt_var_us = Some (rv_rtt_var_us r), ac_avail_buf_pkts = Some (avail_buf_pkts r),
                  ac_recv_rate_pkts = Some 0, ac_link_capacity_pkts = Some 0,
                  ac_recv_rate_bytes = Some 0 \<rparr>;
          journal = (if length (rv_ack_journal r) = ACK_HISTORY then tl (rv_ack_journal r)
                     else rv_ack_journal r) in
      r\<lparr> rv_ack_seq_no := n,
         rv_control_q := rv_control_q r @ [Ack n cif],
         rv_ack_journal := journal @ [\<lparr> ar_number = n, ar_seq = rv_rcv_last_ack r, ar_sent = now \<rparr>],
         rv_last_ack_time := now \<rparr>)"

definition queue_full_ack :: "receiver \<Rightarrow> instant \<Rightarrow> receiver" where
  "queue_full_ack r now =
     (let ack = ack_value r in
      if ack = rv_rcv_last_ackack r then r
      else
        let advance = seq_diff ack (rv_rcv_last_ack r);
            repeat_after = from_micros (unat (rv_srtt_us r) + 4 * unat (rv_rtt_var_us r)) in
        if advance < 0 then r
        else if advance = 0 \<and> since now (rv_last_ack_time r) < repeat_after then r
        else
          let r1 = (if advance > 0 then r\<lparr> rv_rcv_last_ack := ack \<rparr> else r) in
          if seq_diff (rv_rcv_last_ack r1) (rv_rcv_last_ackack r1) \<le> 0 then r1
          else emit_full_ack r1 now)"

definition queue_light_ack :: "receiver \<Rightarrow> receiver" where
  "queue_light_ack r =
     (let ack = ack_value r in
      if ack = rv_rcv_last_ackack r then r
      else r\<lparr> rv_control_q := rv_control_q r @ [Ack 0 (ack_cif_light ack)] \<rparr>)"

definition queue_nak :: "receiver \<Rightarrow> loss_range list \<Rightarrow> receiver" where
  "queue_nak r ranges =
     (if ranges = [] then r
      else
        r\<lparr> rv_nak_interval :=
             max (from_micros ((unat (rv_srtt_us r) + 4 * unat (rv_rtt_var_us r)) div 2)) NAK_MIN_INTERVAL,
           rv_control_q := rv_control_q r @ [Nak ranges] \<rparr>)"

section \<open>Arrival\<close>

definition bump_belated :: "receiver \<Rightarrow> receiver" where
  "bump_belated r = r\<lparr> rv_stats := (rv_stats r)\<lparr> rs_pkts_belated := rs_pkts_belated (rv_stats r) + 1 \<rparr> \<rparr>"

text \<open>\<open>resize_with(offset + 1, || None)\<close> when the buffer is shorter.\<close>

definition grow_slots :: "'a option list \<Rightarrow> nat \<Rightarrow> 'a option list" where
  "grow_slots xs offset =
     (if length xs \<le> offset then xs @ replicate (offset + 1 - length xs) None else xs)"

text \<open>Gap detection: newly missing packets enter the loss list and are reported at once.\<close>

definition detect_gap :: "receiver \<Rightarrow> seq_number \<Rightarrow> bool \<Rightarrow> receiver" where
  "detect_gap r s undecryptable =
     (let expected = seq_next (rv_rcv_curr_seq r) in
      if seq_diff s expected > 0 \<and> \<not> undecryptable then
        let range = \<lparr> lr_first = expected, lr_last = seq_prev s \<rparr>;
            lost = nat (seq_diff (lr_last range) (lr_first range)) + 1 in
        queue_nak
          (r\<lparr> rv_stats := (rv_stats r)\<lparr> rs_pkts_lost := rs_pkts_lost (rv_stats r) + lost \<rparr>,
             rv_loss := rv_loss r @ [range] \<rparr>)
          [range]
      else r)"

definition track_curr :: "receiver \<Rightarrow> seq_number \<Rightarrow> receiver" where
  "track_curr r s =
     (if seq_diff s (rv_rcv_curr_seq r) > 0 then r\<lparr> rv_rcv_curr_seq := s \<rparr>
      else r\<lparr> rv_loss := unlose s (rv_loss r) \<rparr>)"

definition store_data :: "receiver \<Rightarrow> data_packet \<Rightarrow> nat \<Rightarrow> bool \<Rightarrow> receiver" where
  "store_data r pkt ext_us undecryptable =
     (let s = dp_seq pkt; off = seq_diff s (rv_base_seq r) in
      if off < 0 then bump_belated r
      else
        let offset = nat off in
        if offset \<ge> rc_buffer_pkts (rv_cfg r) then
          (if list_all (\<lambda>x. x = None) (drop (rv_scan_hint r) (rv_slots r))
           then r\<lparr> rv_discrepancy := True \<rparr> else r)
        else
          let r1 = r\<lparr> rv_slots := grow_slots (rv_slots r) offset \<rparr> in
          if rv_slots r1 ! offset \<noteq> None then r1
          else
            let r2 = track_curr (detect_gap r1 s undecryptable) s in
            r2\<lparr> rv_slots := (rv_slots r2)[offset :=
                  Some \<lparr> sl_payload = dp_payload pkt, sl_msg_number = dp_msg_number pkt,
                         sl_ext_us = ext_us, sl_undecryptable = undecryptable \<rparr>],
                rv_scan_hint := min (rv_scan_hint r2) offset,
                rv_undecrypted := rv_undecrypted r2 + (if undecryptable then 1 else 0) \<rparr>)"

definition count_recv :: "receiver \<Rightarrow> nat \<Rightarrow> receiver" where
  "count_recv r len =
     r\<lparr> rv_stats := (rv_stats r)\<lparr> rs_pkts_recv := rs_pkts_recv (rv_stats r) + 1,
                                  rs_bytes_recv := rs_bytes_recv (rv_stats r) + len \<rparr>,
        rv_pkt_count := rv_pkt_count r + 1 \<rparr>"

definition ingest :: "receiver \<Rightarrow> instant \<Rightarrow> data_packet \<Rightarrow> bool \<Rightarrow> receiver" where
  "ingest r now pkt undecryptable =
     (if length (dp_payload pkt) > rv_max_payload r then
        r\<lparr> rv_stats := (rv_stats r)\<lparr> rs_pkts_oversized := rs_pkts_oversized (rv_stats r) + 1 \<rparr> \<rparr>
      else
        let r1 = count_recv r (length (dp_payload pkt));
            (ex, ext_us) = ts_extend (rv_extender r1) (dp_timestamp pkt) now;
            r2 = r1\<lparr> rv_extender := ex,
                     rv_anchor := (case rv_anchor r1 of
                         None \<Rightarrow> Some \<lparr> an_instant = now, an_ext_us = ext_us \<rparr> | Some a \<Rightarrow> Some a) \<rparr>;
            r3 = store_data r2 pkt ext_us undecryptable in
        if rv_pkt_count r3 \<ge> LIGHT_ACK_PACKETS * rv_light_ack_count r3
        then queue_light_ack (r3\<lparr> rv_light_ack_count := rv_light_ack_count r3 + 1 \<rparr>)
        else r3)"

definition handle_data :: "receiver \<Rightarrow> instant \<Rightarrow> data_packet \<Rightarrow> receiver" where
  "handle_data r now pkt = ingest r now pkt False"

definition handle_undecryptable :: "receiver \<Rightarrow> instant \<Rightarrow> data_packet \<Rightarrow> receiver" where
  "handle_undecryptable r now pkt = ingest r now pkt True"

section \<open>Round-trip estimation\<close>

definition journal_pos :: "u32 \<Rightarrow> ack_record list \<Rightarrow> nat" where
  "journal_pos n js = length (takeWhile (\<lambda>j. ar_number j \<noteq> n) js)"

definition rtt_sample :: "receiver \<Rightarrow> u32 \<Rightarrow> receiver" where
  "rtt_sample r rtt_us =
     (if rv_rtt_first r then
        r\<lparr> rv_rtt_first := False, rv_first_rtt_us := rtt_us, rv_srtt_us := rtt_us,
           rv_rtt_var_us := rtt_us div 2 \<rparr>
      else
        let err = (if unat (rv_srtt_us r) \<ge> unat rtt_us then unat (rv_srtt_us r) - unat rtt_us
                   else unat rtt_us - unat (rv_srtt_us r)) in
        r\<lparr> rv_rtt_var_us := of_nat ((3 * unat (rv_rtt_var_us r) + err) div 4),
           rv_srtt_us := of_nat ((7 * unat (rv_srtt_us r) + unat rtt_us) div 8) \<rparr>)"

definition confirm_ackack :: "receiver \<Rightarrow> seq_number \<Rightarrow> receiver" where
  "confirm_ackack r s =
     (if seq_diff s (rv_rcv_last_ackack r) > 0 then r\<lparr> rv_rcv_last_ackack := s \<rparr> else r)"

definition feed_drift :: "receiver \<Rightarrow> instant \<Rightarrow> u32 \<Rightarrow> timestamp \<Rightarrow> receiver" where
  "feed_drift r now rtt_us ts =
     (case rv_anchor r of
        None \<Rightarrow> r
      | Some a \<Rightarrow>
          let (ex, ext_us) = ts_extend (rv_extender r) ts now;
              local_us = int (as_micros (since now (an_instant a)));
              peer_us = int ext_us - int (an_ext_us a);
              rtt_corr_us = (int (unat rtt_us) - int (unat (rv_first_rtt_us r))) sdiv 2 in
          r\<lparr> rv_extender := ex,
             rv_drift := fst (drift_sample (rv_drift r) (local_us - peer_us - rtt_corr_us)) \<rparr>)"

definition handle_ackack :: "receiver \<Rightarrow> instant \<Rightarrow> u32 \<Rightarrow> timestamp \<Rightarrow> receiver" where
  "handle_ackack r now ack_number ts =
     (let pos = journal_pos ack_number (rv_ack_journal r) in
      if pos \<ge> length (rv_ack_journal r) then r
      else
        let entry = rv_ack_journal r ! pos;
            r1 = r\<lparr> rv_ack_journal := drop (pos + 1) (rv_ack_journal r) \<rparr>;
            rtt_us = of_nat (min (as_micros (since now (ar_sent entry))) (2 ^ 32 - 1)) :: u32 in
        if rtt_us = 0 then r1
        else feed_drift (confirm_ackack (rtt_sample r1 rtt_us) (ar_seq entry)) now rtt_us ts)"

section \<open>Drop requests\<close>

text \<open>The \<open>while i <= hi && i < len\<close> loop over the slots of the dropped message.\<close>

function clear_message :: "rcv_slot option list \<Rightarrow> nat \<Rightarrow> int \<Rightarrow> msg_number \<Rightarrow> rcv_slot option list" where
  "clear_message slots i hi m =
     (if int i \<le> hi \<and> i < length slots then
        clear_message
          (case slots ! i of
             Some sl \<Rightarrow> if sl_msg_number sl = m then slots[i := None] else slots
           | None \<Rightarrow> slots) (i + 1) hi m
      else slots)"
  by pat_completeness auto
termination
  by (relation "measure (\<lambda>(slots, i, hi, m). length slots - i)") (auto split: option.split)

declare clear_message.simps [simp del]

definition handle_dropreq :: "receiver \<Rightarrow> msg_number \<Rightarrow> seq_number \<Rightarrow> seq_number \<Rightarrow> receiver" where
  "handle_dropreq r m first last_seq =
     (if seq_diff first last_seq > 0 then r
      else
        let r1 = r\<lparr> rv_loss := remove_loss_range first last_seq (rv_loss r) \<rparr>;
            r2 = (if msg_value m \<noteq> 0 then
                    r1\<lparr> rv_slots := clear_message (rv_slots r1)
                          (nat (max 0 (seq_diff first (rv_base_seq r1))))
                          (seq_diff last_seq (rv_base_seq r1)) m \<rparr>
                  else r1) in
        if seq_diff first (seq_next (rv_rcv_curr_seq r2)) \<le> 0 \<and> seq_diff last_seq (rv_rcv_curr_seq r2) > 0
        then r2\<lparr> rv_rcv_curr_seq := last_seq \<rparr> else r2)"

section \<open>Timers\<close>

definition ack_timer :: "receiver \<Rightarrow> instant \<Rightarrow> receiver" where
  "ack_timer r now =
     (if now \<ge> rv_next_full_ack r then
        (queue_full_ack r now)\<lparr> rv_pkt_count := 0, rv_light_ack_count := 1,
                                rv_next_full_ack := now + FULL_ACK_INTERVAL \<rparr>
      else r)"

definition nak_timer :: "receiver \<Rightarrow> instant \<Rightarrow> receiver" where
  "nak_timer r now =
     (if rv_loss r = [] then r\<lparr> rv_next_nak_time := now + rv_nak_interval r \<rparr>
      else if now \<ge> rv_next_nak_time r then
        let r1 = queue_nak r (nak_ranges r) in
        r1\<lparr> rv_next_nak_time := now + rv_nak_interval r1 \<rparr>
      else r)"

definition receiver_on_timer :: "receiver \<Rightarrow> instant \<Rightarrow> receiver" where
  "receiver_on_timer r now = nak_timer (ack_timer r now) now"

definition receiver_poll_control :: "receiver \<Rightarrow> receiver \<times> control_type option" where
  "receiver_poll_control r =
     (case rv_control_q r of
        [] \<Rightarrow> (r, None)
      | c # cs \<Rightarrow> (r\<lparr> rv_control_q := cs \<rparr>, Some c))"

section \<open>Delivery\<close>

definition tsbpd_deadline :: "receiver \<Rightarrow> anchor \<Rightarrow> nat \<Rightarrow> instant" where
  "tsbpd_deadline r a ext_us =
     (let offset = int ext_us - int (an_ext_us a) + correction_us (rv_drift r)
                   + int (as_micros (rc_rcv_latency (rv_cfg r))) in
      if offset \<ge> 0 then an_instant a + from_micros (nat offset)
      else if from_micros (nat \<bar>offset\<bar>) \<le> an_instant a then an_instant a - from_micros (nat \<bar>offset\<bar>)
      else an_instant a)"

text \<open>\<open>slots.iter().skip(scan_hint).position(is_some)\<close>, offset by the hint.\<close>

definition first_occupied :: "receiver \<Rightarrow> nat option" where
  "first_occupied r =
     (let rest = drop (rv_scan_hint r) (rv_slots r);
          p = length (takeWhile (\<lambda>x. x = None) rest) in
      if p < length rest then Some (rv_scan_hint r + p) else None)"

text \<open>TLPKTDROP: skip the hole before a due packet.\<close>

definition skip_hole :: "receiver \<Rightarrow> nat \<Rightarrow> receiver" where
  "skip_hole r first =
     (if first > 0 then
        r\<lparr> rv_loss := remove_loss_range (rv_base_seq r) (seq_add (rv_base_seq r) (int first - 1)) (rv_loss r),
           rv_stats := (rv_stats r)\<lparr> rs_pkts_dropped := rs_pkts_dropped (rv_stats r) + first \<rparr>,
           rv_slots := drop first (rv_slots r),
           rv_base_seq := seq_add (rv_base_seq r) (int first) \<rparr>
      else r)"

definition pop_slot :: "receiver \<Rightarrow> receiver" where
  "pop_slot r = r\<lparr> rv_scan_hint := 0, rv_slots := tl (rv_slots r), rv_base_seq := seq_next (rv_base_seq r) \<rparr>"

lemma drop_eq_Cons_length: "drop n xs = y # ys \<Longrightarrow> length ys < length xs"
  by (drule arg_cong [where f = length]) simp

function deliver_loop :: "receiver \<Rightarrow> anchor \<Rightarrow> instant \<Rightarrow> (receiver \<times> bytes option, 'e) outcome" where
  "deliver_loop r a now =
     (case first_occupied r of
        None \<Rightarrow> Ok (r\<lparr> rv_scan_hint := length (rv_slots r) \<rparr>, None)
      | Some first \<Rightarrow>
          let r1 = r\<lparr> rv_scan_hint := first \<rparr> in
          (case rv_slots r1 ! first of
             None \<Rightarrow> Panic
           | Some peek \<Rightarrow>
               if tsbpd_deadline r1 a (sl_ext_us peek) > now then Ok (r1, None)
               else
                 let r2 = skip_hole r1 first in
                 (case rv_slots r2 of
                    Some sl # _ \<Rightarrow>
                      let r3 = pop_slot r2 in
                      if sl_undecryptable sl then
                        deliver_loop
                          (r3\<lparr> rv_stats := (rv_stats r3)
                                \<lparr> rs_pkts_dropped := rs_pkts_dropped (rv_stats r3) + 1 \<rparr> \<rparr>) a now
                      else Ok (r3, Some (sl_payload sl))
                  | _ \<Rightarrow> Panic)))"
  by pat_completeness auto
termination
  by (relation "measure (\<lambda>(r, _, _). length (rv_slots r))")
    (auto simp: skip_hole_def pop_slot_def dest: drop_eq_Cons_length split: if_splits)

declare deliver_loop.simps [simp del]

definition poll_deliver :: "receiver \<Rightarrow> instant \<Rightarrow> (receiver \<times> bytes option, 'e) outcome" where
  "poll_deliver r now =
     (case rv_anchor r of None \<Rightarrow> Ok (r, None) | Some a \<Rightarrow> deliver_loop r a now)"

definition receiver_next_deadline :: "receiver \<Rightarrow> instant \<Rightarrow> instant option" where
  "receiver_next_deadline r now =
     (let d0 = rv_next_full_ack r;
          d1 = (if rv_loss r \<noteq> [] then min d0 (rv_next_nak_time r) else d0);
          d2 = (case (rv_anchor r, first_occupied r) of
                  (Some a, Some i) \<Rightarrow>
                    (case rv_slots r ! i of
                       Some sl \<Rightarrow> min d1 (tsbpd_deadline r a (sl_ext_us sl))
                     | None \<Rightarrow> d1)
                | _ \<Rightarrow> d1)
      in Some (max d2 now))"

definition receiver_rtt :: "receiver \<Rightarrow> u32 \<times> u32" where
  "receiver_rtt r = (rv_srtt_us r, rv_rtt_var_us r)"

definition receiver_stats_of :: "receiver \<Rightarrow> receiver_stats" where
  "receiver_stats_of r =
     (rv_stats r)\<lparr> rs_rtt_us := rv_srtt_us r, rs_rtt_var_us := rv_rtt_var_us r,
                   rs_tsbpd_drift_us := correction_us (rv_drift r) \<rparr>"

end
