(* ===== verification/Receiver_Spec.thy ===== *)
theory Receiver_Spec
  imports Receiver
begin

text \<open>
  The specification of the receiver and the refinement relation.

  The specification (\<open>rcv_spec\<close>) numbers packets with unbounded integers: the buffer is a partial
  map, the losses a set, and the acknowledged and confirmed positions plain indices.  It has no
  wrap-around, no ranges and no scan hint.  \<open>represents\<close> relates it to the translated receiver,
  whose sequence numbers are the wire images (\<open>seq_of\<close>) of the indices.
\<close>

section \<open>Slots\<close>

definition slot_at :: "'a option list \<Rightarrow> int \<Rightarrow> 'a option" where
  "slot_at xs k = (if 0 \<le> k \<and> k < int (length xs) then xs ! nat k else None)"

lemma slot_at_Nil [simp]: "slot_at [] k = None"
  by (auto simp: slot_at_def)

lemma slot_at_grow [simp]: "slot_at (grow_slots xs n) k = slot_at xs k"
  by (auto simp: slot_at_def grow_slots_def nth_append nat_less_iff)

lemma length_grow: "length (grow_slots xs n) = max (length xs) (n + 1)"
  by (simp add: grow_slots_def)

lemma slot_at_update:
  "n < length xs \<Longrightarrow> slot_at (xs[n := v]) k = (if k = int n then v else slot_at xs k)"
  by (auto simp: slot_at_def nth_list_update)

lemma slot_at_drop: "slot_at (drop n xs) k = (if 0 \<le> k then slot_at xs (k + int n) else None)"
  by (auto simp: slot_at_def nat_add_distrib add.commute)

lemma slot_at_int: "slot_at xs (int n) = (if n < length xs then xs ! n else None)"
  by (simp add: slot_at_def)

lemma slot_at_Some: "slot_at xs k = Some v \<Longrightarrow> 0 \<le> k \<and> k < int (length xs)"
  by (simp add: slot_at_def split: if_splits)

lemma clear_message_length [simp]: "length (clear_message xs i hi m) = length xs"
proof (induction xs i hi m rule: clear_message.induct)
  case (1 xs i hi m)
  show ?case
  proof (cases "int i \<le> hi \<and> i < length xs")
    case True
    then show ?thesis using 1 by (subst clear_message.simps) (simp split: option.split)
  next
    case False
    then show ?thesis by (subst clear_message.simps) auto
  qed
qed

lemma slot_at_clear:
  "slot_at (clear_message xs i hi m) k =
     (if int i \<le> k \<and> k \<le> hi \<and> map_option sl_msg_number (slot_at xs k) = Some m then None
      else slot_at xs k)"
proof (induction xs i hi m rule: clear_message.induct)
  case (1 xs i hi m)
  show ?case
  proof (cases "int i \<le> hi \<and> i < length xs")
    case True
    let ?xs = "case xs ! i of Some sl \<Rightarrow> if sl_msg_number sl = m then xs[i := None] else xs | None \<Rightarrow> xs"
    have at: "slot_at ?xs k =
        (if k = int i \<and> map_option sl_msg_number (slot_at xs k) = Some m then None else slot_at xs k)" for k
      using True by (auto simp: slot_at_update slot_at_int split: option.split)
    have "slot_at (clear_message xs i hi m) k = slot_at (clear_message ?xs (i + 1) hi m) k"
      using True by (subst clear_message.simps) simp
    also have "\<dots> = (if int i \<le> k \<and> k \<le> hi \<and> map_option sl_msg_number (slot_at xs k) = Some m then None
        else slot_at xs k)"
      using 1 [OF True] True by (auto simp: at)
    finally show ?thesis .
  next
    case False
    then have "slot_at xs k = None" if "int i \<le> k" "k \<le> hi"
      using that by (auto simp: slot_at_def)
    then show ?thesis using False by (subst clear_message.simps) auto
  qed
qed

definition hint_ok :: "receiver \<Rightarrow> bool" where
  "hint_ok r \<longleftrightarrow> (\<forall>k < int (rv_scan_hint r). slot_at (rv_slots r) k = None)"

lemma first_occupied_None:
  assumes "hint_ok r" "first_occupied r = None" shows "slot_at (rv_slots r) k = None"
proof -
  let ?rest = "drop (rv_scan_hint r) (rv_slots r)"
  have "length (takeWhile (\<lambda>x. x = None) ?rest) = length ?rest"
    using assms(2) length_takeWhile_le [of "\<lambda>x. x = None" ?rest]
    by (auto simp: first_occupied_def Let_def not_less split: if_splits)
  then have all: "x = None" if "x \<in> set ?rest" for x
    using that by (metis takeWhile_eq_take take_all_iff order_refl set_takeWhileD)
  have "slot_at ?rest (k - int (rv_scan_hint r)) = None"
    unfolding slot_at_def using all by (auto simp del: nth_drop set_drop_subset intro!: nth_mem)
  then show ?thesis
    using assms(1) by (cases "k < int (rv_scan_hint r)") (auto simp: slot_at_drop hint_ok_def)
qed

lemma first_occupied_Some:
  assumes "hint_ok r" "first_occupied r = Some p"
  obtains sl where "p < length (rv_slots r)" "rv_slots r ! p = Some sl"
    "\<And>k. k < int p \<Longrightarrow> slot_at (rv_slots r) k = None"
proof -
  let ?rest = "drop (rv_scan_hint r) (rv_slots r)"
  let ?q = "length (takeWhile (\<lambda>x. x = None) ?rest)"
  have q: "?q < length ?rest" and p: "p = rv_scan_hint r + ?q"
    using assms(2) by (auto simp: first_occupied_def Let_def split: if_splits)
  have len: "p < length (rv_slots r)" using q p by simp
  have "?rest ! ?q \<noteq> None" using takeWhile_none_left [OF q] .
  moreover have "?rest ! ?q = rv_slots r ! p" using q unfolding p by (subst nth_drop) auto
  ultimately obtain sl where sl: "rv_slots r ! p = Some sl" by auto
  have "slot_at (rv_slots r) k = None" if "k < int p" for k
  proof (cases "k < int (rv_scan_hint r)")
    case True
    then show ?thesis using assms(1) by (simp add: hint_ok_def)
  next
    case False
    let ?j = "nat k - rv_scan_hint r"
    have j: "?j < ?q" using that False p by (simp add: nat_less_iff less_diff_conv2 of_nat_diff)
    then have "takeWhile (\<lambda>x. x = None) ?rest ! ?j = ?rest ! ?j" by (rule takeWhile_nth)
    moreover have "takeWhile (\<lambda>x. x = None) ?rest ! ?j = None"
      using nth_mem [OF j] set_takeWhileD by fast
    moreover have "?rest ! ?j = rv_slots r ! nat k"
      using False j q by (subst nth_drop) (auto simp: nat_less_iff)
    ultimately show ?thesis using False by (simp add: slot_at_def)
  qed
  with len sl show thesis by (rule that)
qed

section \<open>Loss ranges\<close>

definition wire_range :: "int \<times> int \<Rightarrow> loss_range" where
  "wire_range p = \<lparr> lr_first = seq_of (fst p), lr_last = seq_of (snd p) \<rparr>"

definition members :: "(int \<times> int) list \<Rightarrow> int set" where
  "members rs = (\<Union>p \<in> set rs. {fst p .. snd p})"

fun ascending :: "int \<Rightarrow> int \<Rightarrow> (int \<times> int) list \<Rightarrow> bool" where
  "ascending lo hi [] = True"
| "ascending lo hi (p # rs) = (lo \<le> fst p \<and> fst p \<le> snd p \<and> snd p \<le> hi \<and> ascending (snd p + 1) hi rs)"

lemma wire_range_sel [simp]:
  "lr_first (wire_range p) = seq_of (fst p)" "lr_last (wire_range p) = seq_of (snd p)"
  by (simp_all add: wire_range_def)

lemma members_simps [simp]:
  "members [] = {}" "members (p # rs) = {fst p .. snd p} \<union> members rs"
  "members (rs @ rs') = members rs \<union> members rs'"
  by (auto simp: members_def)

lemma ascending_entry:
  "ascending lo hi rs \<Longrightarrow> p \<in> set rs \<Longrightarrow> lo \<le> fst p \<and> fst p \<le> snd p \<and> snd p \<le> hi"
  by (induction rs arbitrary: lo) fastforce+

lemma ascending_members: "ascending lo hi rs \<Longrightarrow> members rs \<subseteq> {lo .. hi}"
  by (induction rs arbitrary: lo) force+

lemma ascending_mono: "ascending lo hi rs \<Longrightarrow> lo' \<le> lo \<Longrightarrow> hi \<le> hi' \<Longrightarrow> ascending lo' hi' rs"
  by (induction rs arbitrary: lo lo') auto

lemma ascending_append:
  "ascending lo m rs \<Longrightarrow> ascending (m + 1) hi rs' \<Longrightarrow> lo \<le> m + 1 \<Longrightarrow> m \<le> hi
   \<Longrightarrow> ascending lo hi (rs @ rs')"
  by (induction rs arbitrary: lo) (auto intro: ascending_mono)

lemma ascending_restrict:
  "ascending lo hi rs \<Longrightarrow> members rs \<subseteq> {lo' ..} \<Longrightarrow> ascending lo' hi rs"
  by (cases rs) auto

lemma ascending_narrow:
  "ascending lo hi rs \<Longrightarrow> members rs \<subseteq> {.. hi'} \<Longrightarrow> ascending lo hi' rs"
  by (induction rs arbitrary: lo) auto

lemma members_Nil_iff: "ascending lo hi rs \<Longrightarrow> members rs = {} \<longleftrightarrow> rs = []"
  by (cases rs) auto

lemma members_Min: "ascending lo hi (p # rs) \<Longrightarrow> Min (members (p # rs)) = fst p"
proof -
  assume asc: "ascending lo hi (p # rs)"
  have "finite (members (p # rs))" by (simp add: members_def)
  moreover have "members rs \<subseteq> {snd p + 1 .. hi}" using asc by (intro ascending_members) simp
  then have "fst p \<le> x" if "x \<in> members (p # rs)" for x using that asc by auto
  moreover have "fst p \<in> members (p # rs)" using asc by simp
  ultimately show ?thesis by (rule Min_eqI)
qed

lemma near_cmp:
  assumes "\<bar>i - j\<bar> < 2 ^ 30"
  shows "seq_diff (seq_of i) (seq_of j) = i - j" and "seq_of i = seq_of j \<longleftrightarrow> i = j"
  using assms sq.dist_rep [of i j] sq.rep_inj [of i j] by auto

lemma unlose_wire:
  assumes "ascending lo hi rs" "lo \<le> s" "s \<le> hi" "hi - lo < 2 ^ 30"
  shows "\<exists>rs'. unlose (seq_of s) (map wire_range rs) = map wire_range rs' \<and> ascending lo hi rs'
           \<and> members rs' = members rs - {s}"
  using assms
proof (induction rs arbitrary: lo)
  case (Cons p rs)
  obtain x y where p: "p = (x, y)" by force
  have b: "lo \<le> x" "x \<le> y" "y \<le> hi" and asc: "ascending (y + 1) hi rs" using Cons.prems(1) by (auto simp: p)
  have rest: "members rs \<subseteq> {y + 1 .. hi}" by (rule ascending_members [OF asc])
  have d: "seq_diff (seq_of s) (seq_of x) = s - x" "seq_diff (seq_of y) (seq_of s) = y - s"
    "seq_of x = seq_of y \<longleftrightarrow> x = y" "seq_of s = seq_of x \<longleftrightarrow> s = x" "seq_of s = seq_of y \<longleftrightarrow> s = y"
    using b Cons.prems(2-4) by (intro near_cmp; linarith)+
  have step: "unlose (seq_of s) (map wire_range (p # rs)) =
      (if s < x then map wire_range (p # rs) else if y < s then wire_range p # unlose (seq_of s) (map wire_range rs)
       else if x = y then map wire_range rs else if s = x then map wire_range ((s + 1, y) # rs)
       else if s = y then map wire_range ((x, s - 1) # rs)
       else map wire_range ((x, s - 1) # (s + 1, y) # rs))"
    by (simp add: p d seq_simps wire_range_def)
  consider "s < x" | "y < s" | "x = y" "s = x" | "x < y" "s = x" | "x < y" "s = y" | "x < s" "s < y"
    by linarith
  then show ?case
  proof cases
    case 1
    have "s \<notin> members (p # rs)" using 1 b rest by (auto simp: p)
    then show ?thesis unfolding step using 1 Cons.prems(1) by (intro exI [of _ "p # rs"]) simp
  next
    case 2
    have "y + 1 \<le> s" "hi - (y + 1) < 2 ^ 30" using 2 b Cons.prems(4) by linarith+
    then obtain rs' where rs': "unlose (seq_of s) (map wire_range rs) = map wire_range rs'"
      "ascending (y + 1) hi rs'" "members rs' = members rs - {s}"
      using Cons.IH [OF asc _ Cons.prems(3)] by blast
    have "members (p # rs') = members (p # rs) - {s}" using 2 by (auto simp: p rs'(3))
    then show ?thesis unfolding step using 2 b rs' by (intro exI [of _ "p # rs'"]) (simp add: p)
  next
    case 3
    have "members rs = members (p # rs) - {s}" using 3 rest by (auto simp: p)
    moreover have "ascending lo hi rs" using asc b by (auto intro: ascending_mono)
    ultimately show ?thesis unfolding step using 3 by (intro exI [of _ rs]) simp
  next
    case 4
    have "members ((s + 1, y) # rs) = members (p # rs) - {s}" using 4 rest by (auto simp: p)
    then show ?thesis unfolding step using 4 asc b by (intro exI [of _ "(s + 1, y) # rs"]) simp
  next
    case 5
    have "members ((x, s - 1) # rs) = members (p # rs) - {s}" using 5 rest by (auto simp: p)
    moreover have "ascending s hi rs" using asc 5 by (auto intro: ascending_mono)
    ultimately show ?thesis unfolding step using 5 b by (intro exI [of _ "(x, s - 1) # rs"]) simp
  next
    case 6
    have "members ((x, s - 1) # (s + 1, y) # rs) = members (p # rs) - {s}" using 6 rest by (auto simp: p)
    then show ?thesis unfolding step using 6 asc b
      by (intro exI [of _ "(x, s - 1) # (s + 1, y) # rs"]) simp
  qed
qed simp

definition cut_range :: "int \<Rightarrow> int \<Rightarrow> int \<times> int \<Rightarrow> (int \<times> int) list" where
  "cut_range l h p =
     (if h < fst p \<or> snd p < l then [p]
      else (if fst p < l then [(fst p, l - 1)] else []) @ (if h < snd p then [(h + 1, snd p)] else []))"

lemma cut_entry_wire:
  assumes "\<bar>l - fst p\<bar> < 2 ^ 30" "\<bar>l - snd p\<bar> < 2 ^ 30" "\<bar>h - fst p\<bar> < 2 ^ 30" "\<bar>h - snd p\<bar> < 2 ^ 30"
  shows "cut_entry (seq_of l) (seq_of h) (wire_range p) = map wire_range (cut_range l h p)"
proof -
  have "seq_diff (seq_of h) (seq_of (fst p)) = h - fst p" "seq_diff (seq_of (snd p)) (seq_of l) = snd p - l"
    "seq_diff (seq_of (fst p)) (seq_of l) = fst p - l" "seq_diff (seq_of (snd p)) (seq_of h) = snd p - h"
    using assms by (auto intro!: near_cmp)
  then show ?thesis by (auto simp: cut_entry_def cut_range_def wire_range_def seq_simps)
qed

lemma cut_range_asc:
  assumes "l \<le> h" "fst p \<le> snd p"
  shows "ascending (fst p) (snd p) (cut_range l h p)" "members (cut_range l h p) = {fst p .. snd p} - {l .. h}"
  using assms by (auto simp: cut_range_def)

lemma remove_loss_wire:
  assumes "ascending lo hi rs" "l \<le> h" "hi - l < 2 ^ 30" "h - lo < 2 ^ 30" "l - lo < 2 ^ 30" "hi - h < 2 ^ 30"
    "h - hi < 2 ^ 30"
  shows "\<exists>rs'. remove_loss_range (seq_of l) (seq_of h) (map wire_range rs) = map wire_range rs'
           \<and> ascending lo hi rs' \<and> members rs' = members rs - {l .. h}"
proof (intro exI conjI)
  let ?cut = "\<lambda>rs. concat (map (cut_range l h) rs)"
  have inside: "lo \<le> fst p \<and> fst p \<le> snd p \<and> snd p \<le> hi" if "p \<in> set rs" for p
    by (rule ascending_entry [OF assms(1) that])
  have "cut_entry (seq_of l) (seq_of h) (wire_range p) = map wire_range (cut_range l h p)" if "p \<in> set rs" for p
    using inside [OF that] assms(2-) by (intro cut_entry_wire) auto
  then show "remove_loss_range (seq_of l) (seq_of h) (map wire_range rs) = map wire_range (?cut rs)"
    by (simp add: remove_loss_range_def map_concat cong: map_cong)
  show "ascending lo hi (?cut rs)"
    using assms(1)
  proof (induction rs arbitrary: lo)
    case (Cons p rs)
    then have "ascending lo (snd p) (cut_range l h p)" "ascending (snd p + 1) hi (?cut rs)"
      using cut_range_asc(1) [OF assms(2), of p] by (auto intro: ascending_mono)
    then show ?case using Cons.prems by (auto intro: ascending_append)
  qed simp
  show "members (?cut rs) = members rs - {l .. h}"
    using inside
  proof (induction rs)
    case (Cons p rs)
    then show ?case using cut_range_asc(2) [OF assms(2), of p] by auto
  qed simp
qed

section \<open>The specification\<close>

record rcv_spec =
  sp_base :: int
  sp_curr :: int
  sp_buf :: "int \<Rightarrow> rcv_slot option"
  sp_loss :: "int set"
  sp_acked :: int
  sp_confirmed :: int

text \<open>The position an acknowledgement carries: the first missing packet, or the next new one.\<close>

definition ack_pos :: "rcv_spec \<Rightarrow> int" where
  "ack_pos a = (if sp_loss a = {} then sp_curr a + 1 else Min (sp_loss a))"

text \<open>The index nearest to the delivery point that a wire sequence number stands for.\<close>

definition near :: "rcv_spec \<Rightarrow> seq_number \<Rightarrow> int" where
  "near a s = sp_base a + seq_diff s (seq_of (sp_base a))"

text \<open>A packet with index \<open>i\<close> is admitted when it is neither belated, beyond the buffer, nor a duplicate.\<close>

definition admits :: "rcv_spec \<Rightarrow> nat \<Rightarrow> int \<Rightarrow> bool" where
  "admits a cap i \<longleftrightarrow> sp_base a \<le> i \<and> i < sp_base a + int cap \<and> sp_buf a i = None"

definition sp_store :: "rcv_spec \<Rightarrow> nat \<Rightarrow> int \<Rightarrow> rcv_slot \<Rightarrow> rcv_spec" where
  "sp_store a cap i sl =
     (if admits a cap i then
        a\<lparr> sp_buf := (sp_buf a)(i := Some sl),
           sp_loss := (if i > sp_curr a
                       then sp_loss a \<union> (if sl_undecryptable sl then {} else {sp_curr a + 1 ..< i})
                       else sp_loss a - {i}),
           sp_curr := max (sp_curr a) i \<rparr>
      else a)"

definition sp_dropreq :: "rcv_spec \<Rightarrow> msg_number \<Rightarrow> int \<Rightarrow> int \<Rightarrow> rcv_spec" where
  "sp_dropreq a m f l =
     (if f > l then a
      else
        a\<lparr> sp_loss := sp_loss a - {f .. l},
           sp_buf := (\<lambda>i. if msg_value m \<noteq> 0 \<and> f \<le> i \<and> i \<le> l
                             \<and> map_option sl_msg_number (sp_buf a i) = Some m
                         then None else sp_buf a i),
           sp_curr := (if f \<le> sp_curr a + 1 then max (sp_curr a) l else sp_curr a) \<rparr>)"

text \<open>Delivering up to and including \<open>m\<close>.\<close>

definition sp_release :: "rcv_spec \<Rightarrow> int \<Rightarrow> rcv_spec" where
  "sp_release a m =
     a\<lparr> sp_base := m + 1, sp_loss := sp_loss a \<inter> {m <..},
        sp_buf := (\<lambda>i. if i \<le> m then None else sp_buf a i) \<rparr>"

text \<open>
  The packets one delivery call consumes: buffered packets all of whose buffered predecessors
  (themselves included) are due, and all of whose strict predecessors are undecryptable.
\<close>

definition consumed :: "(rcv_slot \<Rightarrow> bool) \<Rightarrow> rcv_spec \<Rightarrow> int set" where
  "consumed due a =
     {i. (\<exists>sl. sp_buf a i = Some sl \<and> due sl)
         \<and> (\<forall>j < i. \<forall>sl. sp_buf a j = Some sl \<longrightarrow> due sl \<and> sl_undecryptable sl)}"

definition sp_deliver :: "(rcv_slot \<Rightarrow> bool) \<Rightarrow> rcv_spec \<Rightarrow> rcv_spec \<times> (int \<times> bytes) option" where
  "sp_deliver due a =
     (if consumed due a = {} then (a, None)
      else
        let m = Max (consumed due a); sl = the (sp_buf a m) in
        (sp_release a m, if sl_undecryptable sl then None else Some (m, sl_payload sl)))"

definition sp_ack :: "rcv_spec \<Rightarrow> rcv_spec" where
  "sp_ack a = a\<lparr> sp_acked := ack_pos a \<rparr>"

definition sp_confirm :: "rcv_spec \<Rightarrow> int \<Rightarrow> rcv_spec" where
  "sp_confirm a p = a\<lparr> sp_confirmed := max (sp_confirmed a) p \<rparr>"

text \<open>The invariant of the specification.\<close>

definition spec_ok :: "rcv_spec \<Rightarrow> bool" where
  "spec_ok a \<longleftrightarrow>
     sp_base a \<le> sp_curr a + 1
     \<and> (\<forall>i sl. sp_buf a i = Some sl \<longrightarrow> sp_base a \<le> i \<and> i \<le> sp_curr a \<and> i \<notin> sp_loss a)
     \<and> (\<forall>i \<in> sp_loss a. sp_base a \<le> i \<and> i \<le> sp_curr a)
     \<and> sp_confirmed a \<le> sp_acked a \<and> sp_acked a \<le> ack_pos a"

lemma spec_ok_finite: "spec_ok a \<Longrightarrow> finite (sp_loss a) \<and> finite (dom (sp_buf a))"
  by (auto simp: spec_ok_def intro!: finite_subset [of _ "{sp_base a .. sp_curr a}"])

lemma ack_pos_bounds:
  assumes "spec_ok a" shows "sp_base a \<le> ack_pos a \<and> ack_pos a \<le> sp_curr a + 1"
proof (cases "sp_loss a = {}")
  case False
  then have "Min (sp_loss a) \<in> sp_loss a" using spec_ok_finite [OF assms] by simp
  then show ?thesis using assms False by (auto simp: ack_pos_def spec_ok_def)
qed (use assms in \<open>simp add: ack_pos_def spec_ok_def\<close>)

text \<open>The acknowledged position never moves back when losses shrink or the newest index grows.\<close>

lemma ack_pos_mono:
  assumes "spec_ok a" "finite (sp_loss a')" "sp_curr a \<le> sp_curr a'"
    and "sp_loss a' \<subseteq> sp_loss a \<union> {sp_curr a <..}"
  shows "ack_pos a \<le> ack_pos a'"
proof (cases "sp_loss a' = {}")
  case True
  then show ?thesis using ack_pos_bounds [OF assms(1)] assms(3) by (simp add: ack_pos_def)
next
  case False
  then have "Min (sp_loss a') \<in> sp_loss a \<union> {sp_curr a <..}" using assms(2,4) Min_in by blast
  then have "ack_pos a \<le> Min (sp_loss a')"
  proof
    assume "Min (sp_loss a') \<in> sp_loss a"
    then show ?thesis using spec_ok_finite [OF assms(1)] by (auto simp: ack_pos_def)
  next
    assume "Min (sp_loss a') \<in> {sp_curr a <..}"
    then show ?thesis using ack_pos_bounds [OF assms(1)] by simp
  qed
  then show ?thesis using False by (simp add: ack_pos_def)
qed

lemma sp_store_ok:
  assumes "spec_ok a" shows "spec_ok (sp_store a cap i sl)"
proof (cases "admits a cap i")
  case True
  have "ack_pos a \<le> ack_pos (sp_store a cap i sl)"
    using assms spec_ok_finite [OF assms] True by (intro ack_pos_mono) (auto simp: sp_store_def)
  then show ?thesis
    using assms True by (auto simp: spec_ok_def sp_store_def admits_def split: if_splits)
qed (use assms in \<open>simp add: sp_store_def\<close>)

lemma spec_ok_shrink:
  assumes "spec_ok a" "sp_base a \<le> sp_base a'" "sp_base a' \<le> sp_curr a' + 1" "sp_curr a \<le> sp_curr a'"
    and "\<And>i sl. sp_buf a' i = Some sl \<Longrightarrow> sp_buf a i = Some sl \<and> sp_base a' \<le> i"
    and "\<And>i. i \<in> sp_loss a' \<Longrightarrow> i \<in> sp_loss a \<and> sp_base a' \<le> i"
    and "sp_acked a' = sp_acked a" "sp_confirmed a' = sp_confirmed a"
  shows "spec_ok a'"
proof -
  have "ack_pos a \<le> ack_pos a'"
  proof (rule ack_pos_mono [OF assms(1) _ assms(4)])
    show "sp_loss a' \<subseteq> sp_loss a \<union> {sp_curr a <..}" using assms(6) by blast
    show "finite (sp_loss a')"
      using assms(6) spec_ok_finite [OF assms(1)] by (meson finite_subset subsetI)
  qed
  moreover have "sp_base a' \<le> i \<and> i \<le> sp_curr a' \<and> i \<notin> sp_loss a'" if "sp_buf a' i = Some sl" for i sl
  proof -
    have "i \<le> sp_curr a" "i \<notin> sp_loss a" using assms(1,5) that by (auto simp: spec_ok_def)
    then show ?thesis using assms(4,5,6) that by force
  qed
  moreover have "sp_base a' \<le> i \<and> i \<le> sp_curr a'" if "i \<in> sp_loss a'" for i
  proof -
    have "i \<le> sp_curr a" using assms(1,6) that by (auto simp: spec_ok_def)
    then show ?thesis using assms(4,6) that by force
  qed
  ultimately show ?thesis using assms(1,3,7,8) by (simp add: spec_ok_def)
qed

lemma sp_dropreq_ok: "spec_ok a \<Longrightarrow> spec_ok (sp_dropreq a m f l)"
  by (rule spec_ok_shrink [of a]) (auto simp: sp_dropreq_def spec_ok_def split: if_splits)

lemma sp_release_ok:
  "spec_ok a \<Longrightarrow> sp_base a \<le> m + 1 \<Longrightarrow> m \<le> sp_curr a \<Longrightarrow> spec_ok (sp_release a m)"
  by (rule spec_ok_shrink [of a]) (auto simp: sp_release_def split: if_splits)

lemma consumed_subset: "consumed due a \<subseteq> dom (sp_buf a)"
  by (auto simp: consumed_def)

lemma consumed_Max:
  assumes "spec_ok a" "consumed due a \<noteq> {}"
  shows "Max (consumed due a) \<in> consumed due a" and "sp_base a \<le> Max (consumed due a)"
    and "Max (consumed due a) \<le> sp_curr a"
proof -
  have "finite (consumed due a)"
    using spec_ok_finite [OF assms(1)] consumed_subset finite_subset by blast
  then show m: "Max (consumed due a) \<in> consumed due a" using assms(2) by simp
  show "sp_base a \<le> Max (consumed due a)" "Max (consumed due a) \<le> sp_curr a"
    using m consumed_subset assms(1) unfolding spec_ok_def by fastforce+
qed

lemma sp_deliver_ok:
  assumes "spec_ok a" shows "spec_ok (fst (sp_deliver due a))"
proof (cases "consumed due a = {}")
  case False
  then show ?thesis
    using consumed_Max [OF assms False] assms by (simp add: sp_deliver_def Let_def sp_release_ok)
qed (use assms in \<open>simp add: sp_deliver_def\<close>)

lemma sp_ack_ok: "spec_ok a \<Longrightarrow> spec_ok (sp_ack a)"
  by (auto simp: spec_ok_def sp_ack_def ack_pos_def)

section \<open>Refinement relation\<close>

definition rep_window :: "rcv_spec \<Rightarrow> receiver \<Rightarrow> bool" where
  "rep_window a r \<longleftrightarrow>
     rv_base_seq r = seq_of (sp_base a) \<and> rv_rcv_curr_seq r = seq_of (sp_curr a)
     \<and> (\<forall>i. sp_buf a i = slot_at (rv_slots r) (i - sp_base a))
     \<and> (\<exists>rs. rv_loss r = map wire_range rs \<and> ascending (sp_base a) (sp_curr a) rs \<and> members rs = sp_loss a)
     \<and> hint_ok r
     \<and> int (length (rv_slots r)) \<le> sp_curr a - sp_base a + 1
     \<and> length (rv_slots r) \<le> rc_buffer_pkts (rv_cfg r)
     \<and> rc_buffer_pkts (rv_cfg r) \<le> 2 ^ 29 \<and> sp_curr a - sp_base a < 2 ^ 29"

definition rep_acks :: "rcv_spec \<Rightarrow> receiver \<Rightarrow> bool" where
  "rep_acks a r \<longleftrightarrow>
     rv_rcv_last_ack r = seq_of (sp_acked a) \<and> rv_rcv_last_ackack r = seq_of (sp_confirmed a)
     \<and> sp_acked a - sp_confirmed a < 2 ^ 30
     \<and> (\<exists>ps. map ar_seq (rv_ack_journal r) = map seq_of ps \<and> sorted (sp_confirmed a # ps)
            \<and> (\<forall>p \<in> set ps. p \<le> sp_acked a))"

definition represents :: "rcv_spec \<Rightarrow> receiver \<Rightarrow> bool" where
  "represents a r \<longleftrightarrow> spec_ok a \<and> rep_window a r \<and> rep_acks a r"

lemma rep_window_cong:
  assumes "rep_window a r" "rv_base_seq r' = rv_base_seq r" "rv_rcv_curr_seq r' = rv_rcv_curr_seq r"
    "rv_slots r' = rv_slots r" "rv_loss r' = rv_loss r" "rv_scan_hint r' = rv_scan_hint r"
    "rv_cfg r' = rv_cfg r"
  shows "rep_window a r'"
  using assms by (simp add: rep_window_def hint_ok_def)

lemma rep_acks_cong:
  assumes "rep_acks a r" "rv_rcv_last_ack r' = rv_rcv_last_ack r" "rv_rcv_last_ackack r' = rv_rcv_last_ackack r"
    "rv_ack_journal r' = rv_ack_journal r" "sp_acked a' = sp_acked a" "sp_confirmed a' = sp_confirmed a"
  shows "rep_acks a' r'"
  using assms by (simp add: rep_acks_def)

lemma rep_window_loss:
  assumes "rep_window a r"
  obtains rs where "rv_loss r = map wire_range rs" "ascending (sp_base a) (sp_curr a) rs" "members rs = sp_loss a"
  using assms by (auto simp: rep_window_def)

lemma ack_value_pos:
  assumes "rep_window a r" shows "ack_value r = seq_of (ack_pos a)"
proof -
  obtain rs where rs: "rv_loss r = map wire_range rs" "ascending (sp_base a) (sp_curr a) rs" "members rs = sp_loss a"
    using rep_window_loss [OF assms] .
  show ?thesis
  proof (cases rs)
    case Nil
    then show ?thesis using rs assms by (auto simp: ack_value_def ack_pos_def seq_simps rep_window_def)
  next
    case (Cons p ps)
    then have "ack_pos a = fst p" using rs members_Min [of "sp_base a" "sp_curr a" p ps] by (auto simp: ack_pos_def)
    then show ?thesis using Cons rs(1) by (simp add: ack_value_def)
  qed
qed

end
