(* ===== verification/Receiver_Refine.thy ===== *)
theory Receiver_Refine
  imports Receiver_Spec
begin

text \<open>
  The translated receiver refines its specification: storing a packet, serving a drop request,
  delivering, acknowledging and confirming each commute with the corresponding operation on
  unbounded indices.
\<close>

section \<open>Arrival\<close>

definition slot_of :: "data_packet \<Rightarrow> nat \<Rightarrow> bool \<Rightarrow> rcv_slot" where
  "slot_of pkt ext_us und = \<lparr> sl_payload = dp_payload pkt, sl_msg_number = dp_msg_number pkt,
     sl_ext_us = ext_us, sl_undecryptable = und \<rparr>"

lemma near_rep:
  assumes "rep_window a r" "seq_ok s"
  shows "s = seq_of (near a s)" "seq_diff s (rv_base_seq r) = near a s - sp_base a"
    "\<bar>near a s - sp_base a\<bar> \<le> 2 ^ 30"
proof -
  show "s = seq_of (near a s)" unfolding near_def by (rule seq_rep_near [OF assms(2)])
  have "rv_base_seq r = seq_of (sp_base a)" using assms(1) by (simp add: rep_window_def)
  then show "seq_diff s (rv_base_seq r) = near a s - sp_base a" by (simp add: near_def)
  show "\<bar>near a s - sp_base a\<bar> \<le> 2 ^ 30"
    using seq_diff_range [of s "seq_of (sp_base a)"] by (auto simp: near_def)
qed

text \<open>What gap detection and cursor tracking do to the loss list, the cursor and the queue.\<close>

definition gap_report :: "int \<Rightarrow> int \<Rightarrow> bool \<Rightarrow> control_type list" where
  "gap_report c i und = (if c + 1 < i \<and> \<not> und then [Nak [wire_range (c + 1, i - 1)]] else [])"

lemma track_gap:
  fixes und :: bool
  assumes "rv_rcv_curr_seq r = seq_of c" "\<bar>i - c\<bar> \<le> 2 ^ 29"
  defines "r' \<equiv> track_curr (detect_gap r (seq_of i) und) (seq_of i)"
  shows "rv_rcv_curr_seq r' = seq_of (max c i)"
    and "rv_loss r' = (if c < i then rv_loss r @ (if c + 1 < i \<and> \<not> und then [wire_range (c + 1, i - 1)] else [])
                       else unlose (seq_of i) (rv_loss r))"
    and "rv_control_q r' = rv_control_q r @ gap_report c i und"
proof -
  have d: "seq_diff (seq_of i) (seq_of (c + 1)) = i - (c + 1)" "seq_diff (seq_of i) (seq_of c) = i - c"
    using assms(2) by (auto intro!: near_cmp(1))
  let ?g = "detect_gap r (seq_of i) und"
  have g: "rv_rcv_curr_seq ?g = seq_of c"
    "rv_loss ?g = rv_loss r @ (if c + 1 < i \<and> \<not> und then [wire_range (c + 1, i - 1)] else [])"
    "rv_control_q ?g = rv_control_q r @ gap_report c i und"
    using assms(1) by (auto simp: detect_gap_def Let_def queue_nak_def seq_simps d wire_range_def gap_report_def)
  show "rv_rcv_curr_seq r' = seq_of (max c i)" "rv_control_q r' = rv_control_q r @ gap_report c i und"
    unfolding r'_def track_curr_def using g d by auto
  show "rv_loss r' = (if c < i then rv_loss r @ (if c + 1 < i \<and> \<not> und then [wire_range (c + 1, i - 1)] else [])
      else unlose (seq_of i) (rv_loss r))"
    unfolding r'_def track_curr_def using g d by auto
qed

lemma track_gap_frame [simp]:
  "rv_slots (track_curr r s) = rv_slots r" "rv_scan_hint (track_curr r s) = rv_scan_hint r"
  "rv_base_seq (track_curr r s) = rv_base_seq r" "rv_cfg (track_curr r s) = rv_cfg r"
  "rv_slots (detect_gap r s und) = rv_slots r" "rv_scan_hint (detect_gap r s und) = rv_scan_hint r"
  "rv_base_seq (detect_gap r s und) = rv_base_seq r" "rv_cfg (detect_gap r s und) = rv_cfg r"
  "rv_rcv_last_ack (track_curr r s) = rv_rcv_last_ack r"
  "rv_rcv_last_ackack (track_curr r s) = rv_rcv_last_ackack r"
  "rv_ack_journal (track_curr r s) = rv_ack_journal r"
  "rv_rcv_last_ack (detect_gap r s und) = rv_rcv_last_ack r"
  "rv_rcv_last_ackack (detect_gap r s und) = rv_rcv_last_ackack r"
  "rv_ack_journal (detect_gap r s und) = rv_ack_journal r"
  by (simp_all add: track_curr_def detect_gap_def Let_def queue_nak_def)

lemma store_data_frame [simp]:
  "rv_rcv_last_ack (store_data r pkt e und) = rv_rcv_last_ack r"
  "rv_rcv_last_ackack (store_data r pkt e und) = rv_rcv_last_ackack r"
  "rv_ack_journal (store_data r pkt e und) = rv_ack_journal r"
  "rv_cfg (store_data r pkt e und) = rv_cfg r"
  by (simp_all add: store_data_def Let_def bump_belated_def)

text \<open>The three ways a packet is refused leave the window and the queue alone.\<close>

lemma store_data_refused:
  assumes "rep_window a r" "seq_ok (dp_seq pkt)" "\<not> admits a (rc_buffer_pkts (rv_cfg r)) (near a (dp_seq pkt))"
  shows "rep_window a (store_data r pkt e und)" "rv_control_q (store_data r pkt e und) = rv_control_q r"
proof -
  let ?i = "near a (dp_seq pkt)"
  note n = near_rep [OF assms(1,2)]
  have buf: "sp_buf a ?i = slot_at (rv_slots r) (?i - sp_base a)" using assms(1) by (simp add: rep_window_def)
  consider "?i < sp_base a" | "sp_base a \<le> ?i" "rc_buffer_pkts (rv_cfg r) \<le> nat (?i - sp_base a)"
    | "sp_base a \<le> ?i" "nat (?i - sp_base a) < rc_buffer_pkts (rv_cfg r)" "sp_buf a ?i \<noteq> None"
    using assms(3) unfolding admits_def by linarith
  then have "rep_window a (store_data r pkt e und) \<and> rv_control_q (store_data r pkt e und) = rv_control_q r"
  proof cases
    case 1
    then have "store_data r pkt e und = bump_belated r" using n by (simp add: store_data_def Let_def)
    then show ?thesis using assms(1) by (auto simp: bump_belated_def intro: rep_window_cong)
  next
    case 2
    then have "store_data r pkt e und = r \<or> store_data r pkt e und = r\<lparr> rv_discrepancy := True \<rparr>"
      using n by (simp add: store_data_def Let_def)
    then show ?thesis using assms(1) by (auto intro: rep_window_cong)
  next
    case 3
    have at: "slot_at (rv_slots r) (int (nat (?i - sp_base a))) \<noteq> None" using 3 buf by simp
    then have len: "nat (?i - sp_base a) < length (rv_slots r)" "rv_slots r ! nat (?i - sp_base a) \<noteq> None"
      unfolding slot_at_int by (simp_all split: if_splits)
    then have "grow_slots (rv_slots r) (nat (?i - sp_base a)) = rv_slots r" by (simp add: grow_slots_def)
    then have "store_data r pkt e und = r" using 3 n len by (simp add: store_data_def Let_def)
    then show ?thesis using assms(1) by simp
  qed
  then show "rep_window a (store_data r pkt e und)" "rv_control_q (store_data r pkt e und) = rv_control_q r"
    by simp_all
qed

lemma store_data_admitted:
  fixes e :: nat and und :: bool
  assumes "rep_window a r" "seq_ok (dp_seq pkt)" "admits a (rc_buffer_pkts (rv_cfg r)) (near a (dp_seq pkt))"
  defines "i \<equiv> near a (dp_seq pkt)" and "r' \<equiv> store_data r pkt e und"
  shows "rv_slots r' = (grow_slots (rv_slots r) (nat (i - sp_base a)))[nat (i - sp_base a) := Some (slot_of pkt e und)]"
    and "rv_scan_hint r' = min (rv_scan_hint r) (nat (i - sp_base a))"
    and "rv_base_seq r' = rv_base_seq r"
    and "rv_rcv_curr_seq r' = seq_of (max (sp_curr a) i)"
    and "rv_loss r' = (if sp_curr a < i
           then rv_loss r @ (if sp_curr a + 1 < i \<and> \<not> und then [wire_range (sp_curr a + 1, i - 1)] else [])
           else unlose (seq_of i) (rv_loss r))"
    and "rv_control_q r' = rv_control_q r @ gap_report (sp_curr a) i und"
proof -
  let ?k = "nat (i - sp_base a)"
  note n = near_rep [OF assms(1,2), folded i_def]
  have base: "sp_base a \<le> i" "?k < rc_buffer_pkts (rv_cfg r)" "sp_buf a i = None"
    using assms(3) by (auto simp: admits_def i_def)
  have "slot_at (grow_slots (rv_slots r) ?k) (int ?k) = None"
    using base assms(1) by (simp add: rep_window_def)
  then have free: "grow_slots (rv_slots r) ?k ! ?k = None"
    unfolding slot_at_int by (simp add: length_grow less_max_iff_disj)
  define r1 where "r1 = r\<lparr> rv_slots := grow_slots (rv_slots r) ?k \<rparr>"
  define r2 where "r2 = track_curr (detect_gap r1 (seq_of i) und) (seq_of i)"
  have r': "r' = r2\<lparr> rv_slots := (rv_slots r2)[?k := Some (slot_of pkt e und)],
      rv_scan_hint := min (rv_scan_hint r2) ?k, rv_undecrypted := rv_undecrypted r2 + (if und then 1 else 0) \<rparr>"
    unfolding r'_def store_data_def Let_def n(2) r2_def r1_def slot_of_def
    using base free n(1) by simp
  have c: "rv_rcv_curr_seq r1 = seq_of (sp_curr a)" using assms(1) by (simp add: r1_def rep_window_def)
  have "\<bar>i - sp_curr a\<bar> \<le> 2 ^ 29" using base assms(1) by (auto simp: rep_window_def)
  note t = track_gap [OF c this, of und, folded r2_def]
  show "rv_slots r' = (grow_slots (rv_slots r) ?k)[?k := Some (slot_of pkt e und)]"
    "rv_scan_hint r' = min (rv_scan_hint r) ?k" "rv_base_seq r' = rv_base_seq r"
    by (simp_all add: r' r2_def r1_def)
  show "rv_rcv_curr_seq r' = seq_of (max (sp_curr a) i)"
    "rv_loss r' = (if sp_curr a < i
       then rv_loss r @ (if sp_curr a + 1 < i \<and> \<not> und then [wire_range (sp_curr a + 1, i - 1)] else [])
       else unlose (seq_of i) (rv_loss r))"
    "rv_control_q r' = rv_control_q r @ gap_report (sp_curr a) i und"
    using t by (simp_all add: r' r1_def)
qed

lemma sp_store_sel:
  assumes "admits a cap i"
  shows "sp_base (sp_store a cap i sl) = sp_base a" "sp_curr (sp_store a cap i sl) = max (sp_curr a) i"
    "sp_buf (sp_store a cap i sl) = (sp_buf a)(i := Some sl)"
    "sp_loss (sp_store a cap i sl) =
      (if i > sp_curr a then sp_loss a \<union> (if sl_undecryptable sl then {} else {sp_curr a + 1 ..< i})
       else sp_loss a - {i})"
  using assms by (simp_all add: sp_store_def)

lemma sp_store_frame [simp]:
  "sp_base (sp_store a cap i sl) = sp_base a"
  "sp_acked (sp_store a cap i sl) = sp_acked a" "sp_confirmed (sp_store a cap i sl) = sp_confirmed a"
  by (simp_all add: sp_store_def)

lemma store_loss_refines:
  assumes "rep_window a r" "spec_ok a" "admits a (rc_buffer_pkts (rv_cfg r)) i"
    and "loss' = (if sp_curr a < i
           then rv_loss r @ (if sp_curr a + 1 < i \<and> \<not> und then [wire_range (sp_curr a + 1, i - 1)] else [])
           else unlose (seq_of i) (rv_loss r))"
    and "sl_undecryptable sl = und"
  shows "\<exists>rs. loss' = map wire_range rs \<and> ascending (sp_base a) (max (sp_curr a) i) rs
    \<and> members rs = sp_loss (sp_store a (rc_buffer_pkts (rv_cfg r)) i sl)"
proof -
  obtain rs where rs: "rv_loss r = map wire_range rs" "ascending (sp_base a) (sp_curr a) rs" "members rs = sp_loss a"
    using rep_window_loss [OF assms(1)] .
  have w: "sp_base a \<le> sp_curr a + 1" "sp_base a \<le> i" "sp_curr a - sp_base a < 2 ^ 30"
    using assms(1-3) by (auto simp: rep_window_def spec_ok_def admits_def)
  note sel = sp_store_sel [OF assms(3)]
  consider "i \<le> sp_curr a" | "sp_curr a < i" "sp_curr a + 1 < i \<and> \<not> und"
    | "sp_curr a < i" "\<not> (sp_curr a + 1 < i \<and> \<not> und)" by linarith
  then show ?thesis
  proof cases
    case 1
    then obtain rs' where "unlose (seq_of i) (map wire_range rs) = map wire_range rs'"
      "ascending (sp_base a) (sp_curr a) rs'" "members rs' = members rs - {i}"
      using unlose_wire [OF rs(2) w(2) _ w(3)] by blast
    then show ?thesis using 1 rs by (intro exI [of _ rs']) (simp add: assms(4) sel max_def)
  next
    case 2
    have "ascending (sp_base a) i (rs @ [(sp_curr a + 1, i - 1)])"
      using 2 w rs(2) by (intro ascending_append) auto
    moreover have "{sp_curr a + 1 .. i - 1} = {sp_curr a + 1 ..< i}" by auto
    ultimately show ?thesis
      using 2 rs by (intro exI [of _ "rs @ [(sp_curr a + 1, i - 1)]"]) (simp add: assms(4,5) sel max_def)
  next
    case 3
    have "ascending (sp_base a) i rs" using 3 rs(2) by (auto intro: ascending_mono)
    moreover have "sp_loss (sp_store a (rc_buffer_pkts (rv_cfg r)) i sl) = sp_loss a"
      using 3 by (cases und) (simp_all add: sel(4) assms(5))
    moreover have "loss' = rv_loss r" using 3 by (cases und) (simp_all add: assms(4))
    ultimately show ?thesis using 3 rs by (intro exI [of _ rs]) (simp add: max_def)
  qed
qed

lemma store_data_refines:
  assumes "rep_window a r" "spec_ok a" "seq_ok (dp_seq pkt)"
  shows "rep_window (sp_store a (rc_buffer_pkts (rv_cfg r)) (near a (dp_seq pkt)) (slot_of pkt e und))
    (store_data r pkt e und)"
proof (cases "admits a (rc_buffer_pkts (rv_cfg r)) (near a (dp_seq pkt))")
  case False
  then show ?thesis using store_data_refused(1) [OF assms(1,3)] by (simp add: sp_store_def)
next
  case True
  define i where "i = near a (dp_seq pkt)"
  let ?cap = "rc_buffer_pkts (rv_cfg r)" and ?sl = "slot_of pkt e und" and ?k = "nat (i - sp_base a)"
  define a' where "a' = sp_store a ?cap i ?sl"
  define r' where "r' = store_data r pkt e und"
  note f = store_data_admitted [OF assms(1,3) True, of e und, folded i_def r'_def]
  note adm = True [folded i_def]
  note sel = sp_store_sel [OF adm, of ?sl, folded a'_def]
  have w: "sp_base a \<le> i" "?k < ?cap" "?cap \<le> 2 ^ 29"
    "int (length (rv_slots r)) \<le> sp_curr a - sp_base a + 1" "sp_curr a - sp_base a < 2 ^ 29"
    "length (rv_slots r) \<le> ?cap"
    using adm assms(1) by (auto simp: admits_def rep_window_def)
  have len: "length (rv_slots r') = max (length (rv_slots r)) (?k + 1)" by (simp add: f(1) length_grow)
  have at: "slot_at (rv_slots r') k = (if k = i - sp_base a then Some ?sl else slot_at (rv_slots r) k)" for k
    using w(1) by (simp add: f(1) slot_at_update length_grow less_max_iff_disj)
  have "hint_ok r'"
    using assms(1) w(1) unfolding hint_ok_def at f(2) rep_window_def by (auto simp: hint_ok_def)
  moreover have "\<exists>rs. rv_loss r' = map wire_range rs \<and> ascending (sp_base a) (max (sp_curr a) i) rs
      \<and> members rs = sp_loss a'"
    unfolding a'_def by (rule store_loss_refines [OF assms(1,2) adm f(5)]) (simp add: slot_of_def)
  moreover have "sp_buf a' j = slot_at (rv_slots r') (j - sp_base a)" for j
    using assms(1) by (auto simp: sel(3) at rep_window_def)
  moreover have "rv_base_seq r' = seq_of (sp_base a)" using f(3) assms(1) by (simp add: rep_window_def)
  moreover have "rv_cfg r' = rv_cfg r" by (simp add: r'_def)
  ultimately have "rep_window a' r'"
    unfolding rep_window_def sel(1,2) f(4) len using w by auto
  then show ?thesis by (simp add: a'_def r'_def i_def)
qed

section \<open>Drop requests\<close>

lemma handle_dropreq_frame [simp]:
  "rv_rcv_last_ack (handle_dropreq r m f l) = rv_rcv_last_ack r"
  "rv_rcv_last_ackack (handle_dropreq r m f l) = rv_rcv_last_ackack r"
  "rv_ack_journal (handle_dropreq r m f l) = rv_ack_journal r"
  "rv_cfg (handle_dropreq r m f l) = rv_cfg r" "rv_base_seq (handle_dropreq r m f l) = rv_base_seq r"
  "rv_scan_hint (handle_dropreq r m f l) = rv_scan_hint r"
  by (simp_all add: handle_dropreq_def Let_def)

lemma dropreq_refines:
  assumes "rep_window a r" "spec_ok a" "seq_ok f" "seq_ok l"
    and "\<bar>near a f - sp_base a\<bar> < 2 ^ 29" "\<bar>near a l - sp_base a\<bar> < 2 ^ 29"
  shows "rep_window (sp_dropreq a m (near a f) (near a l)) (handle_dropreq r m f l)"
proof -
  define i j where "i = near a f" and "j = near a l"
  note nf = near_rep [OF assms(1,3), folded i_def] and nl = near_rep [OF assms(1,4), folded j_def]
  have w: "sp_curr a - sp_base a < 2 ^ 29" "sp_base a \<le> sp_curr a + 1" "rv_rcv_curr_seq r = seq_of (sp_curr a)"
    "\<bar>i - sp_base a\<bar> < 2 ^ 29" "\<bar>j - sp_base a\<bar> < 2 ^ 29"
    using assms by (auto simp: rep_window_def spec_ok_def i_def j_def)
  have "\<bar>i - j\<bar> < 2 ^ 30" "\<bar>i - (sp_curr a + 1)\<bar> < 2 ^ 30" "\<bar>j - sp_curr a\<bar> < 2 ^ 30" using w by auto
  then have d: "seq_diff f l = i - j" "seq_diff f (seq_next (rv_rcv_curr_seq r)) = i - (sp_curr a + 1)"
    "seq_diff l (rv_rcv_curr_seq r) = j - sp_curr a"
    by (simp_all only: near_cmp(1) nf(1) nl(1) w(3) seq_simps)
  define r' where "r' = handle_dropreq r m f l"
  define a' where "a' = sp_dropreq a m i j"
  have "rep_window a' r'"
  proof (cases "j < i")
    case True
    then show ?thesis using assms(1) d by (simp add: r'_def a'_def handle_dropreq_def sp_dropreq_def)
  next
    case False
    have slots: "rv_slots r' = (if msg_value m \<noteq> 0
        then clear_message (rv_slots r) (nat (max 0 (i - sp_base a))) (j - sp_base a) m else rv_slots r)"
      and curr: "rv_rcv_curr_seq r' = seq_of (sp_curr a')"
      and loss: "rv_loss r' = remove_loss_range (seq_of i) (seq_of j) (rv_loss r)"
      using False d w(3) nf(2) nl(2)
      by (auto simp: r'_def a'_def handle_dropreq_def sp_dropreq_def Let_def max_def simp flip: nf(1) nl(1))
    have sel: "sp_base a' = sp_base a" "sp_loss a' = sp_loss a - {i .. j}"
      "sp_curr a' = (if i \<le> sp_curr a + 1 then max (sp_curr a) j else sp_curr a)"
      using False by (auto simp: a'_def sp_dropreq_def)
    obtain rs where rs: "rv_loss r = map wire_range rs" "ascending (sp_base a) (sp_curr a) rs" "members rs = sp_loss a"
      using rep_window_loss [OF assms(1)] .
    have near_bounds: "sp_curr a - i < 2 ^ 30" "j - sp_base a < 2 ^ 30" "i - sp_base a < 2 ^ 30"
      "sp_curr a - j < 2 ^ 30" "j - sp_curr a < 2 ^ 30"
      using w by auto
    obtain rs' where rs': "remove_loss_range (seq_of i) (seq_of j) (map wire_range rs) = map wire_range rs'"
      "ascending (sp_base a) (sp_curr a) rs'" "members rs' = members rs - {i .. j}"
      using remove_loss_wire [OF rs(2), of i j] False near_bounds by auto
    have buf: "sp_buf a' k = slot_at (rv_slots r') (k - sp_base a')" for k
    proof -
      have k: "sp_buf a k = slot_at (rv_slots r) (k - sp_base a)" using assms(1) by (simp add: rep_window_def)
      then show ?thesis
        using False slot_at_Some [of "rv_slots r" "k - sp_base a"]
        by (auto simp: slots slot_at_clear a'_def sp_dropreq_def)
    qed
    have "hint_ok r'"
    proof -
      have "slot_at (rv_slots r') k = None" if "slot_at (rv_slots r) k = None" for k
        using that by (simp add: slots slot_at_clear)
      moreover have "rv_scan_hint r' = rv_scan_hint r" by (simp add: r'_def)
      ultimately show ?thesis using assms(1) by (simp add: rep_window_def hint_ok_def)
    qed
    moreover have "\<exists>rs. rv_loss r' = map wire_range rs \<and> ascending (sp_base a') (sp_curr a') rs \<and> members rs = sp_loss a'"
      using rs rs' by (intro exI [of _ rs']) (auto simp: loss sel intro: ascending_mono)
    moreover have "length (rv_slots r') = length (rv_slots r)" by (simp add: slots)
    moreover have "rv_base_seq r' = seq_of (sp_base a')" "rv_cfg r' = rv_cfg r"
      using assms(1) by (simp_all add: r'_def rep_window_def sel)
    ultimately show ?thesis
      using buf curr w assms(1) unfolding rep_window_def sel by auto
  qed
  then show ?thesis by (simp add: r'_def a'_def i_def j_def)
qed

section \<open>Delivery\<close>

text \<open>The three outcomes at the first buffered packet.\<close>

definition front :: "rcv_spec \<Rightarrow> int \<Rightarrow> rcv_slot \<Rightarrow> bool" where
  "front a i sl \<longleftrightarrow> sp_buf a i = Some sl \<and> (\<forall>j < i. sp_buf a j = None)"

lemma sp_deliver_empty: "(\<And>i. sp_buf a i = None) \<Longrightarrow> sp_deliver due a = (a, None)"
  by (simp add: sp_deliver_def consumed_def)

lemma sp_deliver_wait:
  assumes "front a i sl" "\<not> due sl" shows "sp_deliver due a = (a, None)"
proof -
  have "consumed due a = {}"
    using assms unfolding consumed_def front_def by (auto, metis linorder_neqE option.sel option.distinct(1))
  then show ?thesis by (simp add: sp_deliver_def)
qed

lemma sp_deliver_now:
  assumes "front a i sl" "due sl" "\<not> sl_undecryptable sl"
  shows "sp_deliver due a = (sp_release a i, Some (i, sl_payload sl))"
proof -
  have "x = i" if "x \<in> consumed due a" for x
    using that assms by (cases x i rule: linorder_cases) (auto simp: consumed_def front_def)
  moreover have "i \<in> consumed due a" using assms by (auto simp: consumed_def front_def)
  ultimately have "consumed due a = {i}" by blast
  then show ?thesis using assms by (simp add: sp_deliver_def front_def Let_def)
qed

lemma sp_release_release: "i < m \<Longrightarrow> sp_release (sp_release a i) m = sp_release a m"
  by (cases a) (auto simp: sp_release_def fun_eq_iff)

lemma sp_deliver_skip:
  assumes "spec_ok a" "front a i sl" "due sl" "sl_undecryptable sl"
  shows "sp_deliver due a = sp_deliver due (sp_release a i)"
proof -
  let ?C = "consumed due (sp_release a i)"
  have le: "due s \<and> sl_undecryptable s" if "sp_buf a j = Some s" "j \<le> i" for j s
    using that assms(2-) by (cases "j = i") (auto simp: front_def)
  have C: "consumed due a = insert i ?C"
  proof (rule set_eqI)
    fix x
    show "x \<in> consumed due a \<longleftrightarrow> x \<in> insert i ?C"
    proof (cases x i rule: linorder_cases)
      case greater
      then show ?thesis
        unfolding consumed_def sp_release_def using le by (auto simp: not_le) (meson not_le)+
    qed (use assms(2-) in \<open>auto simp: consumed_def front_def sp_release_def\<close>)
  qed
  have fin: "finite ?C" using spec_ok_finite [OF assms(1)] consumed_subset C by (metis finite_insert finite_subset)
  have above: "i < x" if "x \<in> ?C" for x using that by (auto simp: consumed_def sp_release_def split: if_splits)
  show ?thesis
  proof (cases "?C = {}")
    case True
    then show ?thesis using C assms(2,4) by (simp add: sp_deliver_def front_def Let_def)
  next
    case False
    then have m: "i < Max ?C" using above Max_in [OF fin] by blast
    then have "Max (consumed due a) = Max ?C" using fin False by (simp add: C max_def)
    moreover have "sp_release (sp_release a i) (Max ?C) = sp_release a (Max ?C)"
      by (rule sp_release_release [OF m])
    moreover have "sp_buf (sp_release a i) (Max ?C) = sp_buf a (Max ?C)" using m by (simp add: sp_release_def)
    ultimately show ?thesis using False C by (simp add: sp_deliver_def Let_def)
  qed
qed

text \<open>Consuming the first buffered packet, at distance \<open>p\<close>, and the hole before it.\<close>

lemma skip_loss_wire:
  assumes "ascending lo hi rs" "hi - lo < 2 ^ 29" "int p \<le> hi - lo"
  shows "\<exists>rs'. (if p > 0 then remove_loss_range (seq_of lo) (seq_of (lo + int p - 1)) (map wire_range rs)
      else map wire_range rs) = map wire_range rs'
    \<and> ascending lo hi rs' \<and> members rs' = members rs - {lo .. lo + int p - 1}"
proof (cases "p = 0")
  case True
  then show ?thesis using assms(1) by auto
next
  case False
  have "lo \<le> lo + int p - 1" "hi - lo < 2 ^ 30" "lo + int p - 1 - lo < 2 ^ 30"
    "lo - lo < 2 ^ 30" "hi - (lo + int p - 1) < 2 ^ 30" "lo + int p - 1 - hi < 2 ^ 30"
    using False assms(2,3) by auto
  then show ?thesis using remove_loss_wire [OF assms(1)] False by simp
qed

lemma skip_pop_refines:
  assumes "rep_window a r" "spec_ok a" "p < length (rv_slots r)" "rv_slots r ! p = Some sl"
    and "\<And>k. k < int p \<Longrightarrow> slot_at (rv_slots r) k = None"
    and "r' = pop_slot (skip_hole (r\<lparr> rv_scan_hint := p \<rparr>) p)"
  shows "rep_window (sp_release a (sp_base a + int p)) r'"
proof -
  let ?m = "sp_base a + int p"
  have w: "sp_curr a - sp_base a < 2 ^ 29" "int (length (rv_slots r)) \<le> sp_curr a - sp_base a + 1"
    "rv_base_seq r = seq_of (sp_base a)" "\<And>i. sp_buf a i = slot_at (rv_slots r) (i - sp_base a)"
    using assms(1) by (auto simp: rep_window_def)
  obtain rs where rs: "rv_loss r = map wire_range rs" "ascending (sp_base a) (sp_curr a) rs" "members rs = sp_loss a"
    using rep_window_loss [OF assms(1)] .
  have fields: "rv_slots r' = drop (Suc p) (rv_slots r)" "rv_base_seq r' = seq_of (?m + 1)" "rv_scan_hint r' = 0"
    "rv_rcv_curr_seq r' = rv_rcv_curr_seq r" "rv_cfg r' = rv_cfg r"
    "rv_loss r' = (if p > 0 then remove_loss_range (seq_of (sp_base a)) (seq_of (?m - 1)) (rv_loss r) else rv_loss r)"
    using w(3) by (simp_all add: assms(6) pop_slot_def skip_hole_def seq_simps sq.plus_rep drop_Suc tl_drop algebra_simps)
  obtain rs' where rs': "rv_loss r' = map wire_range rs'" "ascending (sp_base a) (sp_curr a) rs'"
    "members rs' = sp_loss a - {sp_base a .. ?m - 1}"
    using skip_loss_wire [OF rs(2) w(1), of p] w(2) assms(3) unfolding fields(6) rs(1) rs(3) [symmetric] by auto
  have "sp_buf a ?m = Some sl" using w(4) assms(3,4) by (simp add: slot_at_int)
  then have gap: "?m \<notin> sp_loss a" "\<And>x. x \<in> sp_loss a \<Longrightarrow> sp_base a \<le> x"
    using assms(2) by (auto simp: spec_ok_def)
  have mem: "members rs' = sp_loss a \<inter> {?m <..}"
  proof -
    have "x \<in> sp_loss a - {sp_base a .. ?m - 1} \<longleftrightarrow> x \<in> sp_loss a \<inter> {?m <..}" for x
      using gap(1) gap(2) [of x] by (cases "x \<in> sp_loss a"; cases "x = ?m") auto
    then show ?thesis unfolding rs'(3) by blast
  qed
  have "members rs' \<subseteq> {?m + 1 ..}" unfolding mem by auto
  then have "ascending (?m + 1) (sp_curr a) rs'" by (rule ascending_restrict [OF rs'(2)])
  moreover have "hint_ok r'" by (simp add: hint_ok_def fields(1,3) slot_at_def)
  moreover have "sp_buf (sp_release a ?m) i = slot_at (rv_slots r') (i - (?m + 1))" for i
    by (simp add: sp_release_def w(4) fields(1) slot_at_drop algebra_simps)
  moreover have "int (length (rv_slots r')) \<le> sp_curr a - (?m + 1) + 1" "length (rv_slots r') \<le> rc_buffer_pkts (rv_cfg r)"
    using w(2) assms(1,3) by (auto simp: fields(1) rep_window_def)
  moreover have "sp_base (sp_release a ?m) = ?m + 1" "sp_curr (sp_release a ?m) = sp_curr a"
    "sp_loss (sp_release a ?m) = sp_loss a \<inter> {?m <..}"
    by (simp_all add: sp_release_def)
  moreover have "rv_rcv_curr_seq r = seq_of (sp_curr a)" "rc_buffer_pkts (rv_cfg r) \<le> 2 ^ 29"
    "sp_curr a - (?m + 1) < 2 ^ 29"
    using assms(1) w(1) by (auto simp: rep_window_def)
  ultimately show ?thesis
    unfolding rep_window_def fields(2,4,5) using rs'(1) mem by auto
qed

lemma tsbpd_deadline_cong:
  "rv_drift r' = rv_drift r \<Longrightarrow> rv_cfg r' = rv_cfg r \<Longrightarrow> tsbpd_deadline r' = tsbpd_deadline r"
  by (simp add: tsbpd_deadline_def fun_eq_iff)

lemma skip_pop_frame [simp]:
  "rv_drift (pop_slot r) = rv_drift r" "rv_cfg (pop_slot r) = rv_cfg r"
  "rv_drift (skip_hole r p) = rv_drift r" "rv_cfg (skip_hole r p) = rv_cfg r"
  by (simp_all add: pop_slot_def skip_hole_def)

lemma deliver_loop_refines:
  assumes "rep_window a r" "spec_ok a"
    and "due = (\<lambda>sl. tsbpd_deadline r an (sl_ext_us sl) \<le> now)"
  shows "\<exists>r'. deliver_loop r an now = (Ok (r', map_option snd (snd (sp_deliver due a))) :: (_, 'e) outcome)
    \<and> rep_window (fst (sp_deliver due a)) r'"
  using assms
proof (induction "length (rv_slots r)" arbitrary: r a rule: less_induct)
  case less
  have hint: "hint_ok r" and buf: "\<And>i. sp_buf a i = slot_at (rv_slots r) (i - sp_base a)"
    using less.prems(1) by (auto simp: rep_window_def)
  show ?case
  proof (cases "first_occupied r")
    case None
    have at: "slot_at (rv_slots r) k = None" for k by (rule first_occupied_None [OF hint None])
    then have "rep_window a (r\<lparr> rv_scan_hint := length (rv_slots r) \<rparr>)"
      using less.prems(1) by (simp add: rep_window_def hint_ok_def)
    moreover have "sp_deliver due a = (a, None)" by (rule sp_deliver_empty) (simp add: buf at)
    ultimately show ?thesis using None by (subst deliver_loop.simps) simp
  next
    case (Some p)
    obtain sl where p: "p < length (rv_slots r)" "rv_slots r ! p = Some sl"
      and before: "\<And>k. k < int p \<Longrightarrow> slot_at (rv_slots r) k = None"
      using first_occupied_Some [OF hint Some] by metis
    define r1 where "r1 = r\<lparr> rv_scan_hint := p \<rparr>"
    define r3 where "r3 = pop_slot (skip_hole r1 p)"
    have front: "front a (sp_base a + int p) sl"
      unfolding front_def using p before by (simp add: buf slot_at_int)
    have hd: "rv_slots (skip_hole r1 p) = Some sl # drop (Suc p) (rv_slots r)"
      using p Cons_nth_drop_Suc [of p "rv_slots r"] by (auto simp: skip_hole_def r1_def)
    have dl: "tsbpd_deadline r1 = tsbpd_deadline r" by (rule tsbpd_deadline_cong) (simp_all add: r1_def)
    have rep3: "rep_window (sp_release a (sp_base a + int p)) r3"
      by (rule skip_pop_refines [OF less.prems(1,2) p(1,2) before]) (simp_all add: r3_def r1_def)
    have step: "deliver_loop r an now = (if \<not> due sl then Ok (r1, None)
        else if sl_undecryptable sl then
          deliver_loop (r3\<lparr> rv_stats := (rv_stats r3)\<lparr> rs_pkts_dropped := rs_pkts_dropped (rv_stats r3) + 1 \<rparr> \<rparr>) an now
        else (Ok (r3, Some (sl_payload sl)) :: (_, 'e) outcome))"
      using Some p hd dl less.prems(3) unfolding r3_def
      by (subst deliver_loop.simps) (simp add: r1_def Let_def)
    consider "\<not> due sl" | "due sl" "\<not> sl_undecryptable sl" | "due sl" "sl_undecryptable sl" by blast
    then show ?thesis
    proof cases
      case 1
      have "rep_window a r1"
        using less.prems(1) before unfolding r1_def by (simp add: rep_window_def hint_ok_def)
      then show ?thesis using 1 sp_deliver_wait [where due = due, OF front 1] by (simp add: step)
    next
      case 2
      then show ?thesis using rep3 sp_deliver_now [where due = due, OF front 2] by (simp add: step)
    next
      case 3
      let ?r4 = "r3\<lparr> rv_stats := (rv_stats r3)\<lparr> rs_pkts_dropped := rs_pkts_dropped (rv_stats r3) + 1 \<rparr> \<rparr>"
      have "length (rv_slots ?r4) < length (rv_slots r)" using hd p by (simp add: r3_def pop_slot_def)
      moreover have "rep_window (sp_release a (sp_base a + int p)) ?r4"
        by (rule rep_window_cong [OF rep3]) simp_all
      moreover have "spec_ok (sp_release a (sp_base a + int p))"
        using less.prems(1,2) p(1) by (intro sp_release_ok) (auto simp: rep_window_def)
      moreover have "tsbpd_deadline ?r4 = tsbpd_deadline r"
        by (rule tsbpd_deadline_cong) (simp_all add: r3_def r1_def)
      ultimately show ?thesis
        using less.hyps [of ?r4 "sp_release a (sp_base a + int p)"] less.prems(3) 3
          sp_deliver_skip [where due = due, OF less.prems(2) front 3] by (simp add: step)
    qed
  qed
qed

end
