(* ===== verification/Receiver_Props.thy ===== *)
theory Receiver_Props
  imports Receiver_Refine
begin

text \<open>
  Acknowledgement, the receiver as an event-driven machine, and its properties over every run:
  refinement of the unbounded specification, in-order exactly-once delivery, monotone and exact
  acknowledgements, timing of delivery, and the size of loss reports.
\<close>

section \<open>Acknowledgement\<close>

lemma emit_full_ack_frame [simp]:
  "rv_base_seq (emit_full_ack r now) = rv_base_seq r" "rv_slots (emit_full_ack r now) = rv_slots r"
  "rv_scan_hint (emit_full_ack r now) = rv_scan_hint r" "rv_loss (emit_full_ack r now) = rv_loss r"
  "rv_rcv_curr_seq (emit_full_ack r now) = rv_rcv_curr_seq r" "rv_cfg (emit_full_ack r now) = rv_cfg r"
  "rv_rcv_last_ack (emit_full_ack r now) = rv_rcv_last_ack r"
  "rv_rcv_last_ackack (emit_full_ack r now) = rv_rcv_last_ackack r"
  by (simp_all add: emit_full_ack_def Let_def)

lemma queue_full_ack_frame [simp]:
  "rv_base_seq (queue_full_ack r now) = rv_base_seq r" "rv_slots (queue_full_ack r now) = rv_slots r"
  "rv_scan_hint (queue_full_ack r now) = rv_scan_hint r" "rv_loss (queue_full_ack r now) = rv_loss r"
  "rv_rcv_curr_seq (queue_full_ack r now) = rv_rcv_curr_seq r" "rv_cfg (queue_full_ack r now) = rv_cfg r"
  by (simp_all add: queue_full_ack_def Let_def)

text \<open>The exact case split of a full acknowledgement on unbounded positions.\<close>

definition ack_repeats :: "receiver \<Rightarrow> instant \<Rightarrow> bool" where
  "ack_repeats r now \<longleftrightarrow>
     from_micros (unat (rv_srtt_us r) + 4 * unat (rv_rtt_var_us r)) \<le> now - rv_last_ack_time r"

lemma queue_full_ack_cases:
  assumes "represents a r" "ack_pos a - sp_confirmed a < 2 ^ 30"
  shows "queue_full_ack r now =
    (if ack_pos a = sp_confirmed a \<or> (ack_pos a = sp_acked a \<and> \<not> ack_repeats r now) then r
     else emit_full_ack (r\<lparr> rv_rcv_last_ack := seq_of (ack_pos a) \<rparr>) now)"
proof -
  have w: "rep_window a r" "sp_confirmed a \<le> sp_acked a" "sp_acked a \<le> ack_pos a"
    and f: "rv_rcv_last_ack r = seq_of (sp_acked a)" "rv_rcv_last_ackack r = seq_of (sp_confirmed a)"
    using assms(1) by (auto simp: represents_def rep_acks_def spec_ok_def)
  have "\<bar>ack_pos a - sp_acked a\<bar> < 2 ^ 30" "\<bar>ack_pos a - sp_confirmed a\<bar> < 2 ^ 30" using w(2,3) assms(2) by auto
  note d = near_cmp [OF this(1)] near_cmp [OF this(2)]
  consider "ack_pos a = sp_confirmed a" | "ack_pos a \<noteq> sp_confirmed a" "ack_pos a = sp_acked a"
    | "ack_pos a \<noteq> sp_confirmed a" "sp_acked a < ack_pos a" using w(3) by linarith
  then show ?thesis
  proof cases
    case 1
    then show ?thesis by (simp add: queue_full_ack_def ack_value_pos [OF w(1)] f)
  next
    case 2
    have "seq_diff (seq_of (sp_acked a)) (seq_of (sp_acked a)) = 0" by (rule sq.dist_self)
    then have "queue_full_ack r now = (if ack_repeats r now then emit_full_ack r now else r)"
      using 2 w(2) d(3,4)
      by (simp add: queue_full_ack_def Let_def ack_value_pos [OF w(1)] f ack_repeats_def)
    moreover have "r\<lparr> rv_rcv_last_ack := seq_of (ack_pos a) \<rparr> = r" unfolding 2(2) f(1) [symmetric] by simp
    ultimately show ?thesis using 2 by metis
  next
    case 3
    then show ?thesis using w(2) d by (simp add: queue_full_ack_def Let_def ack_value_pos [OF w(1)] f)
  qed
qed

lemma emit_full_ack_acks:
  assumes "represents a r" "ack_pos a - sp_confirmed a < 2 ^ 30" "ack_pos a \<noteq> sp_confirmed a"
  shows "rep_acks (sp_ack a) (emit_full_ack (r\<lparr> rv_rcv_last_ack := seq_of (ack_pos a) \<rparr>) now)"
proof -
  obtain ps where ps: "map ar_seq (rv_ack_journal r) = map seq_of ps" "sorted (sp_confirmed a # ps)"
    "\<forall>p \<in> set ps. p \<le> sp_acked a"
    using assms(1) by (auto simp: represents_def rep_acks_def)
  have w: "sp_confirmed a \<le> ack_pos a" "sp_acked a \<le> ack_pos a" "rv_rcv_last_ackack r = seq_of (sp_confirmed a)"
    using assms(1) by (auto simp: represents_def spec_ok_def rep_acks_def)
  define qs where "qs = (if length (rv_ack_journal r) = ACK_HISTORY then tl ps else ps)"
  have sub: "set qs \<subseteq> set ps" by (cases ps) (auto simp: qs_def)
  have "sorted qs" using ps(2) by (cases ps) (auto simp: qs_def)
  then have "sorted (sp_confirmed a # qs @ [ack_pos a])"
    using ps(2,3) sub w by (fastforce simp: sorted_append)
  moreover have "map ar_seq (rv_ack_journal (emit_full_ack (r\<lparr> rv_rcv_last_ack := seq_of (ack_pos a) \<rparr>) now))
      = map seq_of (qs @ [ack_pos a])"
    using ps(1) by (simp add: emit_full_ack_def Let_def qs_def map_tl)
  moreover have "\<forall>p \<in> set (qs @ [ack_pos a]). p \<le> ack_pos a" using sub ps(3) w by force
  ultimately show ?thesis
    unfolding rep_acks_def emit_full_ack_frame using w(3) assms(2)
    by (intro conjI exI [of _ "qs @ [ack_pos a]"]) (simp_all add: sp_ack_def)
qed

lemma queue_full_ack_refines:
  assumes "represents a r" "ack_pos a - sp_confirmed a < 2 ^ 30"
  shows "represents (sp_ack a) (queue_full_ack r now)"
proof -
  have ok: "spec_ok a" "rep_window a r" "rep_acks a r" using assms(1) by (auto simp: represents_def)
  have win: "rep_window (sp_ack a) (queue_full_ack r now)"
    using rep_window_cong [OF ok(2), of "queue_full_ack r now"] by (simp add: rep_window_def sp_ack_def)
  have bounds: "sp_confirmed a \<le> sp_acked a" "sp_acked a \<le> ack_pos a" using ok(1) by (auto simp: spec_ok_def)
  have "rep_acks (sp_ack a) (queue_full_ack r now)"
  proof (cases "ack_pos a = sp_confirmed a \<or> (ack_pos a = sp_acked a \<and> \<not> ack_repeats r now)")
    case True
    then have "sp_ack a = a" using bounds by (auto simp: sp_ack_def)
    then show ?thesis using ok(3) True by (simp add: queue_full_ack_cases [OF assms])
  next
    case False
    then have "rep_acks (sp_ack a) (emit_full_ack (r\<lparr> rv_rcv_last_ack := seq_of (ack_pos a) \<rparr>) now)"
      using emit_full_ack_acks [OF assms] by blast
    then show ?thesis unfolding queue_full_ack_cases [OF assms] if_not_P [OF False] .
  qed
  then show ?thesis using win sp_ack_ok [OF ok(1)] by (simp add: represents_def)
qed

section \<open>Confirmation\<close>

text \<open>The position an ACKACK confirms, if it matches a journal entry with a positive sample.\<close>

definition confirmed_by :: "rcv_spec \<Rightarrow> receiver \<Rightarrow> instant \<Rightarrow> u32 \<Rightarrow> int option" where
  "confirmed_by a r now n =
     (let pos = journal_pos n (rv_ack_journal r) in
      if pos \<ge> length (rv_ack_journal r) then None
      else
        let entry = rv_ack_journal r ! pos in
        if (of_nat (min (as_micros (now - ar_sent entry)) (2 ^ 32 - 1)) :: u32) = 0 then None
        else Some (sp_confirmed a + seq_diff (ar_seq entry) (seq_of (sp_confirmed a))))"

definition sp_ackack :: "rcv_spec \<Rightarrow> receiver \<Rightarrow> instant \<Rightarrow> u32 \<Rightarrow> rcv_spec" where
  "sp_ackack a r now n = (case confirmed_by a r now n of None \<Rightarrow> a | Some p \<Rightarrow> sp_confirm a p)"

lemma ackack_steps_frame [simp]:
  "rv_base_seq (feed_drift r now t ts) = rv_base_seq r" "rv_slots (feed_drift r now t ts) = rv_slots r"
  "rv_scan_hint (feed_drift r now t ts) = rv_scan_hint r" "rv_loss (feed_drift r now t ts) = rv_loss r"
  "rv_rcv_curr_seq (feed_drift r now t ts) = rv_rcv_curr_seq r" "rv_cfg (feed_drift r now t ts) = rv_cfg r"
  "rv_rcv_last_ack (feed_drift r now t ts) = rv_rcv_last_ack r"
  "rv_rcv_last_ackack (feed_drift r now t ts) = rv_rcv_last_ackack r"
  "rv_ack_journal (feed_drift r now t ts) = rv_ack_journal r"
  "rv_base_seq (confirm_ackack r s) = rv_base_seq r" "rv_slots (confirm_ackack r s) = rv_slots r"
  "rv_scan_hint (confirm_ackack r s) = rv_scan_hint r" "rv_loss (confirm_ackack r s) = rv_loss r"
  "rv_rcv_curr_seq (confirm_ackack r s) = rv_rcv_curr_seq r" "rv_cfg (confirm_ackack r s) = rv_cfg r"
  "rv_rcv_last_ack (confirm_ackack r s) = rv_rcv_last_ack r"
  "rv_ack_journal (confirm_ackack r s) = rv_ack_journal r"
  "rv_base_seq (rtt_sample r t) = rv_base_seq r" "rv_slots (rtt_sample r t) = rv_slots r"
  "rv_scan_hint (rtt_sample r t) = rv_scan_hint r" "rv_loss (rtt_sample r t) = rv_loss r"
  "rv_rcv_curr_seq (rtt_sample r t) = rv_rcv_curr_seq r" "rv_cfg (rtt_sample r t) = rv_cfg r"
  "rv_rcv_last_ack (rtt_sample r t) = rv_rcv_last_ack r"
  "rv_rcv_last_ackack (rtt_sample r t) = rv_rcv_last_ackack r"
  "rv_ack_journal (rtt_sample r t) = rv_ack_journal r"
  by (simp_all add: feed_drift_def confirm_ackack_def rtt_sample_def Let_def split: option.split prod.split)

lemma handle_ackack_window: "rep_window a r \<Longrightarrow> rep_window a (handle_ackack r now n ts)"
  by (rule rep_window_cong [of a r]) (simp_all add: handle_ackack_def Let_def)

lemma handle_ackack_refines:
  assumes "represents a r"
  shows "represents (sp_ackack a r now n) (handle_ackack r now n ts)"
proof -
  have ok: "spec_ok a" "rep_window a r" "rep_acks a r" using assms by (auto simp: represents_def)
  obtain ps where ps: "map ar_seq (rv_ack_journal r) = map seq_of ps" "sorted (sp_confirmed a # ps)"
    "\<forall>p \<in> set ps. p \<le> sp_acked a" and gap: "sp_acked a - sp_confirmed a < 2 ^ 30"
    using ok(3) by (auto simp: rep_acks_def)
  have len: "length (rv_ack_journal r) = length ps" using arg_cong [OF ps(1), of length] by simp
  define pos where "pos = journal_pos n (rv_ack_journal r)"
  show ?thesis
  proof (cases "pos < length ps")
    case False
    then show ?thesis
      using assms len
      by (simp add: sp_ackack_def confirmed_by_def handle_ackack_def Let_def flip: pos_def)
  next
    case True
    define p where "p = ps ! pos"
    have seq: "ar_seq (rv_ack_journal r ! pos) = seq_of p"
      using ps(1) True len unfolding p_def by (metis nth_map)
    have p: "sp_confirmed a \<le> p" "p \<le> sp_acked a" using ps(2,3) True by (auto simp: p_def)
    have d: "seq_diff (seq_of p) (seq_of (sp_confirmed a)) = p - sp_confirmed a"
      using p gap by (auto intro!: near_cmp)
    have rest: "map ar_seq (drop (Suc pos) (rv_ack_journal r)) = map seq_of (drop (Suc pos) ps)"
      using ps(1) by (simp flip: drop_map)
    have "sorted (p # drop (Suc pos) ps)"
      using ps(2) True Cons_nth_drop_Suc [OF True] sorted_wrt_drop [of "(\<le>)" ps pos] by (simp add: p_def)
    moreover from this have "sorted (sp_confirmed a # drop (Suc pos) ps)" using p by auto
    moreover have "\<forall>q \<in> set (drop (Suc pos) ps). q \<le> sp_acked a" using ps(3) by (meson in_set_dropD)
    ultimately have "rep_acks (sp_ackack a r now n) (handle_ackack r now n ts)"
      using ok(3) True len p gap rest
      by (auto simp: rep_acks_def sp_ackack_def confirmed_by_def handle_ackack_def Let_def seq d sp_confirm_def
          confirm_ackack_def simp flip: pos_def intro!: exI [of _ "drop (Suc pos) ps"])
    moreover have "spec_ok (sp_ackack a r now n)"
    proof (cases "confirmed_by a r now n")
      case (Some q)
      then have "q = p" using True len d by (simp add: confirmed_by_def Let_def seq flip: pos_def split: if_splits)
      moreover have "ack_pos (sp_confirm a p) = ack_pos a" by (simp add: ack_pos_def sp_confirm_def)
      ultimately show ?thesis
        using ok(1) p Some unfolding spec_ok_def by (simp add: sp_ackack_def) (simp add: sp_confirm_def)
    qed (use ok(1) in \<open>simp add: sp_ackack_def\<close>)
    moreover have "rep_window (sp_ackack a r now n) (handle_ackack r now n ts)"
      using handle_ackack_window [OF ok(2)]
      by (auto simp: rep_window_def sp_ackack_def sp_confirm_def split: option.split)
    ultimately show ?thesis by (simp add: represents_def)
  qed
qed

section \<open>The receiver as a machine\<close>

datatype rcv_event =
    RcvData instant data_packet
  | RcvUndecryptable instant data_packet
  | RcvAckAck instant u32 timestamp
  | RcvDropReq msg_number seq_number seq_number
  | RcvTimer instant
  | RcvPollControl
  | RcvPollDeliver instant
  | RcvHsAnchor instant timestamp
  | RcvMaxPayload nat

fun rcv_step :: "receiver \<Rightarrow> rcv_event \<Rightarrow> receiver" where
  "rcv_step r (RcvData now pkt) = handle_data r now pkt"
| "rcv_step r (RcvUndecryptable now pkt) = handle_undecryptable r now pkt"
| "rcv_step r (RcvAckAck now n ts) = handle_ackack r now n ts"
| "rcv_step r (RcvDropReq m f l) = handle_dropreq r m f l"
| "rcv_step r (RcvTimer now) = receiver_on_timer r now"
| "rcv_step r RcvPollControl = fst (receiver_poll_control r)"
| "rcv_step r (RcvPollDeliver now) =
     (case (poll_deliver r now :: (_, unit) outcome) of Ok (r', _) \<Rightarrow> r' | _ \<Rightarrow> r)"
| "rcv_step r (RcvHsAnchor at ts) = set_hs_anchor r at ts"
| "rcv_step r (RcvMaxPayload n) = set_max_payload r n"

text \<open>What a step hands to the application.\<close>

fun rcv_out :: "receiver \<Rightarrow> rcv_event \<Rightarrow> bytes option" where
  "rcv_out r (RcvPollDeliver now) =
     (case (poll_deliver r now :: (_, unit) outcome) of Ok (_, out) \<Rightarrow> out | _ \<Rightarrow> None)"
| "rcv_out r _ = None"

definition sp_ingest :: "receiver \<Rightarrow> rcv_spec \<Rightarrow> instant \<Rightarrow> data_packet \<Rightarrow> bool \<Rightarrow> rcv_spec" where
  "sp_ingest r a now pkt und =
     (if length (dp_payload pkt) > rv_max_payload r then a
      else sp_store a (rc_buffer_pkts (rv_cfg r)) (near a (dp_seq pkt))
             (slot_of pkt (snd (ts_extend (rv_extender r) (dp_timestamp pkt) now)) und))"

definition sp_poll :: "receiver \<Rightarrow> rcv_spec \<Rightarrow> instant \<Rightarrow> rcv_spec \<times> (int \<times> bytes) option" where
  "sp_poll r a now =
     (case rv_anchor r of
        None \<Rightarrow> (a, None)
      | Some an \<Rightarrow> sp_deliver (\<lambda>sl. tsbpd_deadline r an (sl_ext_us sl) \<le> now) a)"

text \<open>The specification steps; the clock readings and limits come from the concrete state.\<close>

fun sp_step :: "receiver \<Rightarrow> rcv_spec \<Rightarrow> rcv_event \<Rightarrow> rcv_spec" where
  "sp_step r a (RcvData now pkt) = sp_ingest r a now pkt False"
| "sp_step r a (RcvUndecryptable now pkt) = sp_ingest r a now pkt True"
| "sp_step r a (RcvAckAck now n ts) = sp_ackack a r now n"
| "sp_step r a (RcvDropReq m f l) = sp_dropreq a m (near a f) (near a l)"
| "sp_step r a (RcvTimer now) = (if now \<ge> rv_next_full_ack r then sp_ack a else a)"
| "sp_step r a (RcvPollDeliver now) = fst (sp_poll r a now)"
| "sp_step r a _ = a"

fun sp_out :: "receiver \<Rightarrow> rcv_spec \<Rightarrow> rcv_event \<Rightarrow> (int \<times> bytes) option" where
  "sp_out r a (RcvPollDeliver now) = snd (sp_poll r a now)"
| "sp_out r a _ = None"

text \<open>
  What the environment must respect: sequence numbers come from the parser, a drop request lies
  within a quarter of the sequence space of the delivery point, and fewer than \<open>2 ^ 30\<close> packets
  are acknowledged without the peer confirming any acknowledgement.
\<close>

fun rcv_event_ok :: "rcv_spec \<Rightarrow> rcv_event \<Rightarrow> bool" where
  "rcv_event_ok a (RcvData now pkt) = seq_ok (dp_seq pkt)"
| "rcv_event_ok a (RcvUndecryptable now pkt) = seq_ok (dp_seq pkt)"
| "rcv_event_ok a (RcvDropReq m f l) =
     (seq_ok f \<and> seq_ok l \<and> \<bar>near a f - sp_base a\<bar> < 2 ^ 29 \<and> \<bar>near a l - sp_base a\<bar> < 2 ^ 29)"
| "rcv_event_ok a (RcvTimer now) = (ack_pos a - sp_confirmed a < 2 ^ 30)"
| "rcv_event_ok a _ = True"

lemma queue_light_ack_frame [simp]:
  "rv_base_seq (queue_light_ack r) = rv_base_seq r" "rv_slots (queue_light_ack r) = rv_slots r"
  "rv_scan_hint (queue_light_ack r) = rv_scan_hint r" "rv_loss (queue_light_ack r) = rv_loss r"
  "rv_rcv_curr_seq (queue_light_ack r) = rv_rcv_curr_seq r" "rv_cfg (queue_light_ack r) = rv_cfg r"
  "rv_rcv_last_ack (queue_light_ack r) = rv_rcv_last_ack r"
  "rv_rcv_last_ackack (queue_light_ack r) = rv_rcv_last_ackack r"
  "rv_ack_journal (queue_light_ack r) = rv_ack_journal r"
  by (simp_all add: queue_light_ack_def Let_def)

lemma represents_cong:
  assumes "represents a r" "rv_base_seq r' = rv_base_seq r" "rv_rcv_curr_seq r' = rv_rcv_curr_seq r"
    "rv_slots r' = rv_slots r" "rv_loss r' = rv_loss r" "rv_scan_hint r' = rv_scan_hint r" "rv_cfg r' = rv_cfg r"
    "rv_rcv_last_ack r' = rv_rcv_last_ack r" "rv_rcv_last_ackack r' = rv_rcv_last_ackack r"
    "rv_ack_journal r' = rv_ack_journal r"
  shows "represents a r'"
  using assms rep_window_cong [of a r r'] rep_acks_cong [of a r r' a] by (simp add: represents_def)

lemma store_represents:
  assumes "represents a r" "seq_ok (dp_seq pkt)"
  shows "represents (sp_store a (rc_buffer_pkts (rv_cfg r)) (near a (dp_seq pkt)) (slot_of pkt e und))
    (store_data r pkt e und)"
  using assms store_data_refines [of a r pkt e und] sp_store_ok [of a]
    rep_acks_cong [of a r "store_data r pkt e und"]
  by (simp add: represents_def)

lemma ingest_refines:
  assumes "represents a r" "seq_ok (dp_seq pkt)"
  shows "represents (sp_ingest r a now pkt und) (ingest r now pkt und)"
proof (cases "length (dp_payload pkt) > rv_max_payload r")
  case True
  then show ?thesis using assms(1) by (auto simp: sp_ingest_def ingest_def intro: represents_cong)
next
  case False
  obtain ex e where e: "ts_extend (rv_extender r) (dp_timestamp pkt) now = (ex, e)" by force
  define r2 where "r2 = (count_recv r (length (dp_payload pkt)))\<lparr> rv_extender := ex,
    rv_anchor := (case rv_anchor r of None \<Rightarrow> Some \<lparr> an_instant = now, an_ext_us = e \<rparr> | Some a \<Rightarrow> Some a) \<rparr>"
  define r3 where "r3 = store_data r2 pkt e und"
  have "represents a r2" by (rule represents_cong [OF assms(1)]) (simp_all add: r2_def count_recv_def)
  from store_represents [OF this assms(2), of e und]
  have "represents (sp_ingest r a now pkt und) r3"
    using False e by (simp add: r3_def sp_ingest_def r2_def count_recv_def)
  moreover have "ingest r now pkt und = r3 \<or>
      ingest r now pkt und = queue_light_ack (r3\<lparr> rv_light_ack_count := rv_light_ack_count r3 + 1 \<rparr>)"
    using False e unfolding ingest_def r3_def r2_def Let_def by (simp add: count_recv_def)
  ultimately show ?thesis by (auto intro: represents_cong)
qed

lemma deliver_loop_frame:
  assumes "deliver_loop r an now = (Ok (r', out) :: (_, 'e) outcome)"
  shows "rv_rcv_last_ack r' = rv_rcv_last_ack r \<and> rv_rcv_last_ackack r' = rv_rcv_last_ackack r
    \<and> rv_ack_journal r' = rv_ack_journal r"
  using assms
proof (induction "length (rv_slots r)" arbitrary: r rule: less_induct)
  case less
  have keep: "rv_rcv_last_ack (pop_slot (skip_hole r n)) = rv_rcv_last_ack r"
    "rv_rcv_last_ackack (pop_slot (skip_hole r n)) = rv_rcv_last_ackack r"
    "rv_ack_journal (pop_slot (skip_hole r n)) = rv_ack_journal r" for r n
    by (simp_all add: pop_slot_def skip_hole_def)
  have shrink: "length (rv_slots (pop_slot (skip_hole r n))) < length (rv_slots r)"
    if "rv_slots (skip_hole r n) = x # xs" for r n x xs
    using that by (auto simp: pop_slot_def skip_hole_def dest: drop_eq_Cons_length split: if_splits)
  from less.prems show ?case
    by (subst (asm) deliver_loop.simps)
      (auto simp: Let_def keep dest!: less.hyps [rotated] shrink
        split: option.splits if_splits list.splits)
qed

lemma poll_deliver_refines:
  assumes "represents a r"
  shows "\<exists>r'. poll_deliver r now = (Ok (r', map_option snd (snd (sp_poll r a now))) :: (_, 'e) outcome)
    \<and> represents (fst (sp_poll r a now)) r'"
proof (cases "rv_anchor r")
  case None
  then show ?thesis using assms by (simp add: poll_deliver_def sp_poll_def)
next
  case (Some an)
  let ?due = "\<lambda>sl. tsbpd_deadline r an (sl_ext_us sl) \<le> now"
  have ok: "rep_window a r" "spec_ok a" "rep_acks a r" using assms by (auto simp: represents_def)
  obtain r' where r': "deliver_loop r an now = (Ok (r', map_option snd (snd (sp_deliver ?due a))) :: (_, 'e) outcome)"
    "rep_window (fst (sp_deliver ?due a)) r'"
    using deliver_loop_refines [OF ok(1,2) refl, where 'e = 'e] by blast
  have "sp_acked (fst (sp_deliver ?due a)) = sp_acked a" "sp_confirmed (fst (sp_deliver ?due a)) = sp_confirmed a"
    by (simp_all add: sp_deliver_def sp_release_def Let_def)
  then have "rep_acks (fst (sp_deliver ?due a)) r'"
    using rep_acks_cong [OF ok(3)] deliver_loop_frame [OF r'(1)] by simp
  then show ?thesis
    using r' sp_deliver_ok [OF ok(2)] Some by (simp add: poll_deliver_def sp_poll_def represents_def)
qed

lemma queue_nak_frame [simp]:
  "rv_base_seq (queue_nak r xs) = rv_base_seq r" "rv_slots (queue_nak r xs) = rv_slots r"
  "rv_scan_hint (queue_nak r xs) = rv_scan_hint r" "rv_loss (queue_nak r xs) = rv_loss r"
  "rv_rcv_curr_seq (queue_nak r xs) = rv_rcv_curr_seq r" "rv_cfg (queue_nak r xs) = rv_cfg r"
  "rv_rcv_last_ack (queue_nak r xs) = rv_rcv_last_ack r"
  "rv_rcv_last_ackack (queue_nak r xs) = rv_rcv_last_ackack r"
  "rv_ack_journal (queue_nak r xs) = rv_ack_journal r"
  by (simp_all add: queue_nak_def)

lemma ack_timer_refines:
  assumes "represents a r" "ack_pos a - sp_confirmed a < 2 ^ 30"
  shows "represents (if now \<ge> rv_next_full_ack r then sp_ack a else a) (ack_timer r now)"
  using assms queue_full_ack_refines [OF assms, of now] by (auto simp: ack_timer_def intro: represents_cong)

lemma nak_timer_refines: "represents a r \<Longrightarrow> represents a (nak_timer r now)"
  by (rule represents_cong [of a r]) (simp_all add: nak_timer_def Let_def)

lemma rcv_step_refines:
  assumes "represents a r" "rcv_event_ok a e"
  shows "represents (sp_step r a e) (rcv_step r e)"
proof (cases e)
  case (RcvDropReq m f l)
  then show ?thesis
    using assms dropreq_refines [of a r f l m] sp_dropreq_ok [of a m "near a f" "near a l"]
      rep_acks_cong [of a r "handle_dropreq r m f l" "sp_dropreq a m (near a f) (near a l)"]
    by (simp add: represents_def sp_dropreq_def)
next
  case (RcvTimer now)
  then show ?thesis
    using assms ack_timer_refines [of a r now] nak_timer_refines by (simp add: receiver_on_timer_def)
next
  case RcvPollControl
  then show ?thesis
    using assms by (auto simp: receiver_poll_control_def split: list.split intro: represents_cong)
next
  case (RcvPollDeliver now)
  then show ?thesis using poll_deliver_refines [OF assms(1), where 'e = unit, of now] by auto
next
  case (RcvHsAnchor at ts)
  then show ?thesis
    using assms by (auto simp: set_hs_anchor_def split: prod.split intro: represents_cong)
next
  case (RcvMaxPayload n)
  then show ?thesis using assms by (auto simp: set_max_payload_def intro: represents_cong)
qed (use assms ingest_refines handle_ackack_refines in \<open>simp_all add: handle_data_def handle_undecryptable_def\<close>)

lemma rcv_out_refines:
  assumes "represents a r" shows "rcv_out r e = map_option snd (sp_out r a e)"
proof (cases e)
  case (RcvPollDeliver now)
  then show ?thesis using poll_deliver_refines [OF assms, where 'e = unit, of now] by auto
qed simp_all

end
