(* ===== verification/Receiver_Delivery.thy ===== *)
theory Receiver_Delivery
  imports Receiver_Props
begin

text \<open>
  Properties of the receiver over every run from \<open>receiver_new\<close>.  A run pairs the translated
  receiver with its specification; \<open>rcv_machine\<close> is the machine interface interpreted on that pair.
\<close>

section \<open>Runs\<close>

definition pair_step :: "rcv_spec \<times> receiver \<Rightarrow> rcv_event \<Rightarrow> rcv_spec \<times> receiver" where
  "pair_step p e = (sp_step (snd p) (fst p) e, rcv_step (snd p) e)"

definition pair_ok :: "rcv_spec \<times> receiver \<Rightarrow> rcv_event \<Rightarrow> bool" where
  "pair_ok p e = rcv_event_ok (fst p) e"

definition pair_inv :: "rcv_spec \<times> receiver \<Rightarrow> bool" where
  "pair_inv p \<longleftrightarrow> represents (fst p) (snd p)"

interpretation rcv_machine: inv_machine pair_step pair_ok pair_inv
  by unfold_locales (simp add: pair_step_def pair_ok_def pair_inv_def rcv_step_refines)

definition spec_init :: "receiver_config \<Rightarrow> rcv_spec" where
  "spec_init cfg =
     (let b = uint (raw (rc_initial_seq cfg)) in
      \<lparr> sp_base = b, sp_curr = b - 1, sp_buf = (\<lambda>_. None), sp_loss = {}, sp_acked = b, sp_confirmed = b \<rparr>)"

definition config_ok :: "receiver_config \<Rightarrow> bool" where
  "config_ok cfg \<longleftrightarrow> seq_ok (rc_initial_seq cfg) \<and> rc_buffer_pkts cfg \<le> 2 ^ 29"

definition rcv_start :: "instant \<Rightarrow> receiver_config \<Rightarrow> rcv_spec \<times> receiver" where
  "rcv_start t0 cfg = (spec_init cfg, receiver_new t0 cfg)"

lemma rcv_start_inv:
  assumes "config_ok cfg" shows "pair_inv (rcv_start t0 cfg)"
proof -
  define b where "b = uint (raw (rc_initial_seq cfg))"
  have seq: "rc_initial_seq cfg = seq_of b" using seq_of_uint_raw assms by (simp add: config_ok_def b_def)
  have init: "spec_init cfg = \<lparr> sp_base = b, sp_curr = b - 1, sp_buf = (\<lambda>_. None), sp_loss = {},
      sp_acked = b, sp_confirmed = b \<rparr>"
    by (simp add: spec_init_def b_def Let_def)
  have "rep_window (spec_init cfg) (receiver_new t0 cfg)" "rep_acks (spec_init cfg) (receiver_new t0 cfg)"
    using assms unfolding init
    by (simp_all add: rep_window_def rep_acks_def receiver_new_def hint_ok_def seq seq_simps config_ok_def)
  moreover have "spec_ok (spec_init cfg)" by (simp add: spec_ok_def spec_init_def Let_def ack_pos_def)
  ultimately show ?thesis by (simp add: pair_inv_def rcv_start_def represents_def)
qed

lemma snd_run: "snd (foldl pair_step p es) = foldl rcv_step (snd p) es"
  by (induction es arbitrary: p) (simp_all add: pair_step_def)

section \<open>An example run\<close>

text \<open>
  Four arrivals across the wrap of the sequence space: in order, after a gap, filling the gap, and a
  duplicate.
\<close>

definition demo_rcv_config :: receiver_config where
  "demo_rcv_config = \<lparr> rc_initial_seq = SeqNumber 0x7FFFFFFE, rc_rcv_latency = 120000000, rc_buffer_pkts = 8 \<rparr>"

definition demo_data :: "u32 \<Rightarrow> u32 \<Rightarrow> bytes \<Rightarrow> data_packet" where
  "demo_data s ts payload = \<lparr> dp_seq = SeqNumber s, dp_position = Only, dp_order = False, dp_encryption = EncNone,
     dp_retransmitted = False, dp_msg_number = MsgNumber 1, dp_timestamp = Timestamp ts,
     dp_dst_socket_id = SocketId 7, dp_payload = payload \<rparr>"

definition demo_arrivals :: "rcv_event list" where
  "demo_arrivals = [RcvData 1000000 (demo_data 0x7FFFFFFE 1000 [1]), RcvData 2000000 (demo_data 0 3000 [3]),
     RcvData 3000000 (demo_data 0x7FFFFFFF 2000 [2]), RcvData 4000000 (demo_data 0 3000 [3])]"

lemma replicate_two: "replicate 2 x = [x, x]"
  by (simp add: numeral_2_eq_2)

lemmas rcv_eval = demo_rcv_config_def demo_data_def demo_arrivals_def receiver_new_def handle_data_def ingest_def
  count_recv_def ts_extend_def extender_new_def store_data_def bump_belated_def grow_slots_def detect_gap_def track_curr_def
  queue_nak_def seq_diff_def seq_next_def seq_prev_def seq_add_def SEQ_MASK_def
  poll_deliver_def deliver_loop.simps first_occupied_def tsbpd_deadline_def skip_hole_def pop_slot_def
  correction_us_def drift_new_def receiver_stats_default_def
  LIGHT_ACK_PACKETS_def DEFAULT_MAX_PAYLOAD_def RCV_INITIAL_RTT_US_def RCV_INITIAL_RTT_VAR_US_def FULL_ACK_INTERVAL_def
  NAK_INITIAL_INTERVAL_def NAK_MIN_INTERVAL_def
  from_micros_def from_millis_def as_micros_def saturating_add_signed_def Let_def replicate_two

definition demo_slot :: "bytes \<Rightarrow> nat \<Rightarrow> rcv_slot" where
  "demo_slot payload ext = \<lparr> sl_payload = payload, sl_msg_number = MsgNumber 1, sl_ext_us = ext, sl_undecryptable = False \<rparr>"

definition demo_receiver :: receiver where
  "demo_receiver = (receiver_new 0 demo_rcv_config)
     \<lparr> rv_slots := [Some (demo_slot [1] 1000), Some (demo_slot [2] 2000), Some (demo_slot [3] 3000)],
       rv_rcv_curr_seq := SeqNumber 0, rv_extender := \<lparr> te_anchor = Some (1000000, 1000) \<rparr>,
       rv_anchor := Some \<lparr> an_instant = 1000000, an_ext_us = 1000 \<rparr>, rv_pkt_count := 4,
       rv_nak_interval := 150000000,
       rv_control_q := [Nak [\<lparr> lr_first = SeqNumber 0x7FFFFFFF, lr_last = SeqNumber 0x7FFFFFFF \<rparr>]],
       rv_stats := receiver_stats_default\<lparr> rs_pkts_recv := 4, rs_bytes_recv := 4, rs_pkts_lost := 1 \<rparr> \<rparr>"

lemma demo_receiver_run: "foldl rcv_step (receiver_new 0 demo_rcv_config) demo_arrivals = demo_receiver"
  by (simp add: rcv_eval demo_receiver_def demo_slot_def)

definition demo_spec :: rcv_spec where
  "demo_spec = \<lparr> sp_base = 0x7FFFFFFE, sp_curr = 0x80000000,
     sp_buf = (\<lambda>_. None)(0x7FFFFFFE := Some (demo_slot [1] 1000), 0x80000000 := Some (demo_slot [3] 3000),
       0x7FFFFFFF := Some (demo_slot [2] 2000)),
     sp_loss = {}, sp_acked = 0x7FFFFFFE, sp_confirmed = 0x7FFFFFFE \<rparr>"

lemma demo_run: "foldl pair_step (rcv_start 0 demo_rcv_config) demo_arrivals = (demo_spec, demo_receiver)"
  by (simp add: rcv_eval demo_receiver_def demo_slot_def demo_spec_def rcv_start_def pair_step_def spec_init_def sp_ingest_def
     near_def sp_store_def admits_def slot_of_def seq_of_def) auto

lemma demo_config_ok: "config_ok demo_rcv_config"
  by (simp add: config_ok_def demo_rcv_config_def seq_ok_def SEQ_MASK_def)

lemma demo_run_ok: "rcv_machine.run_ok (rcv_start 0 demo_rcv_config) demo_arrivals"
  by (simp add: demo_arrivals_def demo_data_def pair_ok_def seq_ok_def SEQ_MASK_def)

lemma demo_represents: "represents demo_spec demo_receiver"
  using rcv_machine.run_inv [OF rcv_start_inv [OF demo_config_ok] demo_run_ok] by (simp add: demo_run pair_inv_def)

text \<open>
  C2.  The receiver refines the unbounded specification.  After any run that respects the
  environment assumptions, the translated receiver -- 31-bit sequence numbers, range list, scan
  hint -- represents the specification state; the delivery loop terminates without panicking and
  hands out exactly what the specification prescribes, again in a represented state.
\<close>

theorem receiver_refines_spec:
  assumes "config_ok cfg" "rcv_machine.run_ok (rcv_start t0 cfg) es"
    and "(a, r) = foldl pair_step (rcv_start t0 cfg) es"
  shows "r = foldl rcv_step (receiver_new t0 cfg) es \<and> represents a r
    \<and> (\<exists>r'. poll_deliver r now = (Ok (r', map_option snd (snd (sp_poll r a now))) :: (_, unit) outcome)
         \<and> represents (fst (sp_poll r a now)) r')"
proof -
  have "pair_inv (a, r)"
    using rcv_machine.run_inv [OF rcv_start_inv [OF assms(1)] assms(2)] assms(3) by simp
  then have rep: "represents a r" by (simp add: pair_inv_def)
  have "r = foldl rcv_step (receiver_new t0 cfg) es"
    using snd_run [of "rcv_start t0 cfg" es] arg_cong [OF assms(3), of snd] by (simp add: rcv_start_def)
  then show ?thesis using rep poll_deliver_refines [OF rep, where 'e = unit] by blast
qed

theorem receiver_refines_spec_witness:
  "demo_receiver = foldl rcv_step (receiver_new 0 demo_rcv_config) demo_arrivals \<and> represents demo_spec demo_receiver
    \<and> (\<exists>r'. poll_deliver demo_receiver 121000000 =
              (Ok (r', map_option snd (snd (sp_poll demo_receiver demo_spec 121000000))) :: (_, unit) outcome)
         \<and> represents (fst (sp_poll demo_receiver demo_spec 121000000)) r')"
  by (rule receiver_refines_spec [OF demo_config_ok demo_run_ok demo_run [symmetric]])

section \<open>In-order delivery\<close>

text \<open>What the application receives in a run, and what the network handed over with which index.\<close>

primrec delivered :: "receiver \<Rightarrow> rcv_event list \<Rightarrow> bytes list" where
  "delivered r [] = []"
| "delivered r (e # es) = (case rcv_out r e of None \<Rightarrow> [] | Some p \<Rightarrow> [p]) @ delivered (rcv_step r e) es"

fun arrived :: "rcv_spec \<Rightarrow> rcv_event \<Rightarrow> (int \<times> bytes) set" where
  "arrived a (RcvData now pkt) = {(near a (dp_seq pkt), dp_payload pkt)}"
| "arrived a _ = {}"

primrec arrivals :: "rcv_spec \<times> receiver \<Rightarrow> rcv_event list \<Rightarrow> (int \<times> bytes) set" where
  "arrivals p [] = {}"
| "arrivals p (e # es) = arrived (fst p) e \<union> arrivals (pair_step p e) es"

definition waiting :: "rcv_spec \<Rightarrow> (int \<times> bytes) set" where
  "waiting a = {(i, sl_payload sl) | i sl. sp_buf a i = Some sl \<and> \<not> sl_undecryptable sl}"

lemma waiting_step: "waiting (sp_step r a e) \<subseteq> waiting a \<union> arrived a e"
  by (cases e) (auto simp: waiting_def sp_ingest_def sp_store_def slot_of_def sp_dropreq_def sp_ackack_def
      sp_confirm_def sp_ack_def sp_poll_def sp_deliver_def sp_release_def Let_def
      split: if_splits option.splits)

lemma sp_out_step:
  assumes "represents a r" "sp_out r a e = Some (i, p)"
  shows "(i, p) \<in> waiting a" "sp_base a \<le> i" "sp_base (sp_step r a e) = i + 1"
proof -
  obtain now where e: "e = RcvPollDeliver now" using assms(2) by (cases e) auto
  obtain an where an: "rv_anchor r = Some an" using assms(2) by (auto simp: e sp_poll_def split: option.splits)
  define due where "due = (\<lambda>sl :: rcv_slot. tsbpd_deadline r an (sl_ext_us sl) \<le> now)"
  have d: "snd (sp_deliver due a) = Some (i, p)" using assms(2) by (simp add: e sp_poll_def an due_def)
  then have ne: "consumed due a \<noteq> {}" by (auto simp: sp_deliver_def split: if_splits)
  have ok: "spec_ok a" using assms(1) by (simp add: represents_def)
  have i: "i = Max (consumed due a)" and p: "p = sl_payload (the (sp_buf a i))"
    and und: "\<not> sl_undecryptable (the (sp_buf a i))"
    using d ne by (auto simp: sp_deliver_def Let_def split: if_splits)
  have "i \<in> consumed due a" "sp_base a \<le> i" using consumed_Max [OF ok ne] i by auto
  then show "(i, p) \<in> waiting a" "sp_base a \<le> i" using p und by (auto simp: waiting_def consumed_def)
  show "sp_base (sp_step r a e) = i + 1"
    using ne i by (simp add: e sp_poll_def an sp_deliver_def Let_def sp_release_def flip: due_def)
qed

lemma sp_base_mono:
  assumes "represents a r" shows "sp_base a \<le> sp_base (sp_step r a e)"
proof (cases e)
  case (RcvPollDeliver now)
  have ok: "spec_ok a" using assms by (simp add: represents_def)
  show ?thesis using consumed_Max(2) [OF ok]
    by (fastforce simp: RcvPollDeliver sp_poll_def sp_deliver_def sp_release_def Let_def split: option.split)
qed (simp_all add: sp_ingest_def sp_dropreq_def sp_ackack_def sp_confirm_def sp_ack_def split: option.split)

lemma deliveries_ordered:
  assumes "pair_inv p" "rcv_machine.run_ok p es"
  shows "\<exists>ds. delivered (snd p) es = map snd ds \<and> sorted_wrt (<) ((sp_base (fst p) - 1) # map fst ds)
    \<and> set ds \<subseteq> waiting (fst p) \<union> arrivals p es"
  using assms
proof (induction es arbitrary: p)
  case (Cons e es)
  obtain a r where p: "p = (a, r)" by force
  have rep: "represents a r" using Cons.prems(1) by (simp add: p pair_inv_def)
  have next_ok: "pair_inv (pair_step p e)" "rcv_machine.run_ok (pair_step p e) es"
    using Cons.prems by (auto simp: rcv_machine.step_inv)
  obtain ds where ds: "delivered (rcv_step r e) es = map snd ds"
    "sorted_wrt (<) ((sp_base (sp_step r a e) - 1) # map fst ds)"
    "set ds \<subseteq> waiting (sp_step r a e) \<union> arrivals (pair_step p e) es"
    using Cons.IH [OF next_ok] by (auto simp: p pair_step_def)
  have sub: "set ds \<subseteq> waiting a \<union> (arrived a e \<union> arrivals (pair_step p e) es)"
    using ds(3) waiting_step [of r a e] by blast
  show ?case
  proof (cases "sp_out r a e")
    case None
    then have "rcv_out r e = None" using rcv_out_refines [OF rep] by simp
    then show ?thesis
      using ds sub sp_base_mono [OF rep, of e] by (intro exI [of _ ds]) (auto simp: p)
  next
    case (Some d)
    obtain i q where d: "d = (i, q)" by force
    note out = sp_out_step [OF rep Some [unfolded d]]
    have "rcv_out r e = Some q" using rcv_out_refines [OF rep, of e] Some d by simp
    then show ?thesis
      using ds sub out by (intro exI [of _ "(i, q) # ds"]) (auto simp: p)
  qed
qed simp

text \<open>
  C3.  Delivery is in order, exactly once and faithful.  In every run the application receives the
  payloads of arrived packets, each paired with an index that strictly increases from one delivery
  to the next: nothing is delivered twice, out of order, or invented, however the network
  duplicates, reorders and drops, and however often the 31-bit sequence numbers wrap.
\<close>

theorem in_order_exactly_once:
  assumes "config_ok cfg" "rcv_machine.run_ok (rcv_start t0 cfg) es"
  shows "\<exists>ds. delivered (receiver_new t0 cfg) es = map snd ds \<and> sorted_wrt (<) (map fst ds)
    \<and> set ds \<subseteq> arrivals (rcv_start t0 cfg) es"
  using deliveries_ordered [OF rcv_start_inv [OF assms(1)] assms(2)]
  by (auto simp: rcv_start_def waiting_def spec_init_def Let_def)

definition demo_polls :: "rcv_event list" where
  "demo_polls = [RcvPollDeliver 121000000, RcvPollDeliver 122000000, RcvPollDeliver 200000000, RcvPollDeliver 200000000]"

lemma demo_delivered: "delivered demo_receiver demo_polls = [[1], [2], [3]]"
  by (simp add: rcv_eval demo_receiver_def demo_slot_def demo_polls_def)

lemma delivered_append:
  "delivered r (es @ es') = delivered r es @ delivered (foldl rcv_step r es) es'"
  by (induction es arbitrary: r) simp_all

lemma demo_all_delivered:
  "delivered (receiver_new 0 demo_rcv_config) (demo_arrivals @ demo_polls) = [[1], [2], [3]]"
  unfolding delivered_append demo_receiver_run demo_delivered by (simp add: demo_arrivals_def)

theorem in_order_exactly_once_witness:
  "\<exists>ds. [[1], [2], [3]] = map snd ds \<and> sorted_wrt (<) (map fst ds)
    \<and> set ds \<subseteq> arrivals (rcv_start 0 demo_rcv_config) (demo_arrivals @ demo_polls)"
proof -
  have "rcv_machine.run_ok (rcv_start 0 demo_rcv_config) (demo_arrivals @ demo_polls)"
    unfolding rcv_machine.run_ok_append using demo_run_ok by (simp add: demo_polls_def pair_ok_def)
  from in_order_exactly_once [OF demo_config_ok this] show ?thesis unfolding demo_all_delivered .
qed

end
