(* ===== verification/Receiver_Timing.thy ===== *)
theory Receiver_Timing
  imports Receiver_Delivery
begin

text \<open>
  When the receiver acts: delivery deadlines, wake-ups, acknowledgements, loss reports and the
  round-trip estimate.
\<close>

section \<open>Delivery deadlines\<close>

lemma consumedD:
  assumes "i \<in> consumed due a"
  shows "\<exists>sl. sp_buf a i = Some sl \<and> due sl"
    and "\<And>j sl. j < i \<Longrightarrow> sp_buf a j = Some sl \<Longrightarrow> due sl \<and> sl_undecryptable sl"
  using assms by (auto simp: consumed_def)

text \<open>
  C16.  Delivery is neither early nor late.  A poll hands out a payload exactly when some buffered,
  decryptable packet carries it whose play time has come, every buffered packet before it being an
  undecryptable one that is due as well; in particular the first buffered packet is handed out as
  soon as it is due, whatever gap precedes it.
\<close>

theorem delivery_on_time:
  assumes "represents a r" "rv_anchor r = Some an"
    and "poll_deliver r now = (Ok (r', out) :: (_, unit) outcome)"
  shows "out = Some p \<longleftrightarrow>
    (\<exists>i sl. sp_buf a i = Some sl \<and> sl_payload sl = p \<and> \<not> sl_undecryptable sl
       \<and> tsbpd_deadline r an (sl_ext_us sl) \<le> now
       \<and> (\<forall>j < i. \<forall>s. sp_buf a j = Some s \<longrightarrow> tsbpd_deadline r an (sl_ext_us s) \<le> now \<and> sl_undecryptable s))"
proof -
  define due where "due = (\<lambda>sl :: rcv_slot. tsbpd_deadline r an (sl_ext_us sl) \<le> now)"
  define good where "good = (\<lambda>i sl. sp_buf a i = Some sl \<and> sl_payload sl = p \<and> \<not> sl_undecryptable sl \<and> i \<in> consumed due a)"
  have ok: "spec_ok a" using assms(1) by (simp add: represents_def)
  have out: "out = map_option snd (snd (sp_deliver due a))"
    using poll_deliver_refines [OF assms(1), where 'e = unit, of now] assms(2,3)
    by (auto simp: sp_poll_def due_def)
  have "out = Some p \<longleftrightarrow> (\<exists>i sl. good i sl)"
  proof (cases "consumed due a = {}")
    case True
    then show ?thesis by (simp add: out sp_deliver_def good_def)
  next
    case False
    define m where "m = Max (consumed due a)"
    have m: "m \<in> consumed due a" unfolding m_def by (rule consumed_Max(1) [OF ok False])
    obtain sl where sl: "sp_buf a m = Some sl" using consumedD(1) [OF m] by blast
    have "i = m" if "good i s" for i s
    proof -
      have i: "i \<in> consumed due a" "sp_buf a i = Some s" "\<not> sl_undecryptable s"
        using that by (simp_all add: good_def)
      have "i \<le> m"
        unfolding m_def using i(1) finite_subset [OF consumed_subset] spec_ok_finite [OF ok] by (simp add: Max_ge)
      then show ?thesis using consumedD(2) [OF m _ i(2)] i(3) by fastforce
    qed
    then have "(\<exists>i s. good i s) \<longleftrightarrow> good m sl" using sl by (metis good_def option.inject)
    also have "\<dots> \<longleftrightarrow> out = Some p"
      using False sl m unfolding out sp_deliver_def Let_def good_def m_def [symmetric] by simp
    finally show ?thesis by simp
  qed
  moreover have "good i sl \<longleftrightarrow> sp_buf a i = Some sl \<and> sl_payload sl = p \<and> \<not> sl_undecryptable sl
      \<and> tsbpd_deadline r an (sl_ext_us sl) \<le> now
      \<and> (\<forall>j < i. \<forall>s. sp_buf a j = Some s \<longrightarrow> tsbpd_deadline r an (sl_ext_us s) \<le> now \<and> sl_undecryptable s)"
    for i sl by (auto simp: good_def consumed_def due_def)
  ultimately show ?thesis by simp
qed

definition demo_polled :: receiver where
  "demo_polled = demo_receiver\<lparr> rv_slots := [Some (demo_slot [2] 2000), Some (demo_slot [3] 3000)],
     rv_base_seq := SeqNumber 0x7FFFFFFF \<rparr>"

lemma demo_rcv_poll: "poll_deliver demo_receiver 121000000 = (Ok (demo_polled, Some [1]) :: (_, unit) outcome)"
  by (simp add: rcv_eval demo_receiver_def demo_polled_def demo_slot_def)

theorem delivery_on_time_witness:
  "\<exists>i sl. sp_buf demo_spec i = Some sl \<and> sl_payload sl = [1] \<and> \<not> sl_undecryptable sl
     \<and> tsbpd_deadline demo_receiver \<lparr> an_instant = 1000000, an_ext_us = 1000 \<rparr> (sl_ext_us sl) \<le> 121000000
     \<and> (\<forall>j < i. \<forall>s. sp_buf demo_spec j = Some s \<longrightarrow>
          tsbpd_deadline demo_receiver \<lparr> an_instant = 1000000, an_ext_us = 1000 \<rparr> (sl_ext_us s) \<le> 121000000
          \<and> sl_undecryptable s)"
proof -
  have "rv_anchor demo_receiver = Some \<lparr> an_instant = 1000000, an_ext_us = 1000 \<rparr>" by (simp add: demo_receiver_def)
  from delivery_on_time [OF demo_represents this demo_rcv_poll, of "[1]"] show ?thesis by simp
qed

section \<open>Wake-ups\<close>

lemma deadline_ahead:
  assumes "receiver_next_deadline r t0 = Some t" "t0 \<le> now" "now < t"
  shows "now < rv_next_full_ack r" "rv_loss r = [] \<or> now < rv_next_nak_time r"
    "rv_anchor r = Some an \<Longrightarrow> first_occupied r = Some i \<Longrightarrow> rv_slots r ! i = Some sl \<Longrightarrow>
      now < tsbpd_deadline r an (sl_ext_us sl)"
proof -
  define d1 where "d1 = (if rv_loss r \<noteq> [] then min (rv_next_full_ack r) (rv_next_nak_time r) else rv_next_full_ack r)"
  define d2 where "d2 = (case (rv_anchor r, first_occupied r) of
      (Some a, Some i) \<Rightarrow> (case rv_slots r ! i of
         Some sl \<Rightarrow> min d1 (tsbpd_deadline r a (sl_ext_us sl)) | None \<Rightarrow> d1) | _ \<Rightarrow> d1)"
  have "t = max d2 t0"
    using assms(1) unfolding receiver_next_deadline_def Let_def d1_def [symmetric] d2_def [symmetric] by simp
  then have d2: "now < d2" using assms(2,3) by simp
  moreover have "d2 \<le> d1" by (auto simp: d2_def split: option.split)
  ultimately show "now < rv_next_full_ack r" "rv_loss r = [] \<or> now < rv_next_nak_time r"
    by (auto simp: d1_def split: if_splits)
  show "now < tsbpd_deadline r an (sl_ext_us sl)"
    if "rv_anchor r = Some an" "first_occupied r = Some i" "rv_slots r ! i = Some sl"
    using d2 that by (simp add: d2_def)
qed

lemma receiver_timer_quiet:
  "now < rv_next_full_ack r \<Longrightarrow> rv_loss r = [] \<or> now < rv_next_nak_time r
   \<Longrightarrow> rv_control_q (receiver_on_timer r now) = rv_control_q r"
  by (auto simp: receiver_on_timer_def ack_timer_def nak_timer_def)

text \<open>
  C29.  No work is missed between wake-ups.  Before the instant \<open>next_deadline\<close> announces, polling
  delivers nothing and the timers queue nothing, so a driver that sleeps until then loses nothing.
\<close>

theorem sleep_is_safe:
  assumes "represents a r" "receiver_next_deadline r t0 = Some t" "t0 \<le> now" "now < t"
  shows "rcv_out r (RcvPollDeliver now) = None
    \<and> rv_control_q (receiver_on_timer r now) = rv_control_q r"
proof -
  have "rv_control_q (receiver_on_timer r now) = rv_control_q r"
    using deadline_ahead(1,2) [OF assms(2-4)] by (rule receiver_timer_quiet)
  moreover have "rcv_out r (RcvPollDeliver now) = None"
  proof (cases "rv_anchor r")
    case None
    then show ?thesis by (simp add: poll_deliver_def)
  next
    case (Some an)
    have hint: "hint_ok r" using assms(1) by (simp add: represents_def rep_window_def)
    show ?thesis
    proof (cases "first_occupied r")
      case None
      then show ?thesis using Some by (simp add: poll_deliver_def deliver_loop.simps [of r])
    next
      case (Some i)
      obtain sl where sl: "rv_slots r ! i = Some sl" by (rule first_occupied_Some [OF hint Some])
      have "now < tsbpd_deadline r an (sl_ext_us sl)"
        using deadline_ahead(3) [OF assms(2-4) \<open>rv_anchor r = Some an\<close> Some sl] .
      moreover have "tsbpd_deadline (r\<lparr> rv_scan_hint := i \<rparr>) = tsbpd_deadline r"
        by (rule tsbpd_deadline_cong) simp_all
      ultimately show ?thesis
        using \<open>rv_anchor r = Some an\<close> Some sl by (simp add: poll_deliver_def deliver_loop.simps [of r] Let_def)
    qed
  qed
  ultimately show ?thesis by simp
qed

theorem sleep_is_safe_witness:
  "rcv_out demo_receiver (RcvPollDeliver 9000000) = None
    \<and> rv_control_q (receiver_on_timer demo_receiver 9000000) = rv_control_q demo_receiver"
proof (rule sleep_is_safe [OF demo_represents])
  show "receiver_next_deadline demo_receiver 5000000 = Some 10000000"
    by (simp add: rcv_eval demo_receiver_def demo_slot_def receiver_next_deadline_def)
qed simp_all

section \<open>Acknowledgements\<close>

text \<open>
  C19.  Full acknowledgements are exact.  A timer acknowledgement, when one is owed, carries the
  first missing index -- everything between the delivery point and it has arrived or was given up,
  and it is itself lost or not yet seen -- together with the free buffer space beyond it; none is
  queued for a position the peer has confirmed, or repeated before its round-trip interval.
\<close>

theorem full_ack_exact:
  assumes "represents a r" "ack_pos a - sp_confirmed a < 2 ^ 30"
  shows "rv_control_q (queue_full_ack r now) = rv_control_q r @
      (if ack_pos a = sp_confirmed a \<or> (ack_pos a = sp_acked a \<and> \<not> ack_repeats r now) then []
       else [Ack (incack (rv_ack_seq_no r))
              \<lparr> ac_last_ack_seq = seq_of (ack_pos a), ac_rtt_us = Some (rv_srtt_us r),
                ac_rtt_var_us = Some (rv_rtt_var_us r),
                ac_avail_buf_pkts =
                  Some (of_nat (max (rc_buffer_pkts (rv_cfg r) - nat (ack_pos a - sp_base a)) MIN_AVAIL_BUF)),
                ac_recv_rate_pkts = Some 0, ac_link_capacity_pkts = Some 0, ac_recv_rate_bytes = Some 0 \<rparr>])
    \<and> sp_acked a \<le> ack_pos a \<and> (ack_pos a \<in> sp_loss a \<or> ack_pos a = sp_curr a + 1)
    \<and> (\<forall>i. sp_base a \<le> i \<and> i < ack_pos a \<longrightarrow> i \<notin> sp_loss a \<and> i \<le> sp_curr a)"
proof -
  have ok: "spec_ok a" "rep_window a r" using assms(1) by (auto simp: represents_def)
  have b: "sp_base a \<le> ack_pos a" "ack_pos a \<le> sp_curr a + 1" using ack_pos_bounds [OF ok(1)] by auto
  have "\<bar>ack_pos a - sp_base a\<bar> < 2 ^ 30" using b ok(2) by (auto simp: rep_window_def)
  then have d: "seq_diff (seq_of (ack_pos a)) (rv_base_seq r) = ack_pos a - sp_base a"
    using near_cmp(1) ok(2) by (simp add: rep_window_def)
  have fin: "finite (sp_loss a)" using spec_ok_finite [OF ok(1)] by simp
  have "ack_pos a \<in> sp_loss a \<or> ack_pos a = sp_curr a + 1" using fin by (simp add: ack_pos_def)
  moreover have "i \<notin> sp_loss a" if "i < ack_pos a" for i
    using that fin Min_le [of "sp_loss a" i] by (auto simp: ack_pos_def split: if_splits)
  moreover have "rv_control_q (emit_full_ack (r\<lparr> rv_rcv_last_ack := seq_of (ack_pos a) \<rparr>) now) = rv_control_q r @
      [Ack (incack (rv_ack_seq_no r))
        \<lparr> ac_last_ack_seq = seq_of (ack_pos a), ac_rtt_us = Some (rv_srtt_us r),
          ac_rtt_var_us = Some (rv_rtt_var_us r),
          ac_avail_buf_pkts =
            Some (of_nat (max (rc_buffer_pkts (rv_cfg r) - nat (ack_pos a - sp_base a)) MIN_AVAIL_BUF)),
          ac_recv_rate_pkts = Some 0, ac_link_capacity_pkts = Some 0, ac_recv_rate_bytes = Some 0 \<rparr>]"
    using b d by (simp add: emit_full_ack_def Let_def avail_buf_pkts_def)
  ultimately show ?thesis
    using b ok(1) unfolding queue_full_ack_cases [OF assms] by (auto simp: spec_ok_def)
qed

lemma demo_ack_pos: "ack_pos demo_spec = 0x80000001"
  by (simp add: ack_pos_def demo_spec_def)

theorem full_ack_exact_witness:
  "rv_control_q (queue_full_ack demo_receiver 20000000) = rv_control_q demo_receiver @
     [Ack 1 \<lparr> ac_last_ack_seq = SeqNumber 1, ac_rtt_us = Some 100000, ac_rtt_var_us = Some 50000,
        ac_avail_buf_pkts = Some 5, ac_recv_rate_pkts = Some 0, ac_link_capacity_pkts = Some 0,
        ac_recv_rate_bytes = Some 0 \<rparr>]"
proof -
  have "sp_base demo_spec = 0x7FFFFFFE" "sp_acked demo_spec = 0x7FFFFFFE" "sp_confirmed demo_spec = 0x7FFFFFFE"
    "rc_buffer_pkts (rv_cfg demo_receiver) = 8" "rv_srtt_us demo_receiver = 100000"
    "rv_rtt_var_us demo_receiver = 50000" "incack (rv_ack_seq_no demo_receiver) = 1" "seq_of 0x80000001 = SeqNumber 1"
    by (simp_all add: demo_spec_def demo_receiver_def receiver_new_def demo_rcv_config_def incack_def
        RCV_INITIAL_RTT_US_def RCV_INITIAL_RTT_VAR_US_def seq_of_def SEQ_MASK_def)
  then show ?thesis
    using full_ack_exact [OF demo_represents, of 20000000] by (simp add: demo_ack_pos MIN_AVAIL_BUF_def)
qed

text \<open>Over a whole run the acknowledged, confirmed and delivered positions only move forward.\<close>

definition advances :: "rcv_spec \<times> receiver \<Rightarrow> rcv_spec \<times> receiver \<Rightarrow> bool" where
  "advances p q \<longleftrightarrow> sp_base (fst p) \<le> sp_base (fst q) \<and> sp_acked (fst p) \<le> sp_acked (fst q)
     \<and> sp_confirmed (fst p) \<le> sp_confirmed (fst q) \<and> sp_curr (fst p) \<le> sp_curr (fst q)"

lemma step_advances:
  assumes "pair_inv p" "pair_ok p e" shows "advances p (pair_step p e)"
proof -
  obtain a r where p: "p = (a, r)" by force
  have rep: "represents a r" using assms(1) by (simp add: p pair_inv_def)
  then have ok: "sp_acked a \<le> ack_pos a" by (auto simp: represents_def spec_ok_def)
  have "sp_acked a \<le> sp_acked (sp_step r a e) \<and> sp_confirmed a \<le> sp_confirmed (sp_step r a e)
      \<and> sp_curr a \<le> sp_curr (sp_step r a e)"
    using ok by (cases e) (auto simp: sp_ingest_def sp_store_def sp_dropreq_def sp_ackack_def sp_confirm_def sp_ack_def
        sp_poll_def sp_deliver_def sp_release_def Let_def split: option.split)
  then show ?thesis using sp_base_mono [OF rep, of e] by (simp add: advances_def p pair_step_def)
qed

text \<open>
  C20.  Acknowledgements never regress.  Along every run the last full acknowledgement stands for an
  index that only grows, never passes the first missing index, and the peer-confirmed position
  stays behind it; so the rule that would suppress a regressing acknowledgement never fires.
\<close>

theorem ack_never_regresses:
  assumes "config_ok cfg" "rcv_machine.run_ok (rcv_start t0 cfg) (es @ es')"
    and "(a, r) = foldl pair_step (rcv_start t0 cfg) es"
    and "(a', r') = foldl pair_step (a, r) es'"
  shows "rv_rcv_last_ack r = seq_of (sp_acked a) \<and> rv_rcv_last_ack r' = seq_of (sp_acked a')
    \<and> sp_acked a \<le> sp_acked a' \<and> sp_confirmed a' \<le> sp_acked a' \<and> sp_acked a' \<le> ack_pos a'
    \<and> sp_base a \<le> sp_base a'"
proof -
  have run: "rcv_machine.run_ok (rcv_start t0 cfg) es" "rcv_machine.run_ok (a, r) es'"
    using assms(2,3) by (simp_all add: rcv_machine.run_ok_append)
  have inv: "pair_inv (a, r)"
    using rcv_machine.run_inv [OF rcv_start_inv [OF assms(1)] run(1)] assms(3) by simp
  have inv': "pair_inv (a', r')" using rcv_machine.run_inv [OF inv run(2)] assms(4) by simp
  have "advances (a, r) (foldl pair_step (a, r) es')"
    by (rule rcv_machine.run_relation [where R = advances, OF step_advances _ _ inv run(2)])
      (auto simp: advances_def)
  then show ?thesis
    using inv inv' by (auto simp: advances_def pair_inv_def represents_def rep_acks_def spec_ok_def simp flip: assms(4))
qed

theorem ack_never_regresses_witness:
  "rv_rcv_last_ack (rcv_step demo_receiver (RcvTimer 20000000)) = seq_of 0x80000001
    \<and> sp_acked demo_spec \<le> 0x80000001"
proof -
  have run: "rcv_machine.run_ok (rcv_start 0 demo_rcv_config) (demo_arrivals @ [RcvTimer 20000000])"
    using demo_run_ok unfolding rcv_machine.run_ok_append
    by (simp add: demo_run pair_ok_def demo_ack_pos) (simp add: demo_spec_def)
  have "rv_next_full_ack demo_receiver \<le> 20000000"
    by (simp add: demo_receiver_def receiver_new_def FULL_ACK_INTERVAL_def from_millis_def)
  then have last: "(sp_ack demo_spec, rcv_step demo_receiver (RcvTimer 20000000)) =
      foldl pair_step (demo_spec, demo_receiver) [RcvTimer 20000000]"
    by (simp add: pair_step_def)
  from ack_never_regresses [OF demo_config_ok run demo_run [symmetric] last]
  show ?thesis by (simp add: sp_ack_def demo_ack_pos)
qed

section \<open>Loss reports\<close>

lemma nak_take_prefix: "\<exists>rest. l = nak_take n w l @ rest"
  by (induction n w l rule: nak_take.induct) (auto simp: Let_def)

lemma nak_take_words:
  "w \<le> n \<Longrightarrow> w + length (concat (map loss_words (nak_take n w l))) div 4 \<le> n"
proof (induction n w l rule: nak_take.induct)
  case (2 n w e es)
  let ?need = "if lr_first e = lr_last e then 1 else 2 :: nat"
  show ?case
  proof (cases "w + ?need > n")
    case False
    have "length (loss_words e) = 4 * ?need" by (rule length_loss_words)
    then have "length (concat (map loss_words (nak_take n w (e # es)))) div 4
        = ?need + length (concat (map loss_words (nak_take n (w + ?need) es))) div 4"
      using False by (simp add: Let_def)
    then show ?thesis using 2(1) [OF refl] False by simp
  qed (use 2 in \<open>simp add: Let_def\<close>)
qed simp

lemma nak_ranges_wf:
  assumes "represents a r" "e \<in> set (nak_ranges r)" shows "loss_range_wf e"
proof -
  have w: "rep_window a r" using assms(1) by (simp add: represents_def)
  obtain rs where rs: "rv_loss r = map wire_range rs" "ascending (sp_base a) (sp_curr a) rs" "members rs = sp_loss a"
    using rep_window_loss [OF w] .
  have "e \<in> set (rv_loss r)"
    using assms(2) nak_take_prefix [of "rv_loss r" "max (rv_max_payload r div 4) MIN_NAK_WORDS" 0]
    unfolding nak_ranges_def by (metis Un_iff set_append)
  then obtain p where p: "p \<in> set rs" "e = wire_range p" using rs(1) by auto
  have "\<bar>fst p - snd p\<bar> < 2 ^ 30" "fst p \<le> snd p"
    using ascending_entry [OF rs(2) p(1)] w by (auto simp: rep_window_def)
  then show ?thesis by (simp add: loss_range_wf_def p(2) near_cmp(1))
qed

text \<open>
  C26.  Loss reports fit their packet.  When the report timer fires with losses pending, exactly one
  report is queued; it is a non-empty prefix of the loss list in ascending order, survives encoding
  and parsing, and its control field fits the negotiated payload (or the two words one range needs).
\<close>

theorem nak_report_fits:
  assumes "represents a r" "sp_loss a \<noteq> {}" "rv_next_nak_time r \<le> now"
  shows "\<exists>rs rest. rv_control_q (nak_timer r now) = rv_control_q r @ [Nak rs] \<and> rv_loss r = rs @ rest
    \<and> rs \<noteq> [] \<and> lr_first (hd rs) = seq_of (ack_pos a)
    \<and> length (encode_loss_list rs []) \<le> max (rv_max_payload r) 8
    \<and> parse_loss_list (encode_loss_list rs []) = Ok rs"
proof -
  let ?n = "max (rv_max_payload r div 4) MIN_NAK_WORDS"
  have w: "rep_window a r" using assms(1) by (simp add: represents_def)
  obtain e es where l: "rv_loss r = e # es"
    using assms(2) rep_window_loss [OF w] by (metis list.exhaust list.simps(8) members_simps(1) map_is_Nil_conv)
  have ne: "nak_ranges r \<noteq> []" by (simp add: nak_ranges_def l Let_def MIN_NAK_WORDS_def)
  have first: "hd (nak_ranges r) = e" using ne by (auto simp: nak_ranges_def l Let_def split: if_splits)
  obtain rest where rest: "rv_loss r = nak_ranges r @ rest"
    using nak_take_prefix [of "rv_loss r"] unfolding nak_ranges_def by blast
  have "length (concat (map loss_words (nak_ranges r))) div 4 \<le> ?n"
    using nak_take_words [of 0 ?n "rv_loss r"] by (simp add: nak_ranges_def)
  then have fit: "length (concat (map loss_words (nak_ranges r))) \<le> max (rv_max_payload r) 8"
    using length_concat_loss_words [of "nak_ranges r"] by (auto simp: MIN_NAK_WORDS_def)
  have "rv_control_q (nak_timer r now) = rv_control_q r @ [Nak (nak_ranges r)]"
    using assms(3) ne by (simp add: nak_timer_def l Let_def queue_nak_def)
  moreover have "lr_first e = seq_of (ack_pos a)" using ack_value_pos [OF w] by (simp add: ack_value_def l)
  moreover have "parse_loss_list (encode_loss_list (nak_ranges r) []) = Ok (nak_ranges r)"
    using ne nak_ranges_wf [OF assms(1)] by (intro loss_list_parse_encode) auto
  ultimately show ?thesis
    using rest ne fit first by (intro exI [of _ "nak_ranges r"] exI [of _ rest]) (simp add: encode_loss_list_eq)
qed

text \<open>The state after the first two arrivals of the example: one packet is missing.\<close>

definition demo_gap :: "rcv_spec \<times> receiver" where
  "demo_gap = foldl pair_step (rcv_start 0 demo_rcv_config) (take 2 demo_arrivals)"

lemma demo_gap_represents: "represents (fst demo_gap) (snd demo_gap)"
proof -
  have "rcv_machine.run_ok (rcv_start 0 demo_rcv_config) (take 2 demo_arrivals)"
    using demo_run_ok rcv_machine.run_ok_append [of _ "take 2 demo_arrivals" "drop 2 demo_arrivals"] by simp
  from rcv_machine.run_inv [OF rcv_start_inv [OF demo_config_ok] this] show ?thesis
    by (simp add: demo_gap_def pair_inv_def)
qed

lemma demo_gap_eval:
  "sp_loss (fst demo_gap) = {0x7FFFFFFF ..< 0x80000000}" "rv_next_nak_time (snd demo_gap) = 300000000"
proof -
  have "take 2 demo_arrivals =
      [RcvData 1000000 (demo_data 0x7FFFFFFE 1000 [1]), RcvData 2000000 (demo_data 0 3000 [3])]"
    by (simp add: demo_arrivals_def)
  then show "sp_loss (fst demo_gap) = {0x7FFFFFFF ..< 0x80000000}" "rv_next_nak_time (snd demo_gap) = 300000000"
    by (simp_all add: demo_gap_def rcv_eval rcv_start_def pair_step_def spec_init_def sp_ingest_def near_def sp_store_def
        admits_def slot_of_def seq_of_def)
qed

theorem nak_report_fits_witness:
  "\<exists>rs rest. rv_control_q (nak_timer (snd demo_gap) 300000000) = rv_control_q (snd demo_gap) @ [Nak rs]
    \<and> rv_loss (snd demo_gap) = rs @ rest \<and> rs \<noteq> [] \<and> lr_first (hd rs) = seq_of (ack_pos (fst demo_gap))
    \<and> length (encode_loss_list rs []) \<le> max (rv_max_payload (snd demo_gap)) 8
    \<and> parse_loss_list (encode_loss_list rs []) = Ok rs"
  by (rule nak_report_fits [OF demo_gap_represents]) (simp_all add: demo_gap_eval)

text \<open>
  C21.  Gaps are reported at once and exactly.  Storing an admitted packet reports precisely the
  indices that become missing by its arrival, in one loss report; an undecryptable packet reports
  nothing, a packet that fills a hole leaves the list of losses without it, and a refused packet
  changes neither losses nor queue.
\<close>

theorem gap_reported_exactly:
  assumes "represents a r" "seq_ok (dp_seq pkt)"
    and i_def: "i = near a (dp_seq pkt)" and r'_def: "r' = store_data r pkt e und"
    and a'_def: "a' = sp_store a (rc_buffer_pkts (rv_cfg r)) i (slot_of pkt e und)"
  shows "represents a' r'
    \<and> rv_control_q r' = rv_control_q r @
        (if admits a (rc_buffer_pkts (rv_cfg r)) i \<and> sp_curr a + 1 < i \<and> \<not> und
         then [Nak [wire_range (sp_curr a + 1, i - 1)]] else [])
    \<and> sp_loss a' - sp_loss a =
        (if admits a (rc_buffer_pkts (rv_cfg r)) i \<and> \<not> und then {sp_curr a + 1 ..< i} else {})
    \<and> (admits a (rc_buffer_pkts (rv_cfg r)) i \<longrightarrow> i \<notin> sp_loss a')"
proof -
  have ok: "rep_window a r" "spec_ok a" using assms(1) by (auto simp: represents_def)
  have rep: "represents a' r'" unfolding a'_def r'_def i_def by (rule store_represents [OF assms(1,2)])
  have above: "x \<le> sp_curr a" if "x \<in> sp_loss a" for x using that ok(2) by (auto simp: spec_ok_def)
  show ?thesis
  proof (cases "admits a (rc_buffer_pkts (rv_cfg r)) i")
    case False
    then show ?thesis
      using rep store_data_refused(2) [OF ok(1) assms(2)] by (simp add: a'_def r'_def i_def sp_store_def)
  next
    case True
    have q: "rv_control_q r' = rv_control_q r @ gap_report (sp_curr a) i und"
      using store_data_admitted(6) [OF ok(1) assms(2)] True unfolding r'_def i_def by blast
    have loss: "sp_loss a' = (if i > sp_curr a then sp_loss a \<union> (if und then {} else {sp_curr a + 1 ..< i})
        else sp_loss a - {i})"
      using sp_store_sel(4) [OF True, of "slot_of pkt e und"] unfolding a'_def by (simp add: slot_of_def)
    have "x \<in> sp_loss a' - sp_loss a \<longleftrightarrow> x \<in> (if \<not> und then {sp_curr a + 1 ..< i} else {})" for x
      using above [of x] unfolding loss by auto
    then have "sp_loss a' - sp_loss a = (if \<not> und then {sp_curr a + 1 ..< i} else {})" by blast
    moreover have "i \<notin> sp_loss a'" using above [of i] unfolding loss by auto
    ultimately show ?thesis using rep q True by (simp add: gap_report_def)
  qed
qed

theorem gap_reported_exactly_witness:
  "rv_control_q (store_data (receiver_new 0 demo_rcv_config) (demo_data 0 3000 [3]) 3000 False)
     = [Nak [wire_range (0x7FFFFFFE, 0x7FFFFFFF)]]"
proof -
  have rep: "represents (spec_init demo_rcv_config) (receiver_new 0 demo_rcv_config)"
    using rcv_start_inv [OF demo_config_ok, of 0] by (simp add: rcv_start_def pair_inv_def)
  have seq: "seq_ok (dp_seq (demo_data 0 3000 [3]))" by (simp add: demo_data_def seq_ok_def)
  have "near (spec_init demo_rcv_config) (dp_seq (demo_data 0 3000 [3])) = 0x80000000"
    by (simp add: near_def spec_init_def demo_rcv_config_def demo_data_def seq_of_def seq_diff_def SEQ_MASK_def)
  then show ?thesis
    using gap_reported_exactly [OF rep seq refl refl refl, of 3000 False]
    by (simp add: admits_def spec_init_def demo_rcv_config_def receiver_new_def)
qed

section \<open>Round-trip estimate\<close>

text \<open>
  C39.  The smoothed round-trip time stays within the samples.  After any non-empty sequence of
  samples between \<open>lo\<close> and \<open>hi\<close> on a fresh estimator, the estimate lies between \<open>lo\<close> and \<open>hi\<close>, the
  variance is at most \<open>max (hi / 2) (hi - lo)\<close>, and no 32-bit computation wraps on the way.
\<close>

theorem rtt_estimate_bounded:
  assumes "rv_rtt_first r" "xs \<noteq> []" "\<forall>x \<in> set xs. lo \<le> unat x \<and> unat x \<le> hi"
  shows "lo \<le> unat (rv_srtt_us (foldl rtt_sample r xs)) \<and> unat (rv_srtt_us (foldl rtt_sample r xs)) \<le> hi
    \<and> unat (rv_rtt_var_us (foldl rtt_sample r xs)) \<le> max (hi div 2) (hi - lo)
    \<and> \<not> rv_rtt_first (foldl rtt_sample r xs)"
  using assms(2,3)
proof (induction xs rule: rev_induct)
  case (snoc x xs)
  show ?case
  proof (cases "xs = []")
    case True
    then show ?thesis using snoc.prems assms(1) by (auto simp: rtt_sample_def unat_div le_max_iff_disj div_le_mono)
  next
    case False
    define r' where "r' = foldl rtt_sample r xs"
    define s v where "s = unat (rv_srtt_us r')" and "v = unat (rv_rtt_var_us r')"
    have IH: "lo \<le> s" "s \<le> hi" "v \<le> max (hi div 2) (hi - lo)" "\<not> rv_rtt_first r'"
      using snoc.IH [OF False] snoc.prems by (auto simp: r'_def s_def v_def)
    have x: "lo \<le> unat x" "unat x \<le> hi" using snoc.prems by auto
    define err where "err = (if s \<ge> unat x then s - unat x else unat x - s)"
    have small: "unat x < 2 ^ 32" "s < 2 ^ 32" "v < 2 ^ 32"
      using unsigned_less [of x] unsigned_less [of "rv_srtt_us r'"] unsigned_less [of "rv_rtt_var_us r'"]
      by (simp_all add: s_def v_def)
    have "err \<le> hi - lo" using IH(1,2) x by (auto simp: err_def)
    then have var: "(3 * v + err) div 4 \<le> max (hi div 2) (hi - lo)" using IH(3) by linarith
    have "err < 2 ^ 32" using small by (auto simp: err_def)
    then have nowrap: "(3 * v + err) div 4 < 2 ^ 32" "(7 * s + unat x) div 8 < 2 ^ 32" using small by auto
    have r'': "rtt_sample r' x = r'\<lparr> rv_rtt_var_us := of_nat ((3 * v + err) div 4),
        rv_srtt_us := of_nat ((7 * s + unat x) div 8) \<rparr>"
      using IH(4) unfolding rtt_sample_def s_def v_def err_def Let_def by simp
    have "unat (rv_srtt_us (rtt_sample r' x)) = (7 * s + unat x) div 8"
      "unat (rv_rtt_var_us (rtt_sample r' x)) = (3 * v + err) div 4" "\<not> rv_rtt_first (rtt_sample r' x)"
      using IH(4) nowrap by (simp_all add: r'' unat_of_nat)
    moreover have "lo \<le> (7 * s + unat x) div 8" "(7 * s + unat x) div 8 \<le> hi" using IH(1,2) x by linarith+
    ultimately show ?thesis using var by (simp add: flip: r'_def)
  qed
qed simp

theorem rtt_estimate_bounded_witness:
  "100 \<le> unat (rv_srtt_us (foldl rtt_sample (receiver_new 0 demo_rcv_config) [100, 200, 150]))
    \<and> unat (rv_srtt_us (foldl rtt_sample (receiver_new 0 demo_rcv_config) [100, 200, 150])) \<le> 200"
  using rtt_estimate_bounded [of "receiver_new 0 demo_rcv_config" "[100, 200, 150]" 100 200]
  by (simp add: receiver_new_def)

end
