(* ===== verification/Receiver_Journal.thy ===== *)
theory Receiver_Journal
  imports Receiver_Delivery
begin

text \<open>
  The acknowledgement journal: acknowledgement numbers are consecutive modulo \<open>2 ^ 31\<close>, the journal
  keeps the last 1024 of them, and an ACKACK is matched to the very acknowledgement it answers.
\<close>

section \<open>Journal invariant\<close>

text \<open>The number \<open>k\<close> steps after \<open>n\<close> in the 31-bit counter.\<close>

definition ack_no :: "nat \<Rightarrow> u32" where
  "ack_no k = of_nat (k mod 2 ^ 31)"

lemma unat_ack_no: "unat (ack_no k) = k mod 2 ^ 31"
  by (simp add: ack_no_def unat_of_nat mod_mod_cancel)

lemma incack_ack_no: "incack (ack_no k) = ack_no (k + 1)"
proof (cases "k mod 2 ^ 31 = 2 ^ 31 - 1")
  case True
  then have "ack_no k = 0x7FFFFFFF" by (simp add: ack_no_def)
  moreover have "(k + 1) mod 2 ^ 31 = 0" using True by (simp add: mod_Suc)
  ultimately show ?thesis by (simp add: incack_def ack_no_def)
next
  case False
  have lt: "k mod 2 ^ 31 < 2 ^ 31" by simp
  have "ack_no k \<noteq> 0x7FFFFFFF"
  proof
    assume "ack_no k = 0x7FFFFFFF"
    then have "unat (ack_no k) = unat (0x7FFFFFFF :: u32)" by (rule arg_cong)
    then show False using False by (simp add: unat_ack_no)
  qed
  moreover have "(k + 1) mod 2 ^ 31 = k mod 2 ^ 31 + 1" using False lt by (simp add: mod_Suc)
  ultimately show ?thesis by (simp add: incack_def ack_no_def)
qed

lemma ack_no_inj: "i \<le> j \<Longrightarrow> j - i < 2 ^ 31 \<Longrightarrow> ack_no i = ack_no j \<longleftrightarrow> i = j"
proof
  assume "i \<le> j" "j - i < 2 ^ 31" "ack_no i = ack_no j"
  then have "unat (ack_no i) = unat (ack_no j)" by simp
  then have "i mod 2 ^ 31 = j mod 2 ^ 31" by (simp only: unat_ack_no)
  then have "(j - i) mod 2 ^ 31 = 0" using \<open>i \<le> j\<close> by (metis mod_eq_dvd_iff_nat dvd_imp_mod_0)
  then show "i = j" using \<open>i \<le> j\<close> \<open>j - i < 2 ^ 31\<close> by simp
qed simp

definition journal_ok :: "nat \<Rightarrow> receiver \<Rightarrow> bool" where
  "journal_ok k r \<longleftrightarrow>
     rv_ack_seq_no r = ack_no k \<and> length (rv_ack_journal r) \<le> ACK_HISTORY \<and> length (rv_ack_journal r) \<le> k
     \<and> map ar_number (rv_ack_journal r) = map ack_no [Suc k - length (rv_ack_journal r) ..< Suc k]"

lemma journal_ok_cong:
  "journal_ok k r \<Longrightarrow> rv_ack_seq_no r' = rv_ack_seq_no r \<Longrightarrow> rv_ack_journal r' = rv_ack_journal r \<Longrightarrow> journal_ok k r'"
  by (simp add: journal_ok_def)

lemma numbers_drop:
  assumes "map ar_number js = map ack_no [Suc k - length js ..< Suc k]" "length js \<le> k"
  shows "map ar_number (drop n js) = map ack_no [Suc k - length (drop n js) ..< Suc k]"
proof -
  have "map ar_number (drop n js) = map ack_no (drop n [Suc k - length js ..< Suc k])"
    using assms(1) by (metis drop_map)
  also have "drop n [Suc k - length js ..< Suc k] = [Suc k - length js + n ..< Suc k]" by (rule drop_upt)
  also have "\<dots> = [Suc k - length (drop n js) ..< Suc k]"
    using assms(2) by (cases "n \<le> length js") (auto simp del: upt_Suc)
  finally show ?thesis .
qed

lemma emit_full_ack_journal:
  assumes "journal_ok k r" shows "journal_ok (k + 1) (emit_full_ack r now)"
proof -
  define js where "js = rv_ack_journal r"
  define js' where "js' = drop (if length js = ACK_HISTORY then 1 else 0) js"
  have j: "length js \<le> ACK_HISTORY" "length js \<le> k" "map ar_number js = map ack_no [Suc k - length js ..< Suc k]"
    using assms by (auto simp: journal_ok_def js_def)
  have len: "length js' < ACK_HISTORY" "length js' \<le> k" using j by (auto simp: js'_def ACK_HISTORY_def)
  have "map ar_number js' = map ack_no [Suc k - length js' ..< Suc k]"
    unfolding js'_def by (rule numbers_drop [OF j(3,2)])
  moreover have "rv_ack_seq_no (emit_full_ack r now) = ack_no (k + 1)"
    "rv_ack_journal (emit_full_ack r now) = js' @ [\<lparr> ar_number = ack_no (k + 1), ar_seq = rv_rcv_last_ack r, ar_sent = now \<rparr>]"
    using assms incack_ack_no [of k]
    by (simp_all add: emit_full_ack_def Let_def journal_ok_def js'_def js_def drop_Suc)
  ultimately show ?thesis
    using len unfolding journal_ok_def by (simp add: Suc_diff_le del: upt_Suc) (simp add: upt_Suc)
qed

lemma queue_full_ack_journal:
  assumes "journal_ok k r" shows "\<exists>k'. journal_ok k' (queue_full_ack r now)"
proof -
  have "journal_ok k (r\<lparr> rv_rcv_last_ack := s \<rparr>)" for s using assms by (auto intro: journal_ok_cong)
  then show ?thesis
    using assms emit_full_ack_journal unfolding queue_full_ack_def Let_def by (simp split: if_split) blast
qed

lemma handle_ackack_journal:
  assumes "journal_ok k r" shows "journal_ok k (handle_ackack r now n ts)"
proof -
  have "\<exists>m. rv_ack_journal (handle_ackack r now n ts) = drop m (rv_ack_journal r)"
    by (cases "journal_pos n (rv_ack_journal r) \<ge> length (rv_ack_journal r)")
      (auto simp: handle_ackack_def Let_def intro: exI [of _ 0])
  moreover have "rv_ack_seq_no (handle_ackack r now n ts) = rv_ack_seq_no r"
    by (simp add: handle_ackack_def Let_def feed_drift_def confirm_ackack_def rtt_sample_def split: option.split prod.split)
  ultimately show ?thesis using assms numbers_drop by (auto simp: journal_ok_def simp del: upt_Suc)
qed

lemma store_data_ack_no [simp]:
  "rv_ack_seq_no (detect_gap r s und) = rv_ack_seq_no r" "rv_ack_seq_no (track_curr r s) = rv_ack_seq_no r"
  "rv_ack_seq_no (store_data r pkt e und) = rv_ack_seq_no r"
  by (simp_all add: detect_gap_def track_curr_def store_data_def queue_nak_def bump_belated_def Let_def)

lemma journal_frame:
  "rv_ack_seq_no (ingest r now pkt und) = rv_ack_seq_no r" "rv_ack_journal (ingest r now pkt und) = rv_ack_journal r"
  "rv_ack_seq_no (handle_dropreq r m f l) = rv_ack_seq_no r"
  "rv_ack_seq_no (nak_timer r now) = rv_ack_seq_no r" "rv_ack_journal (nak_timer r now) = rv_ack_journal r"
  "rv_ack_seq_no (fst (receiver_poll_control r)) = rv_ack_seq_no r"
  "rv_ack_journal (fst (receiver_poll_control r)) = rv_ack_journal r"
  "rv_ack_seq_no (set_hs_anchor r at ts) = rv_ack_seq_no r" "rv_ack_journal (set_hs_anchor r at ts) = rv_ack_journal r"
  "rv_ack_seq_no (set_max_payload r n) = rv_ack_seq_no r" "rv_ack_journal (set_max_payload r n) = rv_ack_journal r"
  by (simp_all add: ingest_def queue_nak_def queue_light_ack_def count_recv_def handle_dropreq_def nak_timer_def
      receiver_poll_control_def set_hs_anchor_def set_max_payload_def Let_def split: prod.split list.split)

lemma deliver_loop_ack_no:
  assumes "deliver_loop r an now = (Ok (r', out) :: (_, 'e) outcome)"
  shows "rv_ack_seq_no r' = rv_ack_seq_no r"
  using assms
proof (induction "length (rv_slots r)" arbitrary: r rule: less_induct)
  case less
  have keep: "rv_ack_seq_no (pop_slot (skip_hole r n)) = rv_ack_seq_no r" for r n
    by (simp add: pop_slot_def skip_hole_def)
  have shrink: "length (rv_slots (pop_slot (skip_hole r n))) < length (rv_slots r)"
    if "rv_slots (skip_hole r n) = x # xs" for r n x xs
    using that by (auto simp: pop_slot_def skip_hole_def dest: drop_eq_Cons_length split: if_splits)
  from less.prems show ?case
    by (subst (asm) deliver_loop.simps)
      (auto simp: Let_def keep dest!: less.hyps [rotated] shrink split: option.splits if_splits list.splits)
qed

definition journal_inv :: "receiver \<Rightarrow> bool" where
  "journal_inv r \<longleftrightarrow> (\<exists>k. journal_ok k r)"

lemma rcv_step_journal:
  assumes "journal_inv r" shows "journal_inv (rcv_step r e)"
proof -
  obtain k where k: "journal_ok k r" using assms by (auto simp: journal_inv_def)
  have "\<exists>k'. journal_ok k' (rcv_step r e)"
  proof (cases e)
    case (RcvAckAck now n ts)
    then show ?thesis using handle_ackack_journal [OF k] by auto
  next
    case (RcvTimer now)
    obtain k' where "journal_ok k' (queue_full_ack r now)" using queue_full_ack_journal [OF k] by blast
    then have "journal_ok k (ack_timer r now) \<or> journal_ok k' (ack_timer r now)"
      using k by (auto simp: ack_timer_def intro: journal_ok_cong)
    then show ?thesis
      using RcvTimer journal_ok_cong [of _ "ack_timer r now" "nak_timer (ack_timer r now) now"]
      by (auto simp: receiver_on_timer_def journal_frame)
  next
    case (RcvPollDeliver now)
    have "journal_ok k r'" if "poll_deliver r now = (Ok (r', out) :: (_, unit) outcome)" for r' out
      using that k deliver_loop_frame [where 'e = unit] deliver_loop_ack_no [where 'e = unit]
      by (auto simp: poll_deliver_def split: option.splits intro: journal_ok_cong)
    then show ?thesis using RcvPollDeliver k by (auto split: outcome.split prod.split)
  qed (use k in \<open>auto simp: journal_frame handle_data_def handle_undecryptable_def intro!: exI [of _ k]
      elim!: journal_ok_cong\<close>)
  then show ?thesis by (simp add: journal_inv_def)
qed

interpretation journal: inv_machine rcv_step "\<lambda>_ _. True" journal_inv
  by unfold_locales (rule rcv_step_journal)

lemma journal_run_ok: "journal.run_ok r es"
  by (induction es arbitrary: r) simp_all

lemma receiver_new_journal: "journal_inv (receiver_new t0 cfg)"
  unfolding journal_inv_def
  by (rule exI [of _ 0]) (simp add: journal_ok_def receiver_new_def ack_no_def)

lemma journal_distinct:
  assumes "journal_ok k r" shows "distinct (map ar_number (rv_ack_journal r))"
proof -
  let ?n = "length (rv_ack_journal r)"
  have n: "?n \<le> 1024" "?n \<le> k" using assms by (auto simp: journal_ok_def ACK_HISTORY_def)
  have "inj_on ack_no (set [Suc k - ?n ..< Suc k])"
  proof (rule linorder_inj_onI)
    fix i j assume "i < j" "i \<in> set [Suc k - ?n ..< Suc k]" "j \<in> set [Suc k - ?n ..< Suc k]"
    then have "i \<le> j" "j - i < 2 ^ 31" "i \<noteq> j" using n by (simp_all del: upt_Suc)
    then show "ack_no i \<noteq> ack_no j" using ack_no_inj by blast
  qed auto
  then show ?thesis using assms by (simp add: journal_ok_def distinct_map del: upt_Suc)
qed

lemma journal_pos_split:
  assumes "distinct (map ar_number (xs @ j # ys))" shows "journal_pos (ar_number j) (xs @ j # ys) = length xs"
proof -
  have "ar_number j \<notin> ar_number ` set xs" using assms by simp
  then have "\<forall>x \<in> set xs. ar_number x \<noteq> ar_number j" by (metis imageI)
  then show ?thesis by (simp add: journal_pos_def takeWhile_append2)
qed

text \<open>
  C31.  An ACKACK is matched to the acknowledgement it answers.  In every run, whatever the peer
  sends, the journal holds at most 1024 acknowledgements with distinct numbers; the ACKACK of any of
  them yields the time since exactly that acknowledgement was sent as the round-trip sample, and
  consumes it together with everything older.
\<close>

theorem ackack_matches:
  assumes "r = foldl rcv_step (receiver_new t0 cfg) es" and "rv_ack_journal r = older @ j # newer"
    and "sample = (of_nat (min (as_micros (now - ar_sent j)) (2 ^ 32 - 1)) :: u32)"
  shows "length (rv_ack_journal r) \<le> 1024 \<and> distinct (map ar_number (rv_ack_journal r))
    \<and> rv_ack_journal (handle_ackack r now (ar_number j) ts) = newer
    \<and> rv_srtt_us (handle_ackack r now (ar_number j) ts) =
        (if sample = 0 then rv_srtt_us r else rv_srtt_us (rtt_sample r sample))"
proof -
  have "journal_inv r" using journal.run_inv [OF receiver_new_journal journal_run_ok] assms(1) by simp
  then obtain k where k: "journal_ok k r" by (auto simp: journal_inv_def)
  have d: "distinct (map ar_number (rv_ack_journal r))" by (rule journal_distinct [OF k])
  then have pos: "journal_pos (ar_number j) (rv_ack_journal r) = length older"
    using journal_pos_split unfolding assms(2) by blast
  have "rv_srtt_us (rtt_sample (r\<lparr> rv_ack_journal := newer \<rparr>) t) = rv_srtt_us (rtt_sample r t)" for t
    by (simp add: rtt_sample_def Let_def)
  moreover have "rv_srtt_us (feed_drift r now t ts) = rv_srtt_us r" "rv_srtt_us (confirm_ackack r s) = rv_srtt_us r" for r t s
    by (simp_all add: feed_drift_def confirm_ackack_def Let_def split: option.split prod.split)
  ultimately have "rv_ack_journal (handle_ackack r now (ar_number j) ts) = newer
      \<and> rv_srtt_us (handle_ackack r now (ar_number j) ts) =
        (if sample = 0 then rv_srtt_us r else rv_srtt_us (rtt_sample r sample))"
    unfolding handle_ackack_def Let_def pos by (simp add: assms(2,3) nth_append)
  then show ?thesis using k d by (simp add: journal_ok_def ACK_HISTORY_def)
qed

theorem ackack_matches_witness:
  "rv_ack_journal (handle_ackack (rcv_step demo_receiver (RcvTimer 20000000)) 50000000 1 (Timestamp 0)) = []
    \<and> rv_srtt_us (handle_ackack (rcv_step demo_receiver (RcvTimer 20000000)) 50000000 1 (Timestamp 0)) = 30000"
proof -
  let ?r = "rcv_step demo_receiver (RcvTimer 20000000)"
  have run: "?r = foldl rcv_step (receiver_new 0 demo_rcv_config) (demo_arrivals @ [RcvTimer 20000000])"
    by (simp add: demo_receiver_run)
  have j: "rv_ack_journal ?r = [] @ \<lparr> ar_number = 1, ar_seq = SeqNumber 1, ar_sent = 20000000 \<rparr> # []"
    and first: "rv_rtt_first ?r"
    by (simp_all add: rcv_eval demo_receiver_def receiver_on_timer_def ack_timer_def nak_timer_def queue_full_ack_def
        ack_value_def emit_full_ack_def avail_buf_pkts_def incack_def ACK_HISTORY_def MIN_AVAIL_BUF_def)
  show ?thesis
    using ackack_matches [OF run j refl, of 50000000 "Timestamp 0"] first
    by (simp add: as_micros_def rtt_sample_def)
qed

end
