(* ===== verification/Handshake.thy ===== *)
theory Handshake
  imports Packet_Codec Time_Base Srt_Options Crypto_Engine
begin

text \<open>
  The HSv5 handshake (\<open>src/core/handshake.rs\<close>): the caller's state machine and the stateless
  listener, with latency, MSS and key negotiation.

  Addresses are IPv4 octets and a port.  The keyed digest behind the SYN cookie is the standard
  library's \<open>DefaultHasher\<close>, whose algorithm is left open there: it is the parameter \<open>hsh\<close> of the
  definitions that use it.  \<open>expect\<close> and \<open>unreachable!\<close> are \<open>Panic\<close>.  Branches that only log have
  no counterpart, and the listener's argument \<open>new_initial_seq\<close>, which the code ignores, is left out.
\<close>

section \<open>Constants and data\<close>

definition REJ_PEER :: u32 where "REJ_PEER = 1002"
definition REJ_ROGUE :: u32 where "REJ_ROGUE = 1004"
definition REJ_VERSION :: u32 where "REJ_VERSION = 1008"
definition REJ_BADSECRET :: u32 where "REJ_BADSECRET = 1010"
definition REJ_UNSECURE :: u32 where "REJ_UNSECURE = 1011"
definition REJ_MESSAGEAPI :: u32 where "REJ_MESSAGEAPI = 1012"
definition REJ_CONGESTION :: u32 where "REJ_CONGESTION = 1013"
definition REJ_FILTER :: u32 where "REJ_FILTER = 1014"

lemmas rej_defs = REJ_PEER_def REJ_ROGUE_def REJ_VERSION_def REJ_BADSECRET_def REJ_UNSECURE_def
  REJ_MESSAGEAPI_def REJ_CONGESTION_def REJ_FILTER_def

definition HS_RETRY_INTERVAL :: duration where "HS_RETRY_INTERVAL = from_millis 250"
definition HS_VERSION_UDT4 :: u32 where "HS_VERSION_UDT4 = 4"
definition HS_VERSION_SRT1 :: u32 where "HS_VERSION_SRT1 = 5"
definition SRT_VERSION_FEAT_HSV5 :: u32 where "SRT_VERSION_FEAT_HSV5 = 0x00010300"
definition UDT_DGRAM :: u16 where "UDT_DGRAM = 2"

type_synonym octets = "u8 \<times> u8 \<times> u8 \<times> u8"

record socket_addr =
  sa_ip :: octets
  sa_port :: u16

type_synonym hasher = "u64 \<Rightarrow> octets \<Rightarrow> u16 \<Rightarrow> nat \<Rightarrow> u64"

record negotiated =
  ng_remote :: socket_addr
  ng_local_socket_id :: socket_id
  ng_peer_socket_id :: socket_id
  ng_send_initial_seq :: seq_number
  ng_recv_initial_seq :: seq_number
  ng_snd_latency :: duration
  ng_rcv_latency :: duration
  ng_streamid :: "bytes option"
  ng_mss :: u32
  ng_flow_window :: u32
  ng_crypto :: "crypto option"

definition peer_ip_of :: "socket_addr \<Rightarrow> bytes" where
  "peer_ip_of a = (case sa_ip a of (i, j, k, l) \<Rightarrow> encode_peer_ip i j k l)"

section \<open>Helpers\<close>

definition cif_valid :: "handshake_cif \<Rightarrow> bool" where
  "cif_valid cif \<longleftrightarrow> hc_version cif \<ge> HS_VERSION_UDT4 \<and> hc_mss cif \<ge> 32 \<and> hc_flow_window cif \<ge> 2"

definition reject_error :: "u32 \<Rightarrow> bool \<Rightarrow> srt_error" where
  "reject_error code encrypting =
     (if code = REJ_UNSECURE \<and> \<not> encrypting then EncryptionUnsupported else Rejected code)"

fun pbkeylen_bits :: "key_length \<Rightarrow> u16" where
  "pbkeylen_bits Aes128 = 2"
| "pbkeylen_bits Aes192 = 3"
| "pbkeylen_bits Aes256 = 4"

definition pbkeylen_from_bits :: "u16 \<Rightarrow> key_length option" where
  "pbkeylen_from_bits bits =
     (if bits = 2 then Some Aes128 else if bits = 3 then Some Aes192
      else if bits = 4 then Some Aes256 else None)"

definition adopt_peer_pbkeylen :: "crypto_config \<Rightarrow> u16 \<Rightarrow> crypto_config" where
  "adopt_peer_pbkeylen cfg advert =
     (case pbkeylen_from_bits advert of
        Some peer \<Rightarrow> if peer \<noteq> cc_key_len cfg then cfg\<lparr> cc_key_len := peer \<rparr> else cfg
      | None \<Rightarrow> cfg)"

definition advert_of :: "srt_options \<Rightarrow> u16" where
  "advert_of opts = (case op_pbkeylen opts of None \<Rightarrow> 0 | Some l \<Rightarrow> pbkeylen_bits l)"

definition ms_u16 :: "duration \<Rightarrow> u16" where
  "ms_u16 d = of_nat (min (as_millis d) 65535)"

definition ms_dur :: "u16 \<Rightarrow> duration" where
  "ms_dur ms = from_millis (unat ms)"

fun ext_kmreq :: "hs_extension \<Rightarrow> bytes option" where
  "ext_kmreq (ExtKmReq data) = Some data"
| "ext_kmreq _ = None"

fun ext_kmrsp :: "hs_extension \<Rightarrow> bytes option" where
  "ext_kmrsp (ExtKmRsp data) = Some data"
| "ext_kmrsp _ = None"

fun ext_hsrsp :: "hs_extension \<Rightarrow> hs_ext_fields option" where
  "ext_hsrsp (HsRsp f) = Some f"
| "ext_hsrsp _ = None"

fun is_hs_block :: "hs_extension \<Rightarrow> bool" where
  "is_hs_block (HsReq _) = True"
| "is_hs_block (HsRsp _) = True"
| "is_hs_block _ = False"

fun is_km_block :: "hs_extension \<Rightarrow> bool" where
  "is_km_block (ExtKmReq _) = True"
| "is_km_block (ExtKmRsp _) = True"
| "is_km_block _ = False"

section \<open>The caller\<close>

datatype caller_state = CsInduction | CsConclusion u32 | CsEstablished | CsFailed

record caller_handshake =
  ch_remote :: socket_addr
  ch_local_socket_id :: socket_id
  ch_initial_seq :: seq_number
  ch_timebase :: timebase
  ch_opts :: srt_options
  ch_state :: caller_state
  ch_next_send :: instant
  ch_deadline :: instant
  ch_crypto_cfg :: "crypto_config option"
  ch_crypto :: "crypto option"
  ch_enc_advert :: u16

type_synonym caller_result = "caller_handshake \<times> (negotiated option, srt_error) outcome"

definition caller_new ::
  "instant \<Rightarrow> socket_addr \<Rightarrow> socket_id \<Rightarrow> seq_number \<Rightarrow> timebase \<Rightarrow> srt_options \<Rightarrow> caller_handshake" where
  "caller_new now remote local_id isn tb opts =
     (let (cfg, st) = (case crypto_config_of opts of Ok cfg \<Rightarrow> (cfg, CsInduction) | _ \<Rightarrow> (None, CsFailed)) in
      \<lparr> ch_remote = remote, ch_local_socket_id = local_id, ch_initial_seq = isn, ch_timebase = tb, ch_opts = opts,
        ch_state = st, ch_next_send = now, ch_deadline = now + op_connect_timeout opts,
        ch_crypto_cfg = cfg, ch_crypto = None, ch_enc_advert = 0 \<rparr>)"

definition caller_fail :: "caller_handshake \<Rightarrow> srt_error \<Rightarrow> caller_result" where
  "caller_fail c err = (c\<lparr> ch_state := CsFailed \<rparr>, Err err)"

definition adopt_option :: "srt_options \<Rightarrow> u16 \<Rightarrow> srt_options" where
  "adopt_option opts advert =
     (case pbkeylen_from_bits advert of Some peer \<Rightarrow> opts\<lparr> op_pbkeylen := Some peer \<rparr> | None \<Rightarrow> opts)"

definition on_induction_response ::
  "crypto_prims \<Rightarrow> bytes \<Rightarrow> bytes \<Rightarrow> caller_handshake \<Rightarrow> instant \<Rightarrow> handshake_cif \<Rightarrow> caller_result" where
  "on_induction_response cp rnd_salt rnd_key c now cif =
     (if hc_handshake_type cif \<noteq> Induction then (c, Ok None)
      else if hc_version cif \<le> HS_VERSION_UDT4 then caller_fail c (Rejected REJ_VERSION)
      else
        let cfg = map_option (\<lambda>cfg. adopt_peer_pbkeylen cfg (hc_encryption cif)) (ch_crypto_cfg c);
            opts = adopt_option (ch_opts c) (hc_encryption cif);
            engine = (case cfg of
                        None \<Rightarrow> Ok None
                      | Some cf \<Rightarrow> bind_outcome (new_initiator cp rnd_salt rnd_key cf) (\<lambda>e. Ok (Some e)))
                     :: (crypto option, srt_error) outcome;
            c1 = c\<lparr> ch_crypto_cfg := None, ch_opts := opts, ch_enc_advert := advert_of opts \<rparr> in
        (case engine of
           Ok e \<Rightarrow> (c1\<lparr> ch_crypto := e, ch_state := CsConclusion (hc_cookie cif), ch_next_send := now \<rparr>, Ok None)
         | _ \<Rightarrow> (c1, Panic)))"

text \<open>The key-exchange verdict on a response: the engine afterwards, or the error to fail with.\<close>

definition judge_kmx :: "caller_handshake \<Rightarrow> handshake_cif \<Rightarrow> crypto option \<times> srt_error option" where
  "judge_kmx c cif =
     (case ch_crypto c of
        Some e \<Rightarrow>
          (case find_map ext_kmrsp (hc_extensions cif) of
             None \<Rightarrow> (Some e, Some (Rejected REJ_UNSECURE))
           | Some payload \<Rightarrow>
               let (e', res) = handle_kmrsp e payload in
               (Some e', if res = Confirmed \<or> res = RspFailed KmUnsecured then None
                         else Some (Rejected REJ_UNSECURE)))
      | None \<Rightarrow>
          (None, if list_ex is_km_block (hc_extensions cif) then Some EncryptionUnsupported else None))"

definition on_conclusion_response :: "caller_handshake \<Rightarrow> handshake_cif \<Rightarrow> caller_result" where
  "on_conclusion_response c cif =
     (if hc_handshake_type cif \<noteq> Conclusion then (c, Ok None)
      else if hc_version cif = 0 then caller_fail c (Rejected REJ_PEER)
      else if hc_version cif \<le> HS_VERSION_UDT4 then caller_fail c (Rejected REJ_VERSION)
      else if \<not> cif_valid cif then caller_fail c (Rejected REJ_ROGUE)
      else if hc_initial_seq cif \<noteq> ch_initial_seq c then caller_fail c (Rejected REJ_ROGUE)
      else if hc_extension_field cif AND HS_EXT_HSREQ = 0 then caller_fail c (Rejected REJ_ROGUE)
      else
        (case find_map ext_hsrsp (hc_extensions cif) of
           None \<Rightarrow> caller_fail c (Rejected REJ_ROGUE)
         | Some hs \<Rightarrow>
             if he_srt_version hs < SRT_VERSION_FEAT_HSV5 then caller_fail c (Rejected REJ_ROGUE)
             else if flags_contains (he_flags hs) FLAG_STREAM then caller_fail c (Rejected REJ_MESSAGEAPI)
             else
               let (e, verdict) = judge_kmx c cif in
               (case verdict of
                  Some err \<Rightarrow> caller_fail (c\<lparr> ch_crypto := e \<rparr>) err
                | None \<Rightarrow>
                    (c\<lparr> ch_crypto := None, ch_state := CsEstablished \<rparr>,
                     Ok (Some \<lparr> ng_remote = ch_remote c, ng_local_socket_id = ch_local_socket_id c,
                                ng_peer_socket_id = hc_socket_id cif,
                                ng_send_initial_seq = ch_initial_seq c, ng_recv_initial_seq = ch_initial_seq c,
                                ng_snd_latency = ms_dur (he_recv_latency_ms hs),
                                ng_rcv_latency = ms_dur (he_send_latency_ms hs),
                                ng_streamid = op_streamid (ch_opts c), ng_mss = hc_mss cif,
                                ng_flow_window = hc_flow_window cif, ng_crypto = e \<rparr>)))))"

definition caller_handle_handshake ::
  "crypto_prims \<Rightarrow> bytes \<Rightarrow> bytes \<Rightarrow> caller_handshake \<Rightarrow> instant \<Rightarrow> handshake_cif \<Rightarrow> caller_result" where
  "caller_handle_handshake cp rnd_salt rnd_key c now cif =
     (if ch_state c = CsEstablished \<or> ch_state c = CsFailed then (c, Ok None)
      else
        case hc_handshake_type cif of
          Rejection code \<Rightarrow>
            caller_fail c (reject_error code (ch_crypto c \<noteq> None \<or> ch_crypto_cfg c \<noteq> None))
        | _ \<Rightarrow>
            (case ch_state c of
               CsInduction \<Rightarrow> on_induction_response cp rnd_salt rnd_key c now cif
             | CsConclusion _ \<Rightarrow> on_conclusion_response c cif
             | _ \<Rightarrow> (c, Panic)))"

definition waiting_reply :: "caller_handshake \<Rightarrow> bool" where
  "waiting_reply c = (case ch_state c of CsInduction \<Rightarrow> True | CsConclusion _ \<Rightarrow> True | _ \<Rightarrow> False)"

definition caller_is_timed_out :: "caller_handshake \<Rightarrow> instant \<Rightarrow> bool" where
  "caller_is_timed_out c now \<longleftrightarrow> waiting_reply c \<and> now \<ge> ch_deadline c"

definition induction_cif :: "caller_handshake \<Rightarrow> handshake_cif" where
  "induction_cif c =
     \<lparr> hc_version = HS_VERSION_UDT4, hc_encryption = 0, hc_extension_field = UDT_DGRAM,
       hc_initial_seq = ch_initial_seq c, hc_mss = op_mss (ch_opts c), hc_flow_window = op_flow_window (ch_opts c),
       hc_handshake_type = Induction, hc_socket_id = ch_local_socket_id c, hc_cookie = 0,
       hc_peer_ip = peer_ip_of (ch_remote c), hc_extensions = [] \<rparr>"

definition sid_blocks :: "srt_options \<Rightarrow> hs_extension list" where
  "sid_blocks opts =
     (case op_streamid opts of
        Some s \<Rightarrow> if s \<noteq> [] \<and> length s \<le> 512 then [StreamId s] else []
      | None \<Rightarrow> [])"

definition km_blocks :: "crypto option \<Rightarrow> hs_extension list" where
  "km_blocks e = (case Option.bind e kmreq of Some blob \<Rightarrow> [ExtKmReq blob] | None \<Rightarrow> [])"

definition conclusion_cif :: "caller_handshake \<Rightarrow> u32 \<Rightarrow> handshake_cif" where
  "conclusion_cif c cookie =
     (let hsreq = HsReq \<lparr> he_srt_version = SRT_VERSION, he_flags = live_defaults,
                          he_recv_latency_ms = ms_u16 (op_latency (ch_opts c)),
                          he_send_latency_ms = ms_u16 (op_peer_latency (ch_opts c)) \<rparr>;
          field = HS_EXT_HSREQ
                  OR (if sid_blocks (ch_opts c) \<noteq> [] then HS_EXT_CONFIG else 0)
                  OR (if km_blocks (ch_crypto c) \<noteq> [] then HS_EXT_KMREQ else 0) in
      (induction_cif c)\<lparr> hc_version := HS_VERSION_SRT1, hc_encryption := ch_enc_advert c,
        hc_extension_field := field, hc_handshake_type := Conclusion, hc_cookie := cookie,
        hc_extensions := hsreq # sid_blocks (ch_opts c) @ km_blocks (ch_crypto c) \<rparr>)"

definition caller_packet :: "caller_handshake \<Rightarrow> instant \<Rightarrow> handshake_cif \<Rightarrow> packet" where
  "caller_packet c now cif =
     Control \<lparr> cp_timestamp = timebase_timestamp (ch_timebase c) now, cp_dst_socket_id = SID_HANDSHAKE,
               cp_control_type = Handshake cif \<rparr>"

definition caller_poll_transmit :: "caller_handshake \<Rightarrow> instant \<Rightarrow> caller_handshake \<times> packet option" where
  "caller_poll_transmit c now =
     (if \<not> waiting_reply c \<or> caller_is_timed_out c now \<or> now < ch_next_send c then (c, None)
      else
        let c1 = c\<lparr> ch_next_send := now + HS_RETRY_INTERVAL \<rparr>;
            cif = (case ch_state c1 of CsConclusion cookie \<Rightarrow> conclusion_cif c1 cookie | _ \<Rightarrow> induction_cif c1) in
        (c1, Some (caller_packet c1 now cif)))"

definition caller_next_deadline :: "caller_handshake \<Rightarrow> instant option" where
  "caller_next_deadline c = (if waiting_reply c then Some (min (ch_next_send c) (ch_deadline c)) else None)"

section \<open>The listener\<close>

record listener =
  ls_secret :: u64
  ls_timebase :: timebase
  ls_opts :: srt_options
  ls_crypto_cfg :: "(crypto_config option, unit) outcome"

datatype listener_action = ActReply packet | ActAccept packet negotiated | ActDrop

definition listener_new :: "u64 \<Rightarrow> timebase \<Rightarrow> srt_options \<Rightarrow> listener" where
  "listener_new secret tb opts =
     \<lparr> ls_secret = secret, ls_timebase = tb, ls_opts = opts,
       ls_crypto_cfg = (case crypto_config_of opts of Ok cfg \<Rightarrow> Ok cfg | Err _ \<Rightarrow> Err () | Panic \<Rightarrow> Panic) \<rparr>"

definition cookie_minute :: "listener \<Rightarrow> instant \<Rightarrow> nat" where
  "cookie_minute l now = since now (tb_start (ls_timebase l)) div from_secs 1 div 60"

definition cookie_at :: "hasher \<Rightarrow> listener \<Rightarrow> nat \<Rightarrow> socket_addr \<Rightarrow> u32" where
  "cookie_at hsh l minute from =
     (let digest = hsh (ls_secret l) (sa_ip from) (sa_port from) minute
      in ucast (digest XOR drop_bit 32 digest))"

definition listener_cookie :: "hasher \<Rightarrow> listener \<Rightarrow> instant \<Rightarrow> socket_addr \<Rightarrow> u32" where
  "listener_cookie hsh l now from = cookie_at hsh l (cookie_minute l now) from"

definition cookie_ok :: "hasher \<Rightarrow> listener \<Rightarrow> instant \<Rightarrow> socket_addr \<Rightarrow> u32 \<Rightarrow> bool" where
  "cookie_ok hsh l now from cookie \<longleftrightarrow>
     (let minute = cookie_minute l now in
      cookie = cookie_at hsh l minute from \<or> (minute > 0 \<and> cookie = cookie_at hsh l (minute - 1) from))"

definition listener_packet :: "listener \<Rightarrow> instant \<Rightarrow> socket_id \<Rightarrow> handshake_cif \<Rightarrow> packet" where
  "listener_packet l now dst cif =
     Control \<lparr> cp_timestamp = timebase_timestamp (ls_timebase l) now, cp_dst_socket_id = dst,
               cp_control_type = Handshake cif \<rparr>"

definition rejection :: "listener \<Rightarrow> instant \<Rightarrow> handshake_cif \<Rightarrow> u32 \<Rightarrow> listener_action" where
  "rejection l now cif code =
     ActReply (listener_packet l now (hc_socket_id cif)
       (cif\<lparr> hc_handshake_type := Rejection code, hc_extensions := [] \<rparr>))"

definition on_induction :: "hasher \<Rightarrow> listener \<Rightarrow> instant \<Rightarrow> socket_addr \<Rightarrow> handshake_cif \<Rightarrow> listener_action" where
  "on_induction hsh l now from cif =
     ActReply (listener_packet l now (hc_socket_id cif)
       (cif\<lparr> hc_version := HS_VERSION_SRT1, hc_encryption := advert_of (ls_opts l),
             hc_extension_field := SRT_MAGIC, hc_cookie := listener_cookie hsh l now from,
             hc_extensions := [] \<rparr>))"

definition live_name :: bytes where
  "live_name = [0x6C, 0x69, 0x76, 0x65]"

text \<open>The loop over the extension blocks: the code of the first block that forbids the connection.\<close>

fun block_verdict :: "hs_extension list \<Rightarrow> u32 option" where
  "block_verdict [] = None"
| "block_verdict (Congestion name # bs) = (if name \<noteq> live_name then Some REJ_CONGESTION else block_verdict bs)"
| "block_verdict (ExtUnknown cmd _ # bs) = (if cmd = SRT_CMD_FILTER then Some REJ_FILTER else block_verdict bs)"
| "block_verdict (ExtInvalid _ _ # bs) = Some REJ_ROGUE"
| "block_verdict (_ # bs) = block_verdict bs"

text \<open>The key-exchange matrix: an engine and the echo to send, or a rejection code.\<close>

definition listener_kmx ::
  "crypto_prims \<Rightarrow> listener \<Rightarrow> handshake_cif \<Rightarrow> (crypto option \<times> bytes option, u32) outcome" where
  "listener_kmx cp l cif =
     (case ls_crypto_cfg l of
        Ok cfg \<Rightarrow>
          (case (cfg, find_map ext_kmreq (hc_extensions cif)) of
             (None, None) \<Rightarrow> Ok (None, None)
           | (None, Some _) \<Rightarrow> Err REJ_UNSECURE
           | (Some _, None) \<Rightarrow> Err REJ_UNSECURE
           | (Some cf, Some km) \<Rightarrow>
               (case new_responder cp cf km of
                  Ok e \<Rightarrow> Ok (Some e, Some km)
                | Err st \<Rightarrow> Err (if st = KmBadSecret then REJ_BADSECRET else REJ_UNSECURE)
                | Panic \<Rightarrow> Panic))
      | _ \<Rightarrow> Err REJ_UNSECURE)"

definition accept_conclusion ::
  "listener \<Rightarrow> instant \<Rightarrow> socket_addr \<Rightarrow> handshake_cif \<Rightarrow> socket_id \<Rightarrow> hs_ext_fields
   \<Rightarrow> crypto option \<Rightarrow> bytes option \<Rightarrow> listener_action" where
  "accept_conclusion l now from cif new_id hs e km_rsp =
     (let rcv_latency = max (op_latency (ls_opts l)) (ms_dur (he_send_latency_ms hs));
          snd_latency = max (op_peer_latency (ls_opts l)) (ms_dur (he_recv_latency_ms hs));
          mss = min (op_mss (ls_opts l)) (hc_mss cif);
          negotiated =
            \<lparr> ng_remote = from, ng_local_socket_id = new_id, ng_peer_socket_id = hc_socket_id cif,
              ng_send_initial_seq = hc_initial_seq cif, ng_recv_initial_seq = hc_initial_seq cif,
              ng_snd_latency = snd_latency, ng_rcv_latency = rcv_latency,
              ng_streamid = cif_stream_id cif, ng_mss = mss, ng_flow_window = hc_flow_window cif,
              ng_crypto = e \<rparr>;
          hsrsp = HsRsp \<lparr> he_srt_version = SRT_VERSION, he_flags = live_defaults,
                          he_recv_latency_ms = ms_u16 rcv_latency, he_send_latency_ms = ms_u16 snd_latency \<rparr>;
          reply =
            \<lparr> hc_version = HS_VERSION_SRT1, hc_encryption = advert_of (ls_opts l),
              hc_extension_field = HS_EXT_HSREQ OR (if km_rsp \<noteq> None then HS_EXT_KMREQ else 0),
              hc_initial_seq = hc_initial_seq cif, hc_mss = mss, hc_flow_window = op_flow_window (ls_opts l),
              hc_handshake_type = Conclusion, hc_socket_id = new_id, hc_cookie = hc_cookie cif,
              hc_peer_ip = peer_ip_of from,
              hc_extensions = hsrsp # (case km_rsp of Some payload \<Rightarrow> [ExtKmRsp payload] | None \<Rightarrow> []) \<rparr>
      in ActAccept (listener_packet l now (hc_socket_id cif) reply) negotiated)"

definition on_conclusion ::
  "crypto_prims \<Rightarrow> hasher \<Rightarrow> listener \<Rightarrow> instant \<Rightarrow> socket_addr \<Rightarrow> handshake_cif \<Rightarrow> socket_id
   \<Rightarrow> (listener_action, unit) outcome" where
  "on_conclusion cp hsh l now from cif new_id =
     (if \<not> cif_valid cif then Ok ActDrop
      else if \<not> cookie_ok hsh l now from (hc_cookie cif) then Ok ActDrop
      else if hc_version cif \<noteq> HS_VERSION_SRT1 then Ok (rejection l now cif REJ_VERSION)
      else
        let has_hs = list_ex is_hs_block (hc_extensions cif);
            has_km = list_ex is_km_block (hc_extensions cif);
            ext = hc_extension_field cif in
        if ext AND HS_EXT_HSREQ = 0 \<or> \<not> has_hs \<or> ((ext AND HS_EXT_KMREQ \<noteq> 0) \<noteq> has_km)
        then Ok (rejection l now cif REJ_ROGUE)
        else
          (case hs_ext cif of
             None \<Rightarrow> Panic
           | Some hs \<Rightarrow>
               if he_srt_version hs < SRT_VERSION_FEAT_HSV5 then Ok (rejection l now cif REJ_ROGUE)
               else if flags_contains (he_flags hs) FLAG_STREAM then Ok (rejection l now cif REJ_MESSAGEAPI)
               else
                 (case block_verdict (hc_extensions cif) of
                    Some code \<Rightarrow> Ok (rejection l now cif code)
                  | None \<Rightarrow>
                      (case listener_kmx cp l cif of
                         Err code \<Rightarrow> Ok (rejection l now cif code)
                       | Ok (e, km_rsp) \<Rightarrow> Ok (accept_conclusion l now from cif new_id hs e km_rsp)
                       | Panic \<Rightarrow> Panic))))"

definition listener_handle_handshake ::
  "crypto_prims \<Rightarrow> hasher \<Rightarrow> listener \<Rightarrow> instant \<Rightarrow> socket_addr \<Rightarrow> handshake_cif \<Rightarrow> socket_id
   \<Rightarrow> (listener_action, unit) outcome" where
  "listener_handle_handshake cp hsh l now from cif new_id =
     (case hc_handshake_type cif of
        Induction \<Rightarrow> Ok (on_induction hsh l now from cif)
      | Conclusion \<Rightarrow> on_conclusion cp hsh l now from cif new_id
      | _ \<Rightarrow> Ok ActDrop)"

end
