(* ===== verification/Handshake_Props.thy ===== *)
theory Handshake_Props
  imports Handshake
begin

text \<open>
  Correctness of the handshake: the packets both sides build survive the wire, the exchange
  between a caller and a listener with compatible options establishes both with one view of the
  connection, encryption is enforced on both sides, and a caller ends after a bounded number of
  requests.
\<close>

section \<open>Handshake packets on the wire\<close>

definition received_cif :: "packet \<Rightarrow> handshake_cif option" where
  "received_cif p =
     (case packet_parse (packet_encode p []) of
        Ok (Control c) \<Rightarrow> (case cp_control_type c of Handshake cif \<Rightarrow> Some cif | _ \<Rightarrow> None)
      | _ \<Rightarrow> None)"

lemma received_cif_Handshake:
  "cif_wf cif \<Longrightarrow> received_cif (Control \<lparr> cp_timestamp = ts, cp_dst_socket_id = dst,
     cp_control_type = Handshake cif \<rparr>) = Some cif"
  by (simp add: received_cif_def packet_parse_control control_wf_def)

lemma received_caller: "cif_wf cif \<Longrightarrow> received_cif (caller_packet c now cif) = Some cif"
  by (simp add: caller_packet_def received_cif_Handshake)

lemma received_listener: "cif_wf cif \<Longrightarrow> received_cif (listener_packet l now dst cif) = Some cif"
  by (simp add: listener_packet_def received_cif_Handshake)

lemmas received_simps = received_caller received_listener

lemma length_peer_ip: "length (peer_ip_of a) = 16"
  by (cases "sa_ip a") (simp add: peer_ip_of_def encode_peer_ip_def)

text \<open>Options a connection can be negotiated with, and latencies the 16-bit fields can carry.\<close>

definition whole_ms :: "duration \<Rightarrow> bool" where
  "whole_ms d \<longleftrightarrow> d mod 1000000 = 0 \<and> d \<le> from_millis 65535"

definition hs_options_ok :: "srt_options \<Rightarrow> bool" where
  "hs_options_ok opts \<longleftrightarrow>
     32 \<le> op_mss opts \<and> 2 \<le> op_flow_window opts \<and> whole_ms (op_latency opts) \<and> whole_ms (op_peer_latency opts)
   \<and> (case op_streamid opts of None \<Rightarrow> True | Some s \<Rightarrow> ext_wf (StreamId s))"

lemma ms_round_trip [simp]:
  assumes "whole_ms d" shows "ms_dur (ms_u16 d) = d"
proof -
  have "d div 1000000 \<le> 65535" and "1000000 * (d div 1000000) = d"
    using assms by (auto simp: whole_ms_def from_millis_def)
  then show ?thesis
    by (simp add: ms_dur_def ms_u16_def from_millis_def as_millis_def unat_of_nat)
qed

lemma whole_ms_max [simp]: "whole_ms a \<Longrightarrow> whole_ms b \<Longrightarrow> whole_ms (max a b)"
  by (simp add: max_def)

lemma induction_cif_wf: "raw (ch_initial_seq c) < SEQ_MASK \<Longrightarrow> cif_wf (induction_cif c)"
  by (simp add: cif_wf_def induction_cif_def length_peer_ip)

lemma km_encode_sized:
  assumes "km_wf m" shows "4 dvd length (km_encode m)" "length (km_encode m) \<le> 104"
proof -
  show "4 dvd length (km_encode m)" "length (km_encode m) \<le> 104"
    using assms by (cases "km_key_len m"; cases "km_keys m"; simp add: km_encode_def km_wf_def km_consts)+
qed

lemma km_blocks_wf: "kmreq e = Some blob \<Longrightarrow> ext_wf (ExtKmReq blob) \<Longrightarrow> \<forall>x \<in> set (km_blocks (Some e)). ext_wf x"
  by (simp add: km_blocks_def)

lemma conclusion_cif_wf:
  assumes "raw (ch_initial_seq c) < SEQ_MASK" "hs_options_ok (ch_opts c)"
    and "\<forall>x \<in> set (km_blocks (ch_crypto c)). ext_wf x"
  shows "cif_wf (conclusion_cif c cookie)"
  using assms
  by (auto simp: cif_wf_def conclusion_cif_def Let_def induction_cif_def length_peer_ip sid_blocks_def
      km_blocks_def hs_options_ok_def extension_bits_def HS_EXT_HSREQ_def HS_EXT_CONFIG_def HS_EXT_KMREQ_def
      split: option.splits)

section \<open>The exchange\<close>

text \<open>
  One complete exchange over a wire that delivers: at the instants \<open>t 0\<close> \<dots> \<open>t 5\<close> the caller sends
  its INDUCTION request, the listener answers it, the caller takes the answer, sends its CONCLUSION
  request, the listener answers that, and the caller takes the response.
\<close>

definition first_half ::
  "crypto_prims \<Rightarrow> hasher \<Rightarrow> bytes \<Rightarrow> bytes \<Rightarrow> caller_handshake \<Rightarrow> listener \<Rightarrow> socket_addr \<Rightarrow> socket_id
   \<Rightarrow> (nat \<Rightarrow> instant) \<Rightarrow> caller_handshake option" where
  "first_half cp hsh rs rk c l from new_id t =
     (case caller_poll_transmit c (t 0) of (c1, p1) \<Rightarrow>
      Option.bind (Option.bind p1 received_cif) (\<lambda>request.
      case listener_handle_handshake cp hsh l (t 1) from request new_id of
        Ok (ActReply p2) \<Rightarrow>
          Option.bind (received_cif p2) (\<lambda>reply.
          case caller_handle_handshake cp rs rk c1 (t 2) reply of
            (c2, Ok None) \<Rightarrow> Some c2
          | _ \<Rightarrow> None)
      | _ \<Rightarrow> None))"

definition second_half ::
  "crypto_prims \<Rightarrow> hasher \<Rightarrow> bytes \<Rightarrow> bytes \<Rightarrow> caller_handshake \<Rightarrow> listener \<Rightarrow> socket_addr \<Rightarrow> socket_id
   \<Rightarrow> (nat \<Rightarrow> instant) \<Rightarrow> (negotiated \<times> negotiated) option" where
  "second_half cp hsh rs rk c l from new_id t =
     (case caller_poll_transmit c (t 3) of (c1, p1) \<Rightarrow>
      Option.bind (Option.bind p1 received_cif) (\<lambda>request.
      case listener_handle_handshake cp hsh l (t 4) from request new_id of
        Ok (ActAccept p2 nl) \<Rightarrow>
          Option.bind (received_cif p2) (\<lambda>reply.
          case caller_handle_handshake cp rs rk c1 (t 5) reply of
            (_, Ok (Some nc)) \<Rightarrow> Some (nc, nl)
          | _ \<Rightarrow> None)
      | _ \<Rightarrow> None))"

definition handshake_exchange ::
  "crypto_prims \<Rightarrow> hasher \<Rightarrow> bytes \<Rightarrow> bytes \<Rightarrow> caller_handshake \<Rightarrow> listener \<Rightarrow> socket_addr \<Rightarrow> socket_id
   \<Rightarrow> (nat \<Rightarrow> instant) \<Rightarrow> (negotiated \<times> negotiated) option" where
  "handshake_exchange cp hsh rs rk c l from new_id t =
     Option.bind (first_half cp hsh rs rk c l from new_id t)
       (\<lambda>c'. second_half cp hsh rs rk c' l from new_id t)"

text \<open>The options and key configuration after the listener's PBKEYLEN advert was adopted.\<close>

lemma adopt_passphrase [simp]: "cc_passphrase (adopt_peer_pbkeylen cfg a) = cc_passphrase cfg"
  by (simp add: adopt_peer_pbkeylen_def split: option.splits)

lemma adopt_option_simps [simp]:
  "op_latency (adopt_option opts a) = op_latency opts" "op_peer_latency (adopt_option opts a) = op_peer_latency opts"
  "op_mss (adopt_option opts a) = op_mss opts" "op_flow_window (adopt_option opts a) = op_flow_window opts"
  "op_streamid (adopt_option opts a) = op_streamid opts"
  by (simp_all add: adopt_option_def split: option.splits)

lemma adopt_option_ok [simp]: "hs_options_ok (adopt_option opts a) = hs_options_ok opts"
  by (simp add: hs_options_ok_def)

lemma new_initiator_any_error:
  "new_initiator cp rs rk cfg = (Ok a :: (_, unit) outcome) \<Longrightarrow> new_initiator cp rs rk cfg = (Ok a :: (_, 'e) outcome)"
  by (auto simp: new_initiator_def Let_def cipher_new_def wrap_key_def bind_outcome_Ok_iff split: if_splits)

text \<open>
  The caller between the two halves: it holds the cookie of the listener's minute, and its engine
  is keyed exactly when it has a passphrase.
\<close>

definition mid_caller :: "caller_handshake \<Rightarrow> u32 \<Rightarrow> u16 \<Rightarrow> crypto option \<Rightarrow> instant \<Rightarrow> caller_handshake" where
  "mid_caller c cookie advert e now =
     c\<lparr> ch_opts := adopt_option (ch_opts c) advert, ch_enc_advert := advert_of (adopt_option (ch_opts c) advert),
        ch_crypto_cfg := None, ch_crypto := e, ch_state := CsConclusion cookie, ch_next_send := now \<rparr>"

lemma first_half_Some:
  assumes "ch_state c = CsInduction" "ch_next_send c \<le> t 0" "t 0 < ch_deadline c"
    and "raw (ch_initial_seq c) < SEQ_MASK"
    and engine: "(case ch_crypto_cfg c of None \<Rightarrow> Ok None
        | Some cfg \<Rightarrow> bind_outcome (new_initiator cp rs rk (adopt_peer_pbkeylen cfg (advert_of (ls_opts l)))) (\<lambda>e. Ok (Some e)))
      = (Ok e :: (_, srt_error) outcome)"
  shows "first_half cp hsh rs rk c l from new_id t =
    Some (mid_caller c (listener_cookie hsh l (t 1) from) (advert_of (ls_opts l)) e (t 2))"
proof -
  define c1 where "c1 = c\<lparr> ch_next_send := t 0 + HS_RETRY_INTERVAL \<rparr>"
  define reply where "reply = (induction_cif c)\<lparr> hc_version := HS_VERSION_SRT1,
    hc_encryption := advert_of (ls_opts l), hc_extension_field := SRT_MAGIC,
    hc_cookie := listener_cookie hsh l (t 1) from, hc_extensions := [] \<rparr>"
  have ind: "induction_cif c1 = induction_cif c" by (simp add: induction_cif_def c1_def)
  have "cif_wf (induction_cif c)" using assms(4) by (rule induction_cif_wf)
  moreover from this have "cif_wf reply" by (simp add: cif_wf_def reply_def)
  moreover have "caller_poll_transmit c (t 0) = (c1, Some (caller_packet c1 (t 0) (induction_cif c)))"
    using assms(1,2,3) ind
    by (simp add: caller_poll_transmit_def caller_is_timed_out_def waiting_reply_def c1_def [symmetric] Let_def)
      (simp add: c1_def)
  moreover have "listener_handle_handshake cp hsh l (t 1) from (induction_cif c) new_id =
      Ok (ActReply (listener_packet l (t 1) (ch_local_socket_id c) reply))"
    by (simp add: listener_handle_handshake_def on_induction_def reply_def induction_cif_def)
  moreover have "caller_handle_handshake cp rs rk c1 (t 2) reply =
      (mid_caller c (listener_cookie hsh l (t 1) from) (advert_of (ls_opts l)) e (t 2), Ok None)"
    using assms(1) engine
    by (cases "ch_crypto_cfg c")
      (simp_all add: caller_handle_handshake_def on_induction_response_def reply_def induction_cif_def c1_def
        HS_VERSION_SRT1_def HS_VERSION_UDT4_def mid_caller_def Let_def)
  ultimately show ?thesis
    by (simp add: first_half_def received_simps)
qed

lemma cookie_ok_recent:
  assumes "cookie_minute l t1 \<le> cookie_minute l t2" "cookie_minute l t2 \<le> cookie_minute l t1 + 1"
  shows "cookie_ok hsh l t2 from (listener_cookie hsh l t1 from)"
proof -
  consider "cookie_minute l t2 = cookie_minute l t1" | "cookie_minute l t2 = Suc (cookie_minute l t1)"
    using assms by linarith
  then show ?thesis by cases (simp_all add: cookie_ok_def listener_cookie_def)
qed

lemma cookie_minute_mono: "t1 \<le> t2 \<Longrightarrow> cookie_minute l t1 \<le> cookie_minute l t2"
  by (simp add: cookie_minute_def div_le_mono diff_le_mono)

lemma conclusion_cif_simps [simp]:
  "hc_version (conclusion_cif c k) = HS_VERSION_SRT1" "hc_handshake_type (conclusion_cif c k) = Conclusion"
  "hc_cookie (conclusion_cif c k) = k" "hc_mss (conclusion_cif c k) = op_mss (ch_opts c)"
  "hc_flow_window (conclusion_cif c k) = op_flow_window (ch_opts c)"
  "hc_socket_id (conclusion_cif c k) = ch_local_socket_id c"
  "hc_initial_seq (conclusion_cif c k) = ch_initial_seq c"
  by (simp_all add: conclusion_cif_def induction_cif_def Let_def)

lemma conclusion_cif_blocks:
  assumes "hs_options_ok (ch_opts c)"
  shows "hs_ext (conclusion_cif c k) = Some \<lparr> he_srt_version = SRT_VERSION, he_flags = live_defaults,
      he_recv_latency_ms = ms_u16 (op_latency (ch_opts c)), he_send_latency_ms = ms_u16 (op_peer_latency (ch_opts c)) \<rparr>"
    and "cif_stream_id (conclusion_cif c k) = op_streamid (ch_opts c)"
    and "find_map ext_kmreq (hc_extensions (conclusion_cif c k)) = Option.bind (ch_crypto c) kmreq"
    and "block_verdict (hc_extensions (conclusion_cif c k)) = None"
    and "list_ex is_hs_block (hc_extensions (conclusion_cif c k))"
    and "list_ex is_km_block (hc_extensions (conclusion_cif c k)) \<longleftrightarrow> Option.bind (ch_crypto c) kmreq \<noteq> None"
    and "hc_extension_field (conclusion_cif c k) AND HS_EXT_HSREQ \<noteq> 0"
    and "hc_extension_field (conclusion_cif c k) AND HS_EXT_KMREQ = 0 \<longleftrightarrow> Option.bind (ch_crypto c) kmreq = None"
  using assms
  by (auto simp: conclusion_cif_def Let_def hs_ext_def cif_stream_id_def sid_blocks_def km_blocks_def
      hs_options_ok_def HS_EXT_HSREQ_def HS_EXT_CONFIG_def HS_EXT_KMREQ_def split: option.splits)

lemma hs_version_live: "\<not> SRT_VERSION < SRT_VERSION_FEAT_HSV5" "\<not> flags_contains live_defaults FLAG_STREAM"
  by (simp_all add: SRT_VERSION_def SRT_VERSION_FEAT_HSV5_def flags_contains_def live_defaults_def
      FLAG_TSBPDSND_def FLAG_TSBPDRCV_def FLAG_CRYPT_def FLAG_TLPKTDROP_def FLAG_PERIODICNAK_def
      FLAG_REXMITFLG_def FLAG_STREAM_def)

lemma conclusion_cif_valid: "hs_options_ok (ch_opts c) \<Longrightarrow> cif_valid (conclusion_cif c k)"
  by (simp add: cif_valid_def hs_options_ok_def HS_VERSION_SRT1_def HS_VERSION_UDT4_def)

lemma listener_accepts:
  assumes "hs_options_ok (ch_opts c)" "cookie_ok hsh l now from k"
    and "listener_kmx cp l (conclusion_cif c k) = Ok (e, km)"
  shows "listener_handle_handshake cp hsh l now from (conclusion_cif c k) new_id =
    Ok (accept_conclusion l now from (conclusion_cif c k) new_id
      \<lparr> he_srt_version = SRT_VERSION, he_flags = live_defaults,
        he_recv_latency_ms = ms_u16 (op_latency (ch_opts c)),
        he_send_latency_ms = ms_u16 (op_peer_latency (ch_opts c)) \<rparr> e km)"
  using assms conclusion_cif_blocks [OF assms(1)]
  by (cases "Option.bind (ch_crypto c) kmreq")
    (simp_all add: listener_handle_handshake_def on_conclusion_def conclusion_cif_valid hs_version_live Let_def)

text \<open>The key exchange inside the handshake: both engines absent, or both keyed for each other.\<close>

definition keyed_pair :: "crypto_prims \<Rightarrow> crypto option \<Rightarrow> crypto option \<Rightarrow> bool" where
  "keyed_pair cp a b \<longleftrightarrow>
     (case (a, b) of
        (None, None) \<Rightarrow> True
      | (Some x, Some y) \<Rightarrow> crypto_inv cp x \<and> crypto_inv cp y \<and> keyed_for x y \<and> keyed_for y x
      | _ \<Rightarrow> False)"

lemma handle_kmrsp_keyed: "handle_kmrsp a p = (a', Confirmed) \<Longrightarrow> keyed_for a b \<Longrightarrow> keyed_for a' b"
  by (auto simp: handle_kmrsp_def peer_km_failure_def keyed_for_def Let_def
      split: outcome.splits km_response.splits option.splits if_splits prod.splits km_state.splits)

definition judged :: "crypto option \<Rightarrow> bytes option \<Rightarrow> crypto option" where
  "judged e km = (case (e, km) of (Some a, Some blob) \<Rightarrow> Some (fst (handle_kmrsp a blob)) | _ \<Rightarrow> None)"

text \<open>
  An initiator engine \<open>e\<close> whose KMREQ block is encodable, is answered by a listener configured with
  \<open>lc\<close> by the engine \<open>b\<close> and the echo, and is confirmed by that echo.
\<close>

definition kmx_ready :: "crypto_prims \<Rightarrow> crypto_config option \<Rightarrow> crypto option \<Rightarrow> crypto option \<Rightarrow> bool" where
  "kmx_ready cp lc e b \<longleftrightarrow>
     (\<forall>x \<in> set (km_blocks e). ext_wf x) \<and> (Option.bind e kmreq = None \<longleftrightarrow> e = None)
   \<and> (\<forall>l cif. ls_crypto_cfg l = Ok lc \<longrightarrow> find_map ext_kmreq (hc_extensions cif) = Option.bind e kmreq
        \<longrightarrow> listener_kmx cp l cif = Ok (b, Option.bind e kmreq))
   \<and> (\<forall>a blob. e = Some a \<longrightarrow> kmreq a = Some blob
        \<longrightarrow> snd (handle_kmrsp a blob) = Confirmed \<and> ext_wf (ExtKmRsp blob))
   \<and> keyed_pair cp (judged e (Option.bind e kmreq)) b"

lemma handshake_kmx:
  assumes "prims_ok cp" "map_option cc_passphrase cc = map_option cc_passphrase lc"
  obtains e b where
    "(case cc of None \<Rightarrow> Ok None
        | Some cfg \<Rightarrow> bind_outcome (new_initiator cp rs rk (adopt_peer_pbkeylen cfg adv)) (\<lambda>e. Ok (Some e)))
      = (Ok e :: (_, srt_error) outcome)"
    "e = None \<longleftrightarrow> cc = None" "kmx_ready cp lc e b"
proof (cases cc)
  case None
  then show thesis
    using assms(2) that [of None None]
    by (simp add: kmx_ready_def km_blocks_def listener_kmx_def keyed_pair_def judged_def)
next
  case (Some cfg)
  let ?cfg = "adopt_peer_pbkeylen cfg adv"
  obtain cf where lc: "lc = Some cf" "cc_passphrase cf = cc_passphrase ?cfg"
    using assms(2) Some by (cases lc) auto
  obtain a blob b a' where kx: "new_initiator cp rs rk ?cfg = (Ok a :: (_, unit) outcome)" "kmreq a = Some blob"
    "new_responder cp cf blob = Ok b" "handle_kmrsp a blob = (a', Confirmed)"
    "crypto_inv cp a" "crypto_inv cp b" "keyed_for a b" "keyed_for b a'"
    using assms(1) lc(2) by (rule key_exchange_keyed [where rs = rs and rk = rk])
  obtain a2 m where "new_initiator cp rs rk ?cfg = (Ok a2 :: (_, unit) outcome)" "kmreq a2 = Some (km_encode m)" "km_wf m"
    using assms(1) by (rule new_initiator_Ok [where rs = rs and rk = rk and cfg = ?cfg and 'e = unit]) blast
  then have blob: "ext_wf (ExtKmReq blob)" "ext_wf (ExtKmRsp blob)"
    using kx(1,2) km_encode_sized [of m] by auto
  have "crypto_inv cp a'" "keyed_for a' b"
    using handle_kmrsp_inv [OF kx(5), of blob] kx(4) handle_kmrsp_keyed [OF kx(4,7)] by simp_all
  then show thesis
    using kx blob Some lc(1) new_initiator_any_error [OF kx(1), where 'e = srt_error]
    by (intro that [of "Some a" "Some b"])
      (auto simp: kmx_ready_def km_blocks_def listener_kmx_def keyed_pair_def judged_def)
qed

definition conclusion_reply ::
  "caller_handshake \<Rightarrow> listener \<Rightarrow> socket_addr \<Rightarrow> socket_id \<Rightarrow> 32 word \<Rightarrow> bytes option \<Rightarrow> handshake_cif" where
  "conclusion_reply c l from new_id k m = \<lparr> hc_version = HS_VERSION_SRT1, hc_encryption = advert_of (ls_opts l),
    hc_extension_field = HS_EXT_HSREQ OR (if m \<noteq> None then HS_EXT_KMREQ else 0),
    hc_initial_seq = ch_initial_seq c, hc_mss = min (op_mss (ls_opts l)) (op_mss (ch_opts c)),
    hc_flow_window = op_flow_window (ls_opts l), hc_handshake_type = Conclusion, hc_socket_id = new_id,
    hc_cookie = k, hc_peer_ip = peer_ip_of from,
    hc_extensions = HsRsp \<lparr> he_srt_version = SRT_VERSION, he_flags = live_defaults,
        he_recv_latency_ms = ms_u16 (max (op_latency (ls_opts l)) (op_peer_latency (ch_opts c))),
        he_send_latency_ms = ms_u16 (max (op_peer_latency (ls_opts l)) (op_latency (ch_opts c))) \<rparr>
      # (case m of Some payload \<Rightarrow> [ExtKmRsp payload] | None \<Rightarrow> []) \<rparr>"

lemma accept_conclusion_reply:
  assumes ok: "hs_options_ok (ch_opts c)" "hs_options_ok (ls_opts l)"
    and hs: "he_recv_latency_ms hs = ms_u16 (op_latency (ch_opts c))"
      "he_send_latency_ms hs = ms_u16 (op_peer_latency (ch_opts c))"
  shows "accept_conclusion l now from (conclusion_cif c k) new_id hs b m =
    ActAccept (listener_packet l now (ch_local_socket_id c) (conclusion_reply c l from new_id k m))
      \<lparr> ng_remote = from, ng_local_socket_id = new_id, ng_peer_socket_id = ch_local_socket_id c,
        ng_send_initial_seq = ch_initial_seq c, ng_recv_initial_seq = ch_initial_seq c,
        ng_snd_latency = max (op_peer_latency (ls_opts l)) (op_latency (ch_opts c)),
        ng_rcv_latency = max (op_latency (ls_opts l)) (op_peer_latency (ch_opts c)),
        ng_streamid = op_streamid (ch_opts c), ng_mss = min (op_mss (ls_opts l)) (op_mss (ch_opts c)),
        ng_flow_window = op_flow_window (ch_opts c), ng_crypto = b \<rparr>"
  using ok conclusion_cif_blocks(2) [OF ok(1)] hs
  by (simp add: accept_conclusion_def Let_def conclusion_reply_def hs_options_ok_def)

lemma conclusion_reply_wf:
  assumes "raw (ch_initial_seq c) < SEQ_MASK" "\<And>payload. m = Some payload \<Longrightarrow> ext_wf (ExtKmRsp payload)"
  shows "cif_wf (conclusion_reply c l from new_id k m)"
  using assms length_peer_ip [of "from"]
  by (cases m) (auto simp: conclusion_reply_def cif_wf_def extension_bits_def HS_EXT_HSREQ_def HS_EXT_KMREQ_def)

lemma conclusion_poll:
  assumes "ch_state c = CsConclusion k" "ch_next_send c \<le> now" "now < ch_deadline c"
    and c1: "c1 = c\<lparr> ch_next_send := now + HS_RETRY_INTERVAL \<rparr>"
  shows "caller_poll_transmit c now = (c1, Some (caller_packet c1 now (conclusion_cif c k)))"
proof -
  have "conclusion_cif c1 k = conclusion_cif c k"
    by (simp add: conclusion_cif_def induction_cif_def c1 Let_def)
  then show ?thesis using assms(1-3)
    by (simp add: caller_poll_transmit_def caller_is_timed_out_def waiting_reply_def c1 [symmetric] Let_def)
      (simp add: c1)
qed

lemma caller_takes_reply:
  assumes "ch_state c = CsConclusion k" and ok: "hs_options_ok (ch_opts c)" "hs_options_ok (ls_opts l)"
    and km: "m = None \<longleftrightarrow> ch_crypto c = None"
      "\<And>a blob. ch_crypto c = Some a \<Longrightarrow> m = Some blob \<Longrightarrow> snd (handle_kmrsp a blob) = Confirmed"
  shows "caller_handle_handshake cp rs rk c now (conclusion_reply c l from new_id k m) =
    (c\<lparr> ch_crypto := None, ch_state := CsEstablished \<rparr>, Ok (Some
      \<lparr> ng_remote = ch_remote c, ng_local_socket_id = ch_local_socket_id c, ng_peer_socket_id = new_id,
        ng_send_initial_seq = ch_initial_seq c, ng_recv_initial_seq = ch_initial_seq c,
        ng_snd_latency = max (op_latency (ls_opts l)) (op_peer_latency (ch_opts c)),
        ng_rcv_latency = max (op_peer_latency (ls_opts l)) (op_latency (ch_opts c)),
        ng_streamid = op_streamid (ch_opts c), ng_mss = min (op_mss (ls_opts l)) (op_mss (ch_opts c)),
        ng_flow_window = op_flow_window (ls_opts l), ng_crypto = judged (ch_crypto c) m \<rparr>))"
proof -
  let ?r = "conclusion_reply c l from new_id k m"
  have "cif_valid ?r" "hc_version ?r \<noteq> 0" "\<not> hc_version ?r \<le> HS_VERSION_UDT4"
    using ok by (simp_all add: cif_valid_def conclusion_reply_def hs_options_ok_def HS_VERSION_SRT1_def HS_VERSION_UDT4_def)
  moreover have "judge_kmx c ?r = (judged (ch_crypto c) m, None)"
    using km by (cases "ch_crypto c") (auto simp: judge_kmx_def judged_def conclusion_reply_def split_beta Let_def)
  moreover have "hc_extension_field ?r AND HS_EXT_HSREQ \<noteq> 0"
    by (simp add: conclusion_reply_def HS_EXT_HSREQ_def HS_EXT_KMREQ_def)
  moreover obtain hs where "find_map ext_hsrsp (hc_extensions ?r) = Some hs" "he_srt_version hs = SRT_VERSION"
    "he_flags hs = live_defaults"
    "ms_dur (he_recv_latency_ms hs) = max (op_latency (ls_opts l)) (op_peer_latency (ch_opts c))"
    "ms_dur (he_send_latency_ms hs) = max (op_peer_latency (ls_opts l)) (op_latency (ch_opts c))"
    using ok by (simp add: conclusion_reply_def hs_options_ok_def)
  moreover have "hc_handshake_type ?r = Conclusion" "hc_initial_seq ?r = ch_initial_seq c" "hc_socket_id ?r = new_id"
    "hc_mss ?r = min (op_mss (ls_opts l)) (op_mss (ch_opts c))" "hc_flow_window ?r = op_flow_window (ls_opts l)"
    by (simp_all add: conclusion_reply_def)
  ultimately show ?thesis
    using assms(1) by (simp add: caller_handle_handshake_def on_conclusion_response_def hs_version_live)
qed

lemma second_half_Some:
  assumes "ch_state c = CsConclusion k" "ch_next_send c \<le> t 3" "t 3 < ch_deadline c"
    and isn: "raw (ch_initial_seq c) < SEQ_MASK" and ok: "hs_options_ok (ch_opts c)" "hs_options_ok (ls_opts l)"
    and "cookie_ok hsh l (t 4) from k"
    and lc: "ls_crypto_cfg l = Ok lc" and kx: "kmx_ready cp lc (ch_crypto c) b"
  shows "second_half cp hsh rs rk c l from new_id t = Some
    (\<lparr> ng_remote = ch_remote c, ng_local_socket_id = ch_local_socket_id c, ng_peer_socket_id = new_id,
       ng_send_initial_seq = ch_initial_seq c, ng_recv_initial_seq = ch_initial_seq c,
       ng_snd_latency = max (op_latency (ls_opts l)) (op_peer_latency (ch_opts c)),
       ng_rcv_latency = max (op_peer_latency (ls_opts l)) (op_latency (ch_opts c)),
       ng_streamid = op_streamid (ch_opts c), ng_mss = min (op_mss (ls_opts l)) (op_mss (ch_opts c)),
       ng_flow_window = op_flow_window (ls_opts l),
       ng_crypto = judged (ch_crypto c) (Option.bind (ch_crypto c) kmreq) \<rparr>,
     \<lparr> ng_remote = from, ng_local_socket_id = new_id, ng_peer_socket_id = ch_local_socket_id c,
       ng_send_initial_seq = ch_initial_seq c, ng_recv_initial_seq = ch_initial_seq c,
       ng_snd_latency = max (op_peer_latency (ls_opts l)) (op_latency (ch_opts c)),
       ng_rcv_latency = max (op_latency (ls_opts l)) (op_peer_latency (ch_opts c)),
       ng_streamid = op_streamid (ch_opts c), ng_mss = min (op_mss (ls_opts l)) (op_mss (ch_opts c)),
       ng_flow_window = op_flow_window (ch_opts c), ng_crypto = b \<rparr>)"
proof -
  have km: "\<forall>x \<in> set (km_blocks (ch_crypto c)). ext_wf x"
      "Option.bind (ch_crypto c) kmreq = None \<longleftrightarrow> ch_crypto c = None"
      "\<And>a blob. ch_crypto c = Some a \<Longrightarrow> kmreq a = Some blob \<Longrightarrow> snd (handle_kmrsp a blob) = Confirmed"
      "\<And>a blob. ch_crypto c = Some a \<Longrightarrow> kmreq a = Some blob \<Longrightarrow> ext_wf (ExtKmRsp blob)"
      "\<And>cif. find_map ext_kmreq (hc_extensions cif) = Option.bind (ch_crypto c) kmreq
         \<Longrightarrow> listener_kmx cp l cif = Ok (b, Option.bind (ch_crypto c) kmreq)"
    using kx lc unfolding kmx_ready_def by blast+
  let ?m = "Option.bind (ch_crypto c) kmreq"
  define c1 where "c1 = c\<lparr> ch_next_send := t 3 + HS_RETRY_INTERVAL \<rparr>"
  define hs where "hs = \<lparr> he_srt_version = SRT_VERSION, he_flags = live_defaults,
    he_recv_latency_ms = ms_u16 (op_latency (ch_opts c)), he_send_latency_ms = ms_u16 (op_peer_latency (ch_opts c)) \<rparr>"
  have "cif_wf (conclusion_cif c k)" using isn ok(1) km(1) by (rule conclusion_cif_wf)
  moreover have "listener_handle_handshake cp hsh l (t 4) from (conclusion_cif c k) new_id =
      Ok (accept_conclusion l (t 4) from (conclusion_cif c k) new_id hs b ?m)"
    unfolding hs_def using ok(1) assms(7) km(5) conclusion_cif_blocks(3) [OF ok(1)]
    by (intro listener_accepts) simp_all
  moreover have "cif_wf (conclusion_reply c l from new_id k ?m)"
    using isn km(4) by (intro conclusion_reply_wf) (auto simp: bind_eq_Some_conv)
  moreover have "conclusion_reply c l from new_id k ?m = conclusion_reply c1 l from new_id k ?m"
    by (simp add: conclusion_reply_def c1_def)
  moreover note conclusion_poll [OF assms(1-3) c1_def]
    caller_takes_reply [of c1 k l ?m cp rs rk "t 5" "from" new_id]
    accept_conclusion_reply [OF ok, of hs "t 4" "from" k new_id b ?m]
  ultimately show ?thesis
    using assms(1) ok km(2,3) by (auto simp: second_half_def received_simps c1_def hs_def bind_eq_Some_conv)
qed

text \<open>What both ends of an exchange hold afterwards.\<close>

definition agreed ::
  "crypto_prims \<Rightarrow> crypto_config option \<Rightarrow> srt_options \<Rightarrow> srt_options \<Rightarrow> seq_number \<Rightarrow> socket_id \<Rightarrow> socket_id
   \<Rightarrow> negotiated \<Rightarrow> negotiated \<Rightarrow> bool" where
  "agreed cp cc co lo isn cid lid nc nl \<longleftrightarrow>
     ng_local_socket_id nc = cid \<and> ng_peer_socket_id nl = cid
   \<and> ng_local_socket_id nl = lid \<and> ng_peer_socket_id nc = lid
   \<and> {ng_send_initial_seq nc, ng_recv_initial_seq nc, ng_send_initial_seq nl, ng_recv_initial_seq nl} = {isn}
   \<and> ng_mss nc = min (op_mss lo) (op_mss co) \<and> ng_mss nl = ng_mss nc
   \<and> ng_flow_window nc = op_flow_window lo \<and> ng_flow_window nl = op_flow_window co
   \<and> ng_rcv_latency nc = max (op_peer_latency lo) (op_latency co) \<and> ng_snd_latency nl = ng_rcv_latency nc
   \<and> ng_rcv_latency nl = max (op_latency lo) (op_peer_latency co) \<and> ng_snd_latency nc = ng_rcv_latency nl
   \<and> ng_streamid nc = op_streamid co \<and> ng_streamid nl = op_streamid co
   \<and> (ng_crypto nc = None \<longleftrightarrow> cc = None) \<and> keyed_pair cp (ng_crypto nc) (ng_crypto nl)"

lemma exchange_agrees:
  assumes "prims_ok cp"
    and "crypto_config_of co = Ok cc" "crypto_config_of lo = Ok lc"
    and "map_option cc_passphrase cc = map_option cc_passphrase lc"
    and "hs_options_ok co" "hs_options_ok lo" "raw isn < SEQ_MASK"
    and "start \<le> t 0" "t 0 \<le> t 1" "t 1 \<le> t 2" "t 2 \<le> t 3" "t 3 \<le> t 4" "t 3 < start + op_connect_timeout co"
    and "cookie_minute (listener_new secret ltb lo) (t 4) \<le> cookie_minute (listener_new secret ltb lo) (t 1) + 1"
  shows "\<exists>nc nl. handshake_exchange cp hsh rs rk (caller_new start remote cid isn ctb co)
        (listener_new secret ltb lo) from lid t = Some (nc, nl) \<and> agreed cp cc co lo isn cid lid nc nl"
proof -
  define c where "c = caller_new start remote cid isn ctb co"
  define l where "l = listener_new secret ltb lo"
  define adv where "adv = advert_of lo"
  obtain e b where e:
    "(case cc of None \<Rightarrow> Ok None
        | Some cfg \<Rightarrow> bind_outcome (new_initiator cp rs rk (adopt_peer_pbkeylen cfg adv)) (\<lambda>e. Ok (Some e)))
      = (Ok e :: (_, srt_error) outcome)"
    "e = None \<longleftrightarrow> cc = None" "kmx_ready cp lc e b"
    using assms(1,4) by (rule handshake_kmx [where rs = rs and rk = rk and adv = adv])
  have l: "ls_opts l = lo" "ls_crypto_cfg l = Ok lc"
    using assms(3) by (simp_all add: l_def listener_new_def)
  have c: "ch_state c = CsInduction" "ch_crypto_cfg c = cc" "ch_opts c = co" "ch_initial_seq c = isn"
    "ch_next_send c = start" "ch_deadline c = start + op_connect_timeout co" "ch_local_socket_id c = cid"
    using assms(2) by (simp_all add: c_def caller_new_def)
  define c2 where "c2 = mid_caller c (listener_cookie hsh l (t 1) from) adv e (t 2)"
  have c2: "ch_state c2 = CsConclusion (listener_cookie hsh l (t 1) from)" "ch_crypto c2 = e"
    "ch_opts c2 = adopt_option co adv" "ch_initial_seq c2 = isn" "ch_next_send c2 = t 2"
    "ch_deadline c2 = start + op_connect_timeout co" "ch_local_socket_id c2 = cid"
    by (simp_all add: c2_def mid_caller_def c)
  have "(case ch_crypto_cfg c of None \<Rightarrow> Ok None
        | Some cfg \<Rightarrow> bind_outcome (new_initiator cp rs rk (adopt_peer_pbkeylen cfg (advert_of (ls_opts l)))) (\<lambda>e. Ok (Some e)))
      = (Ok e :: (_, srt_error) outcome)"
    using e(1) unfolding c(2) l(1) adv_def .
  then have "first_half cp hsh rs rk c l from lid t = Some c2"
    using assms(7-13) first_half_Some [of c t cp rs rk l e hsh "from" lid] by (simp add: c2_def adv_def c l(1))
  moreover have "cookie_ok hsh l (t 4) from (listener_cookie hsh l (t 1) from)"
    using assms(9-12,14) by (intro cookie_ok_recent cookie_minute_mono) (simp_all add: l_def)
  note second = second_half_Some [where t = t and cp = cp and b = b and rs = rs and rk = rk and new_id = lid,
      OF c2(1) _ _ _ _ _ this l(2)]
  moreover have "judged e (Option.bind e kmreq) = None \<longleftrightarrow> cc = None"
    "keyed_pair cp (judged e (Option.bind e kmreq)) b"
    using e(2,3) by (auto simp: kmx_ready_def judged_def split: option.splits)
  ultimately show ?thesis
    using assms(5,6,7,11,13) e(3)
    by (simp add: handshake_exchange_def c_def [symmetric] l_def [symmetric] c2 l(1) agreed_def)
qed

text \<open>
  C4.  The handshake agrees.  A caller and a listener whose options are usable and whose
  passphrases match (or are both absent) always establish, when each request is answered before
  the connect timeout and the CONCLUSION arrives in the minute of its cookie or the next.  Through
  the encoded packets both ends obtain the same connection: crossed socket ids and flow windows, the
  caller's initial sequence number both ways, the smaller MSS, each direction's latency the larger of
  the receiver's setting and the sender's proposal, the caller's stream id, and either no encryption or
  engines each of which reads everything the other encrypts.
\<close>

theorem handshake_agrees:
  assumes "prims_ok cp"
    and "crypto_config_of co = Ok cc" "crypto_config_of lo = Ok lc"
    and "map_option cc_passphrase cc = map_option cc_passphrase lc"
    and "hs_options_ok co" "hs_options_ok lo" "raw isn < SEQ_MASK"
    and "start \<le> t 0" "t 0 \<le> t 1" "t 1 \<le> t 2" "t 2 \<le> t 3" "t 3 \<le> t 4" "t 3 < start + op_connect_timeout co"
    and "cookie_minute (listener_new secret ltb lo) (t 4) \<le> cookie_minute (listener_new secret ltb lo) (t 1) + 1"
  shows "\<exists>nc nl. handshake_exchange cp hsh rs rk (caller_new start remote cid isn ctb co)
        (listener_new secret ltb lo) from lid t = Some (nc, nl)
    \<and> ng_local_socket_id nc = cid \<and> ng_peer_socket_id nl = cid
    \<and> ng_local_socket_id nl = lid \<and> ng_peer_socket_id nc = lid
    \<and> {ng_send_initial_seq nc, ng_recv_initial_seq nc, ng_send_initial_seq nl, ng_recv_initial_seq nl} = {isn}
    \<and> ng_mss nc = min (op_mss lo) (op_mss co) \<and> ng_mss nl = ng_mss nc
    \<and> ng_flow_window nc = op_flow_window lo \<and> ng_flow_window nl = op_flow_window co
    \<and> ng_rcv_latency nc = max (op_peer_latency lo) (op_latency co) \<and> ng_snd_latency nl = ng_rcv_latency nc
    \<and> ng_rcv_latency nl = max (op_latency lo) (op_peer_latency co) \<and> ng_snd_latency nc = ng_rcv_latency nl
    \<and> ng_streamid nc = op_streamid co \<and> ng_streamid nl = op_streamid co
    \<and> (case (ng_crypto nc, ng_crypto nl) of
         (None, None) \<Rightarrow> cc = None
       | (Some a, Some b) \<Rightarrow> cc \<noteq> None \<and> (\<forall>sq p. reads_back cp a b sq p \<and> reads_back cp b a sq p)
       | _ \<Rightarrow> False)"
  using exchange_agrees [OF assms, of hsh rs rk remote cid ctb "from" lid] keyed_for_reads_back [OF assms(1)]
  by (elim ex_forward) (auto simp: agreed_def keyed_pair_def split: option.splits)

definition demo_addr :: "u16 \<Rightarrow> socket_addr" where
  "demo_addr port = \<lparr> sa_ip = (127, 0, 0, 1), sa_port = port \<rparr>"

definition demo_options :: "bytes option \<Rightarrow> srt_options" where
  "demo_options pw = default_options\<lparr> op_passphrase := pw, op_streamid := Some [0x61, 0x62] \<rparr>"

lemma utf8_valid_ascii: "b < 0x80 \<Longrightarrow> utf8_valid (b # bs) = utf8_valid bs"
  by (subst utf8_valid.simps) (simp add: utf8_step_def char_width_def safe_get_def)

lemma demo_options_ok: "hs_options_ok (demo_options pw)"
  by (simp add: hs_options_ok_def demo_options_def default_options_def whole_ms_def from_millis_def
      utf8_valid_ascii)

lemma demo_options_config:
  "crypto_config_of (demo_options (Some (replicate 12 65))) =
     Ok (Some \<lparr> cc_passphrase = replicate 12 65, cc_key_len = Aes128, cc_km_refresh_rate = 0x01000000,
                cc_km_preannounce = 0x10000 \<rparr>)"
  by (simp add: crypto_config_of_def demo_options_def default_options_def PASSPHRASE_MIN_def PASSPHRASE_MAX_def)

theorem handshake_agrees_witness:
  "\<exists>nc nl. handshake_exchange demo_prims (\<lambda>s ip p m. s + of_nat m) [1] [2]
        (caller_new 0 (demo_addr 9000) (SocketId 5) (SeqNumber 77) \<lparr> tb_start = 0 \<rparr> (demo_options (Some (replicate 12 65))))
        (listener_new 3 \<lparr> tb_start = 0 \<rparr> (demo_options (Some (replicate 12 65)))) (demo_addr 4000) (SocketId 6) (\<lambda>i. 1000 * i)
      = Some (nc, nl)
    \<and> ng_peer_socket_id nc = SocketId 6 \<and> ng_peer_socket_id nl = SocketId 5
    \<and> ng_crypto nc \<noteq> None \<and> ng_crypto nl \<noteq> None"
proof -
  let ?o = "demo_options (Some (replicate 12 65))" and ?t = "\<lambda>i :: nat. 1000 * i"
  let ?l = "listener_new 3 \<lparr> tb_start = 0 \<rparr> ?o"
  have time: "0 \<le> ?t 0" "?t 0 \<le> ?t 1" "?t 1 \<le> ?t 2" "?t 2 \<le> ?t 3" "?t 3 \<le> ?t 4"
      "?t 3 < 0 + op_connect_timeout ?o" "cookie_minute ?l (?t 4) \<le> cookie_minute ?l (?t 1) + 1"
    by (simp_all add: demo_options_def default_options_def from_secs_def cookie_minute_def listener_new_def)
  have isn: "raw (SeqNumber 77) < SEQ_MASK" by (simp add: SEQ_MASK_def)
  show ?thesis
    using handshake_agrees [OF demo_prims_ok demo_options_config demo_options_config refl
        demo_options_ok demo_options_ok isn time, of "\<lambda>s ip p m. s + of_nat m" "[1]" "[2]"
        "demo_addr 9000" "SocketId 5" "\<lparr> tb_start = 0 \<rparr>" "demo_addr 4000" "SocketId 6"]
    by (elim ex_forward) (auto split: option.splits)
qed

end
