(* ===== verification/Handshake_Safety.thy ===== *)
theory Handshake_Safety
  imports Handshake_Props
begin

text \<open>
  What holds of each side of the handshake against an arbitrary peer: the caller under any sequence
  of received handshakes and polls, and the listener on any request.
\<close>

section \<open>The caller as a machine\<close>

datatype caller_event = CallerRecv instant handshake_cif bytes bytes | CallerPoll instant

record caller_run =
  cl_hs :: caller_handshake
  cl_now :: instant
  cl_sent :: nat
  cl_result :: "negotiated option"
  cl_panicked :: bool

fun caller_step :: "crypto_prims \<Rightarrow> caller_run \<Rightarrow> caller_event \<Rightarrow> caller_run" where
  "caller_step cp s (CallerRecv now cif rs rk) =
     (let (h, r) = caller_handle_handshake cp rs rk (cl_hs s) now cif in
      s\<lparr> cl_hs := h, cl_now := now,
         cl_result := (case r of Ok (Some n) \<Rightarrow> Some n | _ \<Rightarrow> cl_result s),
         cl_panicked := (cl_panicked s \<or> r = Panic) \<rparr>)"
| "caller_step cp s (CallerPoll now) =
     (let (h, p) = caller_poll_transmit (cl_hs s) now in
      s\<lparr> cl_hs := h, cl_now := now, cl_sent := (if p = None then cl_sent s else Suc (cl_sent s)) \<rparr>)"

fun caller_event_time :: "caller_event \<Rightarrow> instant" where
  "caller_event_time (CallerRecv now _ _ _) = now"
| "caller_event_time (CallerPoll now) = now"

definition caller_start ::
  "instant \<Rightarrow> socket_addr \<Rightarrow> socket_id \<Rightarrow> seq_number \<Rightarrow> timebase \<Rightarrow> srt_options \<Rightarrow> caller_run" where
  "caller_start now remote cid isn tb opts =
     \<lparr> cl_hs = caller_new now remote cid isn tb opts, cl_now = now, cl_sent = 0, cl_result = None,
       cl_panicked = False \<rparr>"

text \<open>
  The engine exists exactly while it should, and every request sent has used up one retry interval,
  but for the one interval that the transition to the conclusion phase may cut short.
\<close>

definition caller_crypto_inv :: "crypto_config option \<Rightarrow> caller_run \<Rightarrow> bool" where
  "caller_crypto_inv cc s =
     (case ch_state (cl_hs s) of
        CsInduction \<Rightarrow> ch_crypto_cfg (cl_hs s) = cc \<and> ch_crypto (cl_hs s) = None \<and> cl_result s = None
      | CsConclusion _ \<Rightarrow> (ch_crypto (cl_hs s) = None \<longleftrightarrow> cc = None) \<and> cl_result s = None
      | CsEstablished \<Rightarrow> (case cl_result s of
          Some n \<Rightarrow> (ng_crypto n = None \<longleftrightarrow> cc = None)
            \<and> (\<forall>e. ng_crypto n = Some e \<longrightarrow>
                 (cr_snd_state e, cr_rcv_state e) \<in> {(KmSecured, KmSecured), (KmUnsecured, KmNoSecret)})
        | None \<Rightarrow> False)
      | CsFailed \<Rightarrow> cl_result s = None)"

definition caller_budget_inv :: "instant \<Rightarrow> duration \<Rightarrow> caller_run \<Rightarrow> bool" where
  "caller_budget_inv start timeout s \<longleftrightarrow>
     ch_deadline (cl_hs s) = start + timeout
   \<and> ch_next_send (cl_hs s) \<le> cl_now s + HS_RETRY_INTERVAL
   \<and> cl_sent s * HS_RETRY_INTERVAL < timeout + 2 * HS_RETRY_INTERVAL
   \<and> (case ch_state (cl_hs s) of
        CsInduction \<Rightarrow> cl_sent s * HS_RETRY_INTERVAL + start \<le> ch_next_send (cl_hs s)
      | CsConclusion _ \<Rightarrow> cl_sent s * HS_RETRY_INTERVAL + start \<le> ch_next_send (cl_hs s) + HS_RETRY_INTERVAL
      | _ \<Rightarrow> True)"

definition caller_inv :: "crypto_config option \<Rightarrow> instant \<Rightarrow> duration \<Rightarrow> caller_run \<Rightarrow> bool" where
  "caller_inv cc start timeout s \<longleftrightarrow>
     caller_crypto_inv cc s \<and> caller_budget_inv start timeout s \<and> \<not> cl_panicked s"

lemma judge_kmx_engine:
  assumes "judge_kmx c cif = (e, None)"
  shows "e = None \<longleftrightarrow> ch_crypto c = None"
    and "e = Some x \<Longrightarrow> (cr_snd_state x, cr_rcv_state x) \<in> {(KmSecured, KmSecured), (KmUnsecured, KmNoSecret)}"
  using assms
  by (auto simp: judge_kmx_def handle_kmrsp_def peer_km_failure_def Let_def
      split: option.splits if_splits prod.splits outcome.splits km_response.splits km_state.splits)

lemma judge_kmx_inv:
  assumes "judge_kmx c cif = (e, v)" "\<forall>x. ch_crypto c = Some x \<longrightarrow> crypto_inv cp x"
  shows "\<forall>x. e = Some x \<longrightarrow> crypto_inv cp x"
proof (cases "ch_crypto c")
  case (Some a)
  then show ?thesis
    using assms handle_kmrsp_inv [of cp a] by (auto simp: judge_kmx_def Let_def split_beta split: option.splits)
qed (use assms in \<open>simp add: judge_kmx_def\<close>)

lemma on_induction_response_cases:
  assumes "prims_ok cp"
  obtains (ignored) "on_induction_response cp rs rk c now cif = (c, Ok None)"
  | (failed) err where "on_induction_response cp rs rk c now cif = (c\<lparr> ch_state := CsFailed \<rparr>, Err err)"
  | (advanced) e where "e = None \<longleftrightarrow> ch_crypto_cfg c = None" "\<forall>x. e = Some x \<longrightarrow> crypto_inv cp x"
      "on_induction_response cp rs rk c now cif = (mid_caller c (hc_cookie cif) (hc_encryption cif) e now, Ok None)"
proof (cases "hc_handshake_type cif = Induction \<and> \<not> hc_version cif \<le> HS_VERSION_UDT4")
  case False
  then show thesis
    using ignored failed by (cases "hc_handshake_type cif = Induction") (simp_all add: on_induction_response_def caller_fail_def)
next
  case True
  show thesis
  proof (cases "ch_crypto_cfg c")
    case None
    then show thesis
      using True advanced [of None] by (simp add: on_induction_response_def mid_caller_def Let_def)
  next
    case (Some cfg)
    obtain a m where "new_initiator cp rs rk (adopt_peer_pbkeylen cfg (hc_encryption cif)) = (Ok a :: (_, srt_error) outcome)"
        "crypto_inv cp a"
      using assms by (rule new_initiator_Ok)
    then show thesis
      using True Some advanced [of "Some a"] by (simp add: on_induction_response_def mid_caller_def Let_def)
  qed
qed

lemma on_conclusion_response_cases:
  "on_conclusion_response c cif = (c, Ok None)
   \<or> (\<exists>e err. on_conclusion_response c cif = (c\<lparr> ch_crypto := e, ch_state := CsFailed \<rparr>, Err err))
   \<or> (\<exists>n. judge_kmx c cif = (ng_crypto n, None)
        \<and> on_conclusion_response c cif = (c\<lparr> ch_crypto := None, ch_state := CsEstablished \<rparr>, Ok (Some n)))"
proof -
  have keep: "\<exists>e. c\<lparr> ch_state := CsFailed \<rparr> = c\<lparr> ch_crypto := e, ch_state := CsFailed \<rparr>"
    by (rule exI [of _ "ch_crypto c"]) simp
  show ?thesis
    unfolding on_conclusion_response_def caller_fail_def Let_def
    by (auto simp: keep split: prod.splits option.splits)
qed

lemma caller_handle_cases:
  assumes "prims_ok cp"
  obtains (ignored) "caller_handle_handshake cp rs rk c now cif = (c, Ok None)"
  | (failed) e err where "caller_handle_handshake cp rs rk c now cif = (c\<lparr> ch_crypto := e, ch_state := CsFailed \<rparr>, Err err)"
      "waiting_reply c"
  | (advanced) k advert e where "ch_state c = CsInduction" "e = None \<longleftrightarrow> ch_crypto_cfg c = None"
      "\<forall>x. e = Some x \<longrightarrow> crypto_inv cp x"
      "caller_handle_handshake cp rs rk c now cif = (mid_caller c k advert e now, Ok None)"
  | (established) k n where "ch_state c = CsConclusion k" "judge_kmx c cif = (ng_crypto n, None)"
      "caller_handle_handshake cp rs rk c now cif = (c\<lparr> ch_crypto := None, ch_state := CsEstablished \<rparr>, Ok (Some n))"
proof -
  have rej: "caller_fail c err = (c\<lparr> ch_crypto := ch_crypto c, ch_state := CsFailed \<rparr>, Err err)" for err
    by (simp add: caller_fail_def)
  consider (over) "\<not> waiting_reply c" | (rejected) code where "waiting_reply c" "hc_handshake_type cif = Rejection code"
    | (ind) "ch_state c = CsInduction" "caller_handle_handshake cp rs rk c now cif = on_induction_response cp rs rk c now cif"
    | (con) k where "ch_state c = CsConclusion k" "caller_handle_handshake cp rs rk c now cif = on_conclusion_response c cif"
    by (cases "ch_state c"; cases "hc_handshake_type cif") (auto simp: waiting_reply_def caller_handle_handshake_def)
  then show thesis
  proof cases
    case over
    then have "caller_handle_handshake cp rs rk c now cif = (c, Ok None)"
      by (cases "ch_state c") (simp_all add: waiting_reply_def caller_handle_handshake_def)
    then show thesis by (rule ignored)
  next
    case (rejected code)
    then have "\<exists>err. caller_handle_handshake cp rs rk c now cif = caller_fail c err"
      by (cases "ch_state c") (auto simp: waiting_reply_def caller_handle_handshake_def)
    then show thesis using failed rejected(1) unfolding rej by blast
  next
    case ind
    have w: "waiting_reply c" using ind(1) by (simp add: waiting_reply_def)
    from assms show thesis
    proof (cases rule: on_induction_response_cases [where rs = rs and rk = rk and c = c and now = now and cif = cif])
      case (failed err)
      then show thesis using rej [of err] that(2) [of "ch_crypto c" err] w ind(2) by (simp add: caller_fail_def)
    qed (use that(1,3) ind in simp_all)
  next
    case (con k)
    have "waiting_reply c" using con(1) by (simp add: waiting_reply_def)
    then show thesis
      using on_conclusion_response_cases [of c cif] that(1,2,4) con by metis
  qed
qed

lemma retry_pos: "0 < HS_RETRY_INTERVAL"
  by (simp add: HS_RETRY_INTERVAL_def from_millis_def)

lemma caller_recv_inv:
  assumes "prims_ok cp" "caller_inv cc start timeout s" "cl_now s \<le> now"
  shows "caller_inv cc start timeout (caller_step cp s (CallerRecv now cif rs rk))"
  using assms(1)
proof (cases rule: caller_handle_cases [where rs = rs and rk = rk and c = "cl_hs s" and now = now and cif = cif])
  case ignored
  then show ?thesis
    using assms(2,3) by (auto simp: caller_inv_def caller_crypto_inv_def caller_budget_inv_def split: caller_state.splits)
next
  case (failed e err)
  then show ?thesis
    using assms(2,3)
    by (cases "ch_state (cl_hs s)")
      (auto simp: caller_inv_def caller_crypto_inv_def caller_budget_inv_def waiting_reply_def)
next
  case (advanced k advert e)
  then show ?thesis
    using assms(2,3) by (auto simp: caller_inv_def caller_crypto_inv_def caller_budget_inv_def mid_caller_def)
next
  case (established k n)
  then show ?thesis
    using assms(2,3) judge_kmx_engine [OF established(2)]
    by (auto simp: caller_inv_def caller_crypto_inv_def caller_budget_inv_def)
qed

lemma caller_poll_cases:
  obtains (idle) "caller_poll_transmit c now = (c, None)"
  | (sent) p where "caller_poll_transmit c now = (c\<lparr> ch_next_send := now + HS_RETRY_INTERVAL \<rparr>, Some p)"
      "waiting_reply c" "now < ch_deadline c" "ch_next_send c \<le> now"
proof (cases "\<not> waiting_reply c \<or> caller_is_timed_out c now \<or> now < ch_next_send c")
  case True
  then show thesis by (intro idle) (simp add: caller_poll_transmit_def)
next
  case False
  then show thesis
    using sent by (simp add: caller_poll_transmit_def caller_is_timed_out_def Let_def)
qed

lemma caller_poll_inv:
  assumes "caller_inv cc start timeout s" "cl_now s \<le> now"
  shows "caller_inv cc start timeout (caller_step cp s (CallerPoll now))"
proof (cases rule: caller_poll_cases [of "cl_hs s" now])
  case idle
  then show ?thesis
    using assms by (auto simp: caller_inv_def caller_crypto_inv_def caller_budget_inv_def split: caller_state.splits)
next
  case (sent p)
  then show ?thesis
    using assms
    by (cases "ch_state (cl_hs s)")
      (auto simp: caller_inv_def caller_crypto_inv_def caller_budget_inv_def waiting_reply_def)
qed

interpretation caller: inv_machine "caller_step cp" "\<lambda>s e. cl_now s \<le> caller_event_time e"
  "\<lambda>s. prims_ok cp \<and> caller_inv cc start timeout s" for cp cc start timeout
proof (unfold_locales, elim conjE)
  fix s e
  assume "prims_ok cp" "caller_inv cc start timeout s" "cl_now s \<le> caller_event_time e"
  then show "prims_ok cp \<and> caller_inv cc start timeout (caller_step cp s e)"
    using caller_recv_inv caller_poll_inv by (cases e) auto
qed

lemma caller_start_inv:
  assumes "crypto_config_of opts = Ok cc"
  shows "caller_inv cc start (op_connect_timeout opts) (caller_start start remote cid isn tb opts)"
  using assms retry_pos
  by (simp add: caller_inv_def caller_crypto_inv_def caller_budget_inv_def caller_start_def caller_new_def)

text \<open>A caller that is not waiting for a reply stays as it is.\<close>

lemma caller_final:
  assumes "\<not> waiting_reply (cl_hs s)"
  shows "cl_hs (caller_step cp s e) = cl_hs s \<and> cl_sent (caller_step cp s e) = cl_sent s
    \<and> cl_result (caller_step cp s e) = cl_result s"
  using assms
  by (cases e; cases "ch_state (cl_hs s)")
    (simp_all add: waiting_reply_def caller_handle_handshake_def caller_poll_transmit_def)

lemma caller_final_run:
  assumes "\<not> waiting_reply (cl_hs s)"
  shows "cl_hs (foldl (caller_step cp) s es) = cl_hs s \<and> cl_sent (foldl (caller_step cp) s es) = cl_sent s
    \<and> cl_result (foldl (caller_step cp) s es) = cl_result s"
  using assms by (induction es arbitrary: s) (simp_all add: caller_final)

section \<open>Guarantees\<close>

definition demo_cif :: "handshake_type \<Rightarrow> hs_extension list \<Rightarrow> handshake_cif" where
  "demo_cif ht exts = \<lparr> hc_version = 5, hc_encryption = 0, hc_extension_field = 1, hc_initial_seq = SeqNumber 77,
     hc_mss = 1500, hc_flow_window = 8192, hc_handshake_type = ht, hc_socket_id = SocketId 6, hc_cookie = 9,
     hc_peer_ip = replicate 16 0, hc_extensions = exts \<rparr>"

definition demo_hsrsp :: hs_extension where
  "demo_hsrsp = HsRsp \<lparr> he_srt_version = SRT_VERSION, he_flags = live_defaults, he_recv_latency_ms = 120,
     he_send_latency_ms = 120 \<rparr>"

definition demo_caller :: caller_run where
  "demo_caller = caller_start 0 (demo_addr 9000) (SocketId 5) (SeqNumber 77) \<lparr> tb_start = 0 \<rparr> (demo_options None)"

definition demo_caller_events :: "caller_event list" where
  "demo_caller_events = [CallerPoll 0, CallerRecv 1 (demo_cif Induction []) [] [], CallerPoll 2,
     CallerRecv 3 (demo_cif Conclusion [demo_hsrsp]) [] []]"

lemmas caller_eval = demo_caller_events_def demo_caller_def caller_start_def caller_new_def demo_options_def
  default_options_def crypto_config_of_def caller_poll_transmit_def caller_is_timed_out_def waiting_reply_def
  from_secs_def Let_def caller_handle_handshake_def on_induction_response_def on_conclusion_response_def
  demo_cif_def demo_hsrsp_def HS_VERSION_UDT4_def HS_EXT_HSREQ_def hs_version_live judge_kmx_def cif_valid_def

lemma demo_caller_run:
  "caller.run_ok demo_prims demo_caller demo_caller_events"
  "cl_result (foldl (caller_step demo_prims) demo_caller demo_caller_events) \<noteq> None"
  "cl_sent (foldl (caller_step demo_prims) demo_caller demo_caller_events) = 2"
  by (simp_all add: caller_eval)

text \<open>
  C11.  A caller enforces encryption.  Whatever handshakes a peer sends and whenever the caller is
  polled, it never panics; if it establishes, its options were valid and it has an engine exactly
  when a passphrase was set, confirmed by the echo or reported unsecured by the peer; and with
  invalid options it sends nothing at all.
\<close>

theorem caller_enforces_encryption:
  assumes "prims_ok cp"
    and "caller.run_ok cp (caller_start start remote cid isn tb opts) es"
    and "s = foldl (caller_step cp) (caller_start start remote cid isn tb opts) es"
  shows "\<not> cl_panicked s
    \<and> (case cl_result s of
         None \<Rightarrow> True
       | Some n \<Rightarrow> (case crypto_config_of opts of
           Ok cc \<Rightarrow> (ng_crypto n = None \<longleftrightarrow> cc = None)
             \<and> (\<forall>e. ng_crypto n = Some e \<longrightarrow>
                  (cr_snd_state e, cr_rcv_state e) \<in> {(KmSecured, KmSecured), (KmUnsecured, KmNoSecret)})
         | _ \<Rightarrow> False))
    \<and> (case crypto_config_of opts of Ok _ \<Rightarrow> True | _ \<Rightarrow> cl_sent s = 0)"
proof (cases "\<exists>cc. crypto_config_of opts = Ok cc")
  case True
  then obtain cc where cc: "crypto_config_of opts = Ok cc" by blast
  have "caller_inv cc start (op_connect_timeout opts) s"
    using caller.run_inv [of cp cc start "op_connect_timeout opts"] caller_start_inv [OF cc] assms by blast
  then show ?thesis
    using cc by (auto simp: caller_inv_def caller_crypto_inv_def split: caller_state.splits option.splits)
next
  case False
  then have st: "\<not> waiting_reply (cl_hs (caller_start start remote cid isn tb opts))"
    by (cases "crypto_config_of opts") (auto simp: caller_start_def caller_new_def waiting_reply_def)
  have "\<not> cl_panicked (foldl (caller_step cp) r es)" if "\<not> waiting_reply (cl_hs r)" "\<not> cl_panicked r" for r
    using that
  proof (induction es arbitrary: r)
    case (Cons e es)
    then have "\<not> cl_panicked (caller_step cp r e)"
      by (cases e; cases "ch_state (cl_hs r)")
        (simp_all add: waiting_reply_def caller_handle_handshake_def caller_poll_transmit_def)
    then show ?case using Cons caller_final [of r cp e] by simp
  qed simp
  then show ?thesis
    using False st caller_final_run [OF st, of cp es] assms(3)
    by (auto simp: caller_start_def split: outcome.splits)
qed

theorem caller_enforces_encryption_witness:
  "let s = foldl (caller_step demo_prims) demo_caller demo_caller_events in
   caller.run_ok demo_prims demo_caller demo_caller_events
   \<and> (\<exists>n. cl_result s = Some n \<and> ng_crypto n = None) \<and> \<not> cl_panicked s"
  using caller_enforces_encryption [OF demo_prims_ok demo_caller_run(1) [unfolded demo_caller_def] refl] demo_caller_run
  unfolding demo_caller_def [symmetric] Let_def
  by (auto simp: crypto_config_of_def demo_options_def default_options_def split: option.splits)

text \<open>
  C32.  A caller ends.  It sends at most one request per retry interval of the connect timeout and
  two more; while it waits it names a deadline, before which a poll does nothing and from which on a
  poll sends the request again or the attempt has timed out; and once established or failed it never
  sends or changes again.
\<close>

theorem caller_ends:
  assumes "prims_ok cp" "crypto_config_of opts = Ok cc"
    and "caller.run_ok cp (caller_start start remote cid isn tb opts) es"
    and "s = foldl (caller_step cp) (caller_start start remote cid isn tb opts) es"
  shows "cl_sent s * HS_RETRY_INTERVAL < op_connect_timeout opts + 2 * HS_RETRY_INTERVAL
    \<and> (case caller_next_deadline (cl_hs s) of
         Some d \<Rightarrow> d \<le> start + op_connect_timeout opts
           \<and> (snd (caller_poll_transmit (cl_hs s) now) \<noteq> None \<or> caller_is_timed_out (cl_hs s) now) = (d \<le> now)
       | None \<Rightarrow> cl_hs (foldl (caller_step cp) s es') = cl_hs s
           \<and> cl_sent (foldl (caller_step cp) s es') = cl_sent s)"
proof -
  have inv: "caller_budget_inv start (op_connect_timeout opts) s"
    using caller.run_inv [of cp cc start "op_connect_timeout opts"] caller_start_inv [OF assms(2)] assms
    unfolding caller_inv_def by blast
  show ?thesis
  proof (cases "waiting_reply (cl_hs s)")
    case True
    then show ?thesis
      using inv by (auto simp: caller_budget_inv_def caller_next_deadline_def caller_poll_transmit_def
          caller_is_timed_out_def Let_def)
  next
    case False
    then show ?thesis
      using inv caller_final_run [OF False, of cp es'] by (simp add: caller_budget_inv_def caller_next_deadline_def)
  qed
qed

theorem caller_ends_witness:
  "let s = foldl (caller_step demo_prims) demo_caller demo_caller_events in
   caller.run_ok demo_prims demo_caller demo_caller_events \<and> caller_next_deadline (cl_hs s) = None
   \<and> cl_sent s * HS_RETRY_INTERVAL < from_secs 3 + 2 * HS_RETRY_INTERVAL
   \<and> cl_sent (foldl (caller_step demo_prims) s [CallerPoll 9]) = 2"
proof -
  have cfg: "crypto_config_of (demo_options None) = Ok None" "op_connect_timeout (demo_options None) = from_secs 3"
    by (simp_all add: crypto_config_of_def demo_options_def default_options_def)
  have "caller_next_deadline (cl_hs (foldl (caller_step demo_prims) demo_caller demo_caller_events)) = None"
    by (simp add: caller_eval caller_next_deadline_def)
  then show ?thesis
    using caller_ends [OF demo_prims_ok cfg(1) demo_caller_run(1) [unfolded demo_caller_def] refl, where es' = "[CallerPoll 9]"]
      demo_caller_run
    unfolding demo_caller_def [symmetric] Let_def cfg(2) by simp
qed

section \<open>The listener\<close>

lemma new_responder_total:
  assumes "prims_ok cp"
  shows "(\<exists>st. new_responder cp cfg req = Err st)
    \<or> (\<exists>e. new_responder cp cfg req = Ok e \<and> crypto_inv cp e \<and> cc_passphrase (cr_cfg e) = cc_passphrase cfg)"
  using assms by (cases rule: new_responder_cases [where req = req and ?cfg0.0 = cfg]) auto

lemma listener_kmx_cases:
  assumes "prims_ok cp"
  shows "(\<exists>code. listener_kmx cp l cif = Err code)
    \<or> (\<exists>e km cc. listener_kmx cp l cif = Ok (e, km) \<and> ls_crypto_cfg l = Ok cc
        \<and> map_option cc_passphrase cc = map_option (\<lambda>x. cc_passphrase (cr_cfg x)) e
        \<and> (\<forall>x. e = Some x \<longrightarrow> crypto_inv cp x))"
proof (cases "ls_crypto_cfg l")
  case (Ok cc)
  show ?thesis
  proof (cases "cc = None \<or> find_map ext_kmreq (hc_extensions cif) = None")
    case True
    then show ?thesis by (auto simp: listener_kmx_def Ok split: option.splits)
  next
    case False
    then obtain cf km where "cc = Some cf" "find_map ext_kmreq (hc_extensions cif) = Some km" by auto
    then show ?thesis
      using new_responder_total [OF assms, of cf km] by (auto simp: listener_kmx_def Ok)
  qed
qed (simp_all add: listener_kmx_def)

lemma hs_ext_present: "list_ex is_hs_block bs \<Longrightarrow> hs_ext (cif\<lparr> hc_extensions := bs \<rparr>) \<noteq> None"
proof (induction bs)
  case (Cons b bs)
  then show ?case by (cases b) (simp_all add: hs_ext_def)
qed simp

lemma bare_handshake_size:
  assumes "hc_extensions cif = []" "length (hc_peer_ip cif) = 16"
  shows "length (packet_encode (listener_packet l now dst cif) []) = 64"
  using assms
  by (simp add: listener_packet_def control_encode_eq encode_cif_def Let_def be32_def be16_def)

lemma rejection_small:
  assumes "length (hc_peer_ip cif) = 16"
  shows "\<exists>p. rejection l now cif code = ActReply p \<and> packet_dst_socket_id p = hc_socket_id cif
    \<and> length (packet_encode p []) = 64"
  using assms bare_handshake_size [of "cif\<lparr> hc_handshake_type := Rejection code, hc_extensions := [] \<rparr>"]
  by (simp add: rejection_def) (simp add: listener_packet_def)

text \<open>What the listener guarantees of the action it takes on a request.\<close>

definition action_sound ::
  "crypto_prims \<Rightarrow> hasher \<Rightarrow> listener \<Rightarrow> instant \<Rightarrow> socket_addr \<Rightarrow> handshake_cif \<Rightarrow> socket_id \<Rightarrow> listener_action \<Rightarrow> bool" where
  "action_sound cp hsh l now from cif new_id act =
     (case act of
        ActDrop \<Rightarrow> True
      | ActReply p \<Rightarrow> packet_dst_socket_id p = hc_socket_id cif \<and> length (packet_encode p []) = 64
      | ActAccept p n \<Rightarrow>
          hc_handshake_type cif = Conclusion \<and> cif_valid cif \<and> cookie_ok hsh l now from (hc_cookie cif)
        \<and> packet_dst_socket_id p = hc_socket_id cif \<and> ng_remote n = from
        \<and> ng_local_socket_id n = new_id \<and> ng_peer_socket_id n = hc_socket_id cif
        \<and> op_latency (ls_opts l) \<le> ng_rcv_latency n \<and> op_peer_latency (ls_opts l) \<le> ng_snd_latency n
        \<and> ng_mss n \<le> op_mss (ls_opts l) \<and> ng_mss n \<le> hc_mss cif
        \<and> (case ls_crypto_cfg l of
             Ok cc \<Rightarrow> map_option cc_passphrase cc = map_option (\<lambda>x. cc_passphrase (cr_cfg x)) (ng_crypto n)
           | _ \<Rightarrow> False)
        \<and> (case ng_crypto n of Some x \<Rightarrow> crypto_inv cp x | None \<Rightarrow> True))"

lemma rejection_sound: "length (hc_peer_ip cif) = 16 \<Longrightarrow> action_sound cp hsh l now from cif new_id (rejection l now cif code)"
  using rejection_small [of cif l now code] by (auto simp: action_sound_def)

lemma accept_sound:
  assumes "hc_handshake_type cif = Conclusion" "cif_valid cif" "cookie_ok hsh l now from (hc_cookie cif)"
    and "ls_crypto_cfg l = Ok cc" "map_option cc_passphrase cc = map_option (\<lambda>x. cc_passphrase (cr_cfg x)) e"
    and "\<forall>x. e = Some x \<longrightarrow> crypto_inv cp x"
  shows "action_sound cp hsh l now from cif new_id (accept_conclusion l now from cif new_id hs e km)"
  using assms by (auto simp: action_sound_def accept_conclusion_def Let_def listener_packet_def split: option.splits)

lemma on_conclusion_sound:
  assumes "prims_ok cp" "length (hc_peer_ip cif) = 16" "hc_handshake_type cif = Conclusion"
  shows "\<exists>act. on_conclusion cp hsh l now from cif new_id = Ok act \<and> action_sound cp hsh l now from cif new_id act"
proof (cases "cif_valid cif \<and> cookie_ok hsh l now from (hc_cookie cif)")
  case False
  then show ?thesis by (auto simp: on_conclusion_def action_sound_def)
next
  case ok: True
  note rej = rejection_sound [OF assms(2), of cp hsh l now "from" new_id]
  show ?thesis
  proof (cases "hs_ext cif")
    case None
    then have "\<not> list_ex is_hs_block (hc_extensions cif)"
      using hs_ext_present [of "hc_extensions cif" cif] by auto
    then show ?thesis using ok rej by (simp add: on_conclusion_def)
  next
    case (Some hs)
    show ?thesis
      using ok rej listener_kmx_cases [OF assms(1), of l cif] accept_sound [OF assms(3), of hsh l now "from" _ _ cp new_id hs] Some
      by (auto simp: on_conclusion_def Let_def split: option.splits)
  qed
qed

lemma listener_handshake_sound:
  assumes "prims_ok cp" "length (hc_peer_ip cif) = 16"
  shows "\<exists>act. listener_handle_handshake cp hsh l now from cif new_id = Ok act
    \<and> action_sound cp hsh l now from cif new_id act"
proof (cases "hc_handshake_type cif")
  case Induction
  have "length (packet_encode (listener_packet l now (hc_socket_id cif)
      (cif\<lparr> hc_version := HS_VERSION_SRT1, hc_encryption := advert_of (ls_opts l), hc_extension_field := SRT_MAGIC,
        hc_cookie := listener_cookie hsh l now from, hc_extensions := [] \<rparr>)) []) = 64"
    using assms(2) by (intro bare_handshake_size) simp_all
  then show ?thesis
    by (simp add: listener_handle_handshake_def Induction on_induction_def action_sound_def)
      (simp add: listener_packet_def)
next
  case Conclusion
  then show ?thesis
    using on_conclusion_sound [OF assms Conclusion, of hsh l now "from" new_id] by (simp add: listener_handle_handshake_def)
qed (simp_all add: listener_handle_handshake_def action_sound_def)

text \<open>
  C12.  A listener is safe against any request.  It never panics; an answer to an INDUCTION or a
  rejection goes back to the requesting socket id and is a bare 64-byte handshake, the smallest a
  request can be, so the listener cannot be used to amplify traffic; and it accepts only a CONCLUSION
  carrying a cookie it issued to that address in this minute or the last, under valid local options,
  with an engine sharing the configured passphrase exactly when one is configured, and never with
  less latency than its own settings or a larger MSS than either side offered.
\<close>

theorem listener_safe:
  assumes "prims_ok cp" "length (hc_peer_ip cif) = 16"
  shows "\<exists>act. listener_handle_handshake cp hsh l now from cif new_id = Ok act
    \<and> action_sound cp hsh l now from cif new_id act"
  using assms by (rule listener_handshake_sound)

theorem listener_safe_witness:
  "\<exists>p n. listener_handle_handshake demo_prims (\<lambda>s ip p m. s + of_nat m)
      (listener_new 9 \<lparr> tb_start = 0 \<rparr> (demo_options None)) 5 (demo_addr 4000) (demo_cif Conclusion [demo_hsrsp]) (SocketId 8)
      = Ok (ActAccept p n)
    \<and> action_sound demo_prims (\<lambda>s ip p m. s + of_nat m) (listener_new 9 \<lparr> tb_start = 0 \<rparr> (demo_options None)) 5
        (demo_addr 4000) (demo_cif Conclusion [demo_hsrsp]) (SocketId 8) (ActAccept p n)"
proof -
  let ?cif = "demo_cif Conclusion [demo_hsrsp]"
  have "\<exists>p n. listener_handle_handshake demo_prims (\<lambda>s ip p m. s + of_nat m)
      (listener_new 9 \<lparr> tb_start = 0 \<rparr> (demo_options None)) 5 (demo_addr 4000) ?cif (SocketId 8) = Ok (ActAccept p n)"
    by (simp add: listener_handle_handshake_def on_conclusion_def caller_eval cookie_ok_def cookie_at_def
        cookie_minute_def listener_new_def HS_VERSION_SRT1_def HS_EXT_KMREQ_def hs_ext_def listener_kmx_def
        accept_conclusion_def)
  then show ?thesis
    using listener_safe [OF demo_prims_ok, of ?cif "\<lambda>s ip p m. s + of_nat m"
        "listener_new 9 \<lparr> tb_start = 0 \<rparr> (demo_options None)" 5 "demo_addr 4000" "SocketId 8"]
    by (auto simp: demo_cif_def)
qed

end
