(* ===== verification/Connection.thy ===== *)
theory Connection
  imports Handshake Sender Receiver
begin

text \<open>
  The connection (\<open>src/core/mod.rs\<close>): the state machine that owns the caller handshake while
  connecting and the sender, receiver and encryption engine once established; it routes packets,
  runs the timers and stamps what it transmits.

  Operations return the connection afterwards; \<open>Panic\<close> carries a panic of a component or an
  \<open>unreachable!\<close>.  Random bytes are the arguments \<open>rs\<close> (a salt) and \<open>rk\<close> (a key).  \<open>Duration\<close> and
  \<open>usize\<close> arithmetic is on naturals, with saturation where the code saturates.
\<close>

section \<open>State\<close>

definition KEEPALIVE_INTERVAL :: duration where "KEEPALIVE_INTERVAL = from_secs 1"
definition EXP_MAX_COUNT :: nat where "EXP_MAX_COUNT = 16"
definition EXP_MIN_INTERVAL_US :: nat where "EXP_MIN_INTERVAL_US = 300000"
definition EXP_PAD_US :: nat where "EXP_PAD_US = 10000"
definition EARLY_DATA_MAX :: nat where "EARLY_DATA_MAX = 256"
definition MAX_RECV_BUFFER_SCALE :: nat where "MAX_RECV_BUFFER_SCALE = 64"
definition MAX_SCALED_RECV_BUFFER_PKTS :: nat where "MAX_SCALED_RECV_BUFFER_PKTS = 2 ^ 20"
definition USIZE_MAX :: nat where "USIZE_MAX = 2 ^ 64 - 1"

datatype conn_state = Connecting | Established | ClosedState close_reason

record stats =
  st_pkts_sent :: nat
  st_pkts_recv :: nat
  st_bytes_sent :: nat
  st_bytes_recv :: nat
  st_udp_send_errors :: nat
  st_udp_short_sends :: nat
  st_pkts_retransmitted :: nat
  st_pkts_send_dropped :: nat
  st_pkts_recv_dropped :: nat
  st_pkts_recv_lost :: nat
  st_pkts_recv_oversized :: nat
  st_undecrypted_pkts :: nat
  st_km_refreshes :: nat
  st_rtt_us :: u32
  st_rtt_var_us :: u32
  st_tsbpd_drift_us :: int
  st_snd_period_us :: nat
  st_snd_max_bw :: nat
  st_snd_input_rate :: nat

datatype state =
    StConnecting caller_handshake "bytes list" "(instant \<times> data_packet) list"
  | StEstablished sender receiver "crypto option"
  | StClosed close_reason "receiver option"

record connection =
  cn_state :: state
  cn_remote :: socket_addr
  cn_local_socket_id :: socket_id
  cn_peer_socket_id :: socket_id
  cn_timebase :: timebase
  cn_opts :: srt_options
  cn_streamid :: "bytes option"
  cn_hs_reply :: "packet option"
  cn_transmit_q :: "packet list"
  cn_last_sent :: instant
  cn_last_recv :: instant
  cn_last_data :: instant
  cn_exp_count :: nat
  cn_closed_stats :: stats

definition stats_default :: stats where
  "stats_default =
     \<lparr> st_pkts_sent = 0, st_pkts_recv = 0, st_bytes_sent = 0, st_bytes_recv = 0, st_udp_send_errors = 0,
       st_udp_short_sends = 0, st_pkts_retransmitted = 0, st_pkts_send_dropped = 0, st_pkts_recv_dropped = 0,
       st_pkts_recv_lost = 0, st_pkts_recv_oversized = 0, st_undecrypted_pkts = 0, st_km_refreshes = 0,
       st_rtt_us = 0, st_rtt_var_us = 0, st_tsbpd_drift_us = 0, st_snd_period_us = 0, st_snd_max_bw = 0,
       st_snd_input_rate = 0 \<rparr>"

section \<open>Free functions\<close>

definition control :: "control_type \<Rightarrow> packet" where
  "control ct = Control \<lparr> cp_timestamp = Timestamp 0, cp_dst_socket_id = SID_HANDSHAKE, cp_control_type = ct \<rparr>"

definition exp_deadline :: "instant \<Rightarrow> nat \<Rightarrow> u32 \<times> u32 \<Rightarrow> instant" where
  "exp_deadline last_recv exp_count rtt =
     (let count = max exp_count 1;
          period = count * (unat (fst rtt) + 4 * unat (snd rtt)) + EXP_PAD_US
      in last_recv + from_micros (max period (count * EXP_MIN_INTERVAL_US)))"

definition div_ceil :: "nat \<Rightarrow> nat \<Rightarrow> nat" where
  "div_ceil a b = (a + b - 1) div b"

definition scaled_recv_buffer :: "srt_options \<Rightarrow> duration \<Rightarrow> nat" where
  "scaled_recv_buffer opts rcv_latency =
     (if rcv_latency \<le> op_latency opts then op_recv_buffer_pkts opts
      else
        let configured_us = max (as_micros (op_latency opts)) 1000;
            scaled = div_ceil (op_recv_buffer_pkts opts * as_micros rcv_latency) configured_us;
            cap = max (min (min (op_recv_buffer_pkts opts * MAX_RECV_BUFFER_SCALE) USIZE_MAX)
                           MAX_SCALED_RECV_BUFFER_PKTS)
                      (op_recv_buffer_pkts opts)
        in min (min scaled USIZE_MAX) cap)"

definition pair_max_payload :: "negotiated \<Rightarrow> srt_options \<Rightarrow> nat" where
  "pair_max_payload n opts = min (max_payload opts) (unat (ng_mss n) - 44)"

definition transmission_pair :: "instant \<Rightarrow> negotiated \<Rightarrow> srt_options \<Rightarrow> timebase \<Rightarrow> sender \<times> receiver" where
  "transmission_pair now n opts tb =
     (let limit = pair_max_payload n opts;
          s = sender_new
            \<lparr> sc_initial_seq = ng_send_initial_seq n, sc_flow_window = min (op_flow_window opts) (ng_flow_window n),
              sc_snd_latency = ng_snd_latency n, sc_max_payload = limit, sc_buffer_pkts = op_send_buffer_pkts opts,
              sc_bandwidth = op_bandwidth opts, sc_timebase = tb \<rparr>;
          r = receiver_new now
            \<lparr> rc_initial_seq = ng_recv_initial_seq n, rc_rcv_latency = ng_rcv_latency n,
              rc_buffer_pkts = scaled_recv_buffer opts (ng_rcv_latency n) \<rparr>
      in (s, set_max_payload r limit))"

definition ingest_data ::
  "crypto_prims \<Rightarrow> instant \<Rightarrow> receiver \<Rightarrow> crypto option \<Rightarrow> data_packet \<Rightarrow> receiver \<times> crypto option" where
  "ingest_data cp now r cr data =
     (let (cr', data', decrypted) =
        (case cr of
           Some c \<Rightarrow>
             (case decrypt cp c (dp_seq data) (dp_encryption data) (dp_payload data) of
                (c', Ok plain) \<Rightarrow> (Some c', data\<lparr> dp_payload := plain \<rparr>, True)
              | (c', _) \<Rightarrow> (Some c', data, False))
         | None \<Rightarrow> (None, data, dp_encryption data = EncNone)) in
      if decrypted then (handle_data r now (data'\<lparr> dp_encryption := EncNone \<rparr>), cr')
      else (handle_undecryptable r now data', cr'))"

definition merge_stats :: "sender \<Rightarrow> receiver \<Rightarrow> crypto option \<Rightarrow> stats" where
  "merge_stats sn rv cr =
     (let s = sender_stats_of sn; r = receiver_stats_of rv in
      \<lparr> st_pkts_sent = ss_pkts_sent s, st_pkts_recv = rs_pkts_recv r, st_bytes_sent = ss_bytes_sent s,
        st_bytes_recv = rs_bytes_recv r, st_udp_send_errors = 0, st_udp_short_sends = 0,
        st_pkts_retransmitted = ss_pkts_retransmitted s, st_pkts_send_dropped = ss_pkts_dropped s,
        st_pkts_recv_dropped = rs_pkts_dropped r, st_pkts_recv_lost = rs_pkts_lost r,
        st_pkts_recv_oversized = rs_pkts_oversized r, st_undecrypted_pkts = undecrypted_count rv,
        st_km_refreshes = (case cr of None \<Rightarrow> 0 | Some c \<Rightarrow> cr_key_switches c),
        st_rtt_us = rs_rtt_us r, st_rtt_var_us = rs_rtt_var_us r, st_tsbpd_drift_us = rs_tsbpd_drift_us r,
        st_snd_period_us = ss_snd_period_us s, st_snd_max_bw = ss_snd_max_bw s,
        st_snd_input_rate = ss_snd_input_rate s \<rparr>)"

section \<open>Construction\<close>

definition connect_with_timebase ::
  "instant \<Rightarrow> socket_addr \<Rightarrow> socket_id \<Rightarrow> seq_number \<Rightarrow> srt_options \<Rightarrow> timebase \<Rightarrow> connection" where
  "connect_with_timebase now remote local_id isn opts tb =
     \<lparr> cn_state = StConnecting (caller_new now remote local_id isn tb opts) [] [], cn_remote = remote,
       cn_local_socket_id = local_id, cn_peer_socket_id = SID_HANDSHAKE, cn_timebase = tb, cn_opts = opts,
       cn_streamid = op_streamid opts, cn_hs_reply = None, cn_transmit_q = [], cn_last_sent = now,
       cn_last_recv = now, cn_last_data = now, cn_exp_count = 1, cn_closed_stats = stats_default \<rparr>"

definition connect :: "instant \<Rightarrow> socket_addr \<Rightarrow> socket_id \<Rightarrow> seq_number \<Rightarrow> srt_options \<Rightarrow> connection" where
  "connect now remote local_id isn opts = connect_with_timebase now remote local_id isn opts (timebase_new now)"

definition accepted_with_timebase ::
  "instant \<Rightarrow> negotiated \<Rightarrow> packet \<Rightarrow> srt_options \<Rightarrow> timebase \<Rightarrow> connection" where
  "accepted_with_timebase now n hs_reply opts tb =
     (let (s, r) = transmission_pair now n opts tb in
      \<lparr> cn_state = StEstablished s r (ng_crypto n), cn_remote = ng_remote n,
        cn_local_socket_id = ng_local_socket_id n, cn_peer_socket_id = ng_peer_socket_id n, cn_timebase = tb,
        cn_opts = opts, cn_streamid = ng_streamid n, cn_hs_reply = Some hs_reply, cn_transmit_q = [hs_reply],
        cn_last_sent = now, cn_last_recv = now, cn_last_data = now, cn_exp_count = 1,
        cn_closed_stats = stats_default \<rparr>)"

definition accepted :: "instant \<Rightarrow> negotiated \<Rightarrow> packet \<Rightarrow> srt_options \<Rightarrow> connection" where
  "accepted now n hs_reply opts = accepted_with_timebase now n hs_reply opts (timebase_new now)"

section \<open>Queries\<close>

fun conn_state_of :: "state \<Rightarrow> conn_state" where
  "conn_state_of (StConnecting _ _ _) = Connecting"
| "conn_state_of (StEstablished _ _ _) = Established"
| "conn_state_of (StClosed reason _) = ClosedState reason"

definition is_closed :: "connection \<Rightarrow> bool" where
  "is_closed c = (case cn_state c of StClosed _ _ \<Rightarrow> True | _ \<Rightarrow> False)"

definition conn_stats :: "connection \<Rightarrow> stats" where
  "conn_stats c =
     (case cn_state c of
        StConnecting _ _ _ \<Rightarrow> stats_default
      | StEstablished s r cr \<Rightarrow> merge_stats s r cr
      | StClosed _ _ \<Rightarrow> cn_closed_stats c)"

definition conn_max_payload :: "connection \<Rightarrow> nat" where
  "conn_max_payload c =
     (case cn_state c of StEstablished s _ _ \<Rightarrow> sender_max_payload s | _ \<Rightarrow> max_payload (cn_opts c))"

definition conn_next_deadline :: "connection \<Rightarrow> instant \<Rightarrow> instant option" where
  "conn_next_deadline c now =
     (if cn_transmit_q c \<noteq> [] then Some now
      else
        case cn_state c of
          StConnecting hs _ _ \<Rightarrow> caller_next_deadline hs
        | StEstablished s r _ \<Rightarrow>
            let d0 = (case receiver_next_deadline r now of Some d \<Rightarrow> d | None \<Rightarrow> now + KEEPALIVE_INTERVAL);
                d1 = (case sender_next_deadline s of Some t \<Rightarrow> min d0 t | None \<Rightarrow> d0);
                d2 = min d1 (cn_last_sent c + KEEPALIVE_INTERVAL);
                d3 = min d2 (exp_deadline (cn_last_recv c) (cn_exp_count c) (receiver_rtt r));
                d4 = (case op_data_idle_timeout (cn_opts c) of
                        Some window \<Rightarrow> min d3 (cn_last_data c + window)
                      | None \<Rightarrow> d3)
            in Some d4
        | StClosed _ _ \<Rightarrow> None)"

section \<open>Closing\<close>

definition close_with :: "connection \<Rightarrow> instant \<Rightarrow> close_reason \<Rightarrow> bool \<Rightarrow> connection" where
  "close_with c now reason send_shutdown =
     (if is_closed c then c
      else
        let c1 = c\<lparr> cn_closed_stats := conn_stats c \<rparr>;
            c2 = (if send_shutdown
                  then c1\<lparr> cn_transmit_q := cn_transmit_q c1 @ [control Shutdown], cn_last_sent := now \<rparr> else c1)
        in c2\<lparr> cn_state := StClosed reason
                 (case cn_state c of StEstablished _ r _ \<Rightarrow> Some r | _ \<Rightarrow> None) \<rparr>)"

definition close :: "connection \<Rightarrow> instant \<Rightarrow> connection" where
  "close c now =
     (case cn_state c of
        StClosed _ _ \<Rightarrow> c
      | StEstablished _ _ _ \<Rightarrow> close_with c now CloseLocal True
      | StConnecting _ _ _ \<Rightarrow> close_with c now CloseLocal False)"

section \<open>Input\<close>

definition touch :: "connection \<Rightarrow> instant \<Rightarrow> connection" where
  "touch c now = c\<lparr> cn_last_recv := now, cn_exp_count := 1 \<rparr>"

definition conn_set_hs_anchor :: "connection \<Rightarrow> instant \<Rightarrow> timestamp \<Rightarrow> connection" where
  "conn_set_hs_anchor c arrival ts =
     (case cn_state c of
        StEstablished s r cr \<Rightarrow> c\<lparr> cn_state := StEstablished s (set_hs_anchor r arrival ts) cr \<rparr>
      | _ \<Rightarrow> c)"

fun replay_early :: "crypto_prims \<Rightarrow> receiver \<Rightarrow> crypto option \<Rightarrow> (instant \<times> data_packet) list \<Rightarrow> receiver \<times> crypto option" where
  "replay_early cp r cr [] = (r, cr)"
| "replay_early cp r cr ((arrival, pkt) # rest) =
     (let (r', cr') = ingest_data cp arrival r cr pkt in replay_early cp r' cr' rest)"

fun flush_pending ::
  "crypto_prims \<Rightarrow> instant \<Rightarrow> sender \<Rightarrow> crypto option \<Rightarrow> bytes list \<Rightarrow> (sender \<times> crypto option, unit) outcome" where
  "flush_pending cp now s cr [] = Ok (s, cr)"
| "flush_pending cp now s cr (payload # rest) =
     (case push cp s now payload cr of
        Ok (s', cr') \<Rightarrow> flush_pending cp now s' cr' rest
      | Err _ \<Rightarrow> flush_pending cp now s cr rest
      | Panic \<Rightarrow> Panic)"

definition establish ::
  "crypto_prims \<Rightarrow> connection \<Rightarrow> instant \<Rightarrow> timestamp \<Rightarrow> negotiated \<Rightarrow> (connection, unit) outcome" where
  "establish cp c now hs_ts n =
     (case cn_state c of
        StConnecting _ pending early \<Rightarrow>
          let (s, r) = transmission_pair now n (cn_opts c) (cn_timebase c);
              (r', cr) = replay_early cp (set_hs_anchor r now hs_ts) (ng_crypto n) early in
          bind_outcome (flush_pending cp now s cr pending) (\<lambda>(s', cr').
          Ok (c\<lparr> cn_peer_socket_id := ng_peer_socket_id n, cn_streamid := ng_streamid n,
                 cn_state := StEstablished s' r' cr', cn_exp_count := 1, cn_last_recv := now,
                 cn_last_data := now \<rparr>))
      | _ \<Rightarrow> Panic)"

definition fail_reason :: "srt_error \<Rightarrow> close_reason" where
  "fail_reason e =
     (case e of
        Rejected code \<Rightarrow> CloseRejected code
      | EncryptionUnsupported \<Rightarrow> CloseRejected REJ_UNSECURE
      | ConnectTimeout \<Rightarrow> CloseConnectTimeout
      | _ \<Rightarrow> CloseLocal)"

definition handle_handshake_packet ::
  "crypto_prims \<Rightarrow> bytes \<Rightarrow> bytes \<Rightarrow> connection \<Rightarrow> instant \<Rightarrow> timestamp \<Rightarrow> handshake_cif \<Rightarrow> (connection, unit) outcome" where
  "handle_handshake_packet cp rs rk c now hs_ts cif =
     (case cn_state c of
        StConnecting hs pending early \<Rightarrow>
          let (hs', result) = caller_handle_handshake cp rs rk hs now cif;
              c1 = c\<lparr> cn_state := StConnecting hs' pending early \<rparr> in
          (case result of
             Ok (Some n) \<Rightarrow> establish cp c1 now hs_ts n
           | Ok None \<Rightarrow> Ok c1
           | Err e \<Rightarrow> Ok (close_with c1 now (fail_reason e) False)
           | Panic \<Rightarrow> Panic)
      | StEstablished _ _ _ \<Rightarrow>
          (case (hc_handshake_type cif = Conclusion, cn_hs_reply c) of
             (True, Some reply) \<Rightarrow> Ok (c\<lparr> cn_transmit_q := cn_transmit_q c @ [reply] \<rparr>)
           | _ \<Rightarrow> Ok c)
      | StClosed _ _ \<Rightarrow> Panic)"

definition conn_handle_kmreq :: "crypto_prims \<Rightarrow> connection \<Rightarrow> bytes \<Rightarrow> (connection, unit) outcome" where
  "conn_handle_kmreq cp c payload =
     (case cn_state c of
        StEstablished s r (Some cr) \<Rightarrow>
          bind_outcome (handle_kmreq cp cr payload) (\<lambda>(cr', res).
          let c1 = c\<lparr> cn_state := StEstablished s r (Some cr') \<rparr> in
          Ok (if res = Installed
              then c1\<lparr> cn_transmit_q := cn_transmit_q c1 @ [control (KmRsp payload)] \<rparr> else c1))
      | _ \<Rightarrow> Ok c)"

definition conn_handle_kmrsp :: "connection \<Rightarrow> bytes \<Rightarrow> connection" where
  "conn_handle_kmrsp c payload =
     (case cn_state c of
        StEstablished s r (Some cr) \<Rightarrow>
          c\<lparr> cn_state := StEstablished s r (Some (fst (handle_kmrsp cr payload))) \<rparr>
      | _ \<Rightarrow> c)"

text \<open>The ACK branch: the sender's verdict, then the refresh clock of the engine.\<close>

definition conn_on_ack ::
  "crypto_prims \<Rightarrow> bytes \<Rightarrow> sender \<Rightarrow> crypto option \<Rightarrow> instant \<Rightarrow> u32 \<Rightarrow> ack_cif
   \<Rightarrow> (sender \<times> crypto option \<times> bytes option \<times> u32 option \<times> bool, unit) outcome" where
  "conn_on_ack cp rk s cr now ack_number cif =
     (case handle_ack s now ack_number cif of
        (s', Ok reply) \<Rightarrow>
          (case cr of
             None \<Rightarrow> Ok (s', None, None, reply, False)
           | Some c \<Rightarrow>
               bind_outcome (crypto_on_ack cp rk c now (unat (fst (sender_rtt s')))) (\<lambda>(c', km).
               Ok (s', Some c', km, reply, False)))
      | (s', Err _) \<Rightarrow> Ok (s', cr, None, None, True)
      | (s', Panic) \<Rightarrow> Panic)"

definition handle_transmission_control ::
  "crypto_prims \<Rightarrow> bytes \<Rightarrow> connection \<Rightarrow> instant \<Rightarrow> timestamp \<Rightarrow> control_type \<Rightarrow> (connection, unit) outcome" where
  "handle_transmission_control cp rk c now ts ct =
     (case cn_state c of
        StEstablished s r cr \<Rightarrow>
          bind_outcome
            (case ct of
               Ack ack_number cif \<Rightarrow>
                 bind_outcome (conn_on_ack cp rk s cr now ack_number cif) (\<lambda>(s', cr', km, reply, bad).
                 Ok (StEstablished s' r cr', km, reply, bad))
             | Nak ranges \<Rightarrow>
                 let s' = handle_nak s ranges in
                 Ok (StEstablished s' r cr, None, None, sn_protocol_violation s')
             | AckAck ack_number \<Rightarrow> Ok (StEstablished s (handle_ackack r now ack_number ts) cr, None, None, False)
             | DropRequest m first last_seq \<Rightarrow>
                 Ok (StEstablished s (handle_dropreq r m first last_seq) cr, None, None, False)
             | _ \<Rightarrow> Panic) (\<lambda>(st, km, reply, violation).
          let c1 = c\<lparr> cn_state := st,
                      cn_transmit_q := cn_transmit_q c
                        @ (case km of Some payload \<Rightarrow> [control (KmReq payload)] | None \<Rightarrow> [])
                        @ (case reply of Some n \<Rightarrow> [control (AckAck n)] | None \<Rightarrow> []) \<rparr> in
          Ok (if violation then close_with c1 now CloseLocal True else c1))
      | _ \<Rightarrow> Ok c)"

definition handle_control_packet ::
  "crypto_prims \<Rightarrow> bytes \<Rightarrow> bytes \<Rightarrow> connection \<Rightarrow> instant \<Rightarrow> control_packet \<Rightarrow> (connection, unit) outcome" where
  "handle_control_packet cp rs rk c now p =
     (case cp_control_type p of
        Handshake cif \<Rightarrow> handle_handshake_packet cp rs rk c now (cp_timestamp p) cif
      | Shutdown \<Rightarrow> Ok (close_with c now CloseShutdown False)
      | KeepAlive \<Rightarrow> Ok c
      | CongestionWarning \<Rightarrow> Ok c
      | PeerError _ \<Rightarrow> Ok c
      | KmReq payload \<Rightarrow> conn_handle_kmreq cp c payload
      | KmRsp payload \<Rightarrow> Ok (conn_handle_kmrsp c payload)
      | ct \<Rightarrow> handle_transmission_control cp rk c now (cp_timestamp p) ct)"

definition handle_data_packet ::
  "crypto_prims \<Rightarrow> connection \<Rightarrow> instant \<Rightarrow> data_packet \<Rightarrow> (connection, unit) outcome" where
  "handle_data_packet cp c0 now data =
     (let c = c0\<lparr> cn_last_data := now \<rparr> in
      case cn_state c of
        StConnecting hs pending early \<Rightarrow>
          Ok (if length (dp_payload data) > max_payload (cn_opts c) then c
              else if length early < EARLY_DATA_MAX
              then c\<lparr> cn_state := StConnecting hs pending (early @ [(now, data)]) \<rparr>
              else c)
      | StEstablished s r cr \<Rightarrow>
          let (r', cr') = ingest_data cp now r cr data;
              c1 = c\<lparr> cn_state := StEstablished s r' cr' \<rparr> in
          Ok (if sequence_discrepancy r' then close_with c1 now SequenceDiscrepancy True else c1)
      | StClosed _ _ \<Rightarrow> Panic)"

definition handle_packet ::
  "crypto_prims \<Rightarrow> bytes \<Rightarrow> bytes \<Rightarrow> connection \<Rightarrow> instant \<Rightarrow> packet \<Rightarrow> (connection, unit) outcome" where
  "handle_packet cp rs rk c now p =
     (if is_closed c then Ok c
      else if packet_dst_socket_id p \<noteq> SID_HANDSHAKE \<and> packet_dst_socket_id p \<noteq> cn_local_socket_id c then Ok c
      else
        case p of
          Data data \<Rightarrow> handle_data_packet cp (touch c now) now data
        | Control ctrl \<Rightarrow> handle_control_packet cp rs rk (touch c now) now ctrl)"

definition handle_datagram ::
  "crypto_prims \<Rightarrow> bytes \<Rightarrow> bytes \<Rightarrow> connection \<Rightarrow> instant \<Rightarrow> bytes \<Rightarrow> (connection, unit) outcome" where
  "handle_datagram cp rs rk c now datagram =
     (case packet_parse datagram of
        Ok p \<Rightarrow> handle_packet cp rs rk c now p
      | Err (UnknownControlType _) \<Rightarrow> Ok (touch c now)
      | Err _ \<Rightarrow> Ok c
      | Panic \<Rightarrow> Panic)"

section \<open>Timers\<close>

text \<open>EXP escalation: whether the peer is idle, and the expiration count afterwards.\<close>

definition exp_timer :: "connection \<Rightarrow> instant \<Rightarrow> u32 \<times> u32 \<Rightarrow> bool \<times> nat" where
  "exp_timer c now rtt =
     (if now \<ge> exp_deadline (cn_last_recv c) (cn_exp_count c) rtt then
        if cn_exp_count c > EXP_MAX_COUNT \<and> since now (cn_last_recv c) \<ge> op_peer_idle_timeout (cn_opts c)
        then (True, cn_exp_count c) else (False, cn_exp_count c + 1)
      else (False, cn_exp_count c))"

definition data_idle_due :: "connection \<Rightarrow> instant \<Rightarrow> bool" where
  "data_idle_due c now =
     (case op_data_idle_timeout (cn_opts c) of
        Some window \<Rightarrow> since now (cn_last_data c) \<ge> window
      | None \<Rightarrow> False)"

definition handle_timer :: "connection \<Rightarrow> instant \<Rightarrow> connection" where
  "handle_timer c now =
     (case cn_state c of
        StConnecting hs _ _ \<Rightarrow>
          if caller_is_timed_out hs now then close_with c now CloseConnectTimeout False else c
      | StEstablished s r cr \<Rightarrow>
          let s' = sender_on_timer s now;
              r' = receiver_on_timer r now;
              (peer_idle, exp_count) = exp_timer c now (receiver_rtt r');
              data_idle = data_idle_due c now;
              c1 = c\<lparr> cn_state := StEstablished s' r' cr, cn_exp_count := exp_count \<rparr>;
              c2 = (if \<not> peer_idle \<and> \<not> data_idle \<and> since now (cn_last_sent c1) \<ge> KEEPALIVE_INTERVAL
                    then c1\<lparr> cn_transmit_q := cn_transmit_q c1 @ [control KeepAlive], cn_last_sent := now \<rparr>
                    else c1);
              c3 = (if peer_idle then close_with c2 now PeerIdle True else c2)
          in if data_idle \<and> \<not> peer_idle then close_with c3 now DataIdle True else c3
      | StClosed _ _ \<Rightarrow> c)"

section \<open>The application and the wire\<close>

definition conn_send ::
  "crypto_prims \<Rightarrow> connection \<Rightarrow> instant \<Rightarrow> bytes \<Rightarrow> connection \<times> (unit, srt_error) outcome" where
  "conn_send cp c now payload =
     (case cn_state c of
        StConnecting hs pending early \<Rightarrow>
          if length payload > max_payload (cn_opts c) then (c, Err (PayloadTooLarge (length payload)))
          else
            let kept = (if length pending \<ge> op_send_buffer_pkts (cn_opts c) then tl pending else pending)
            in (c\<lparr> cn_state := StConnecting hs (kept @ [payload]) early \<rparr>, Ok ())
      | StEstablished s r cr \<Rightarrow>
          (case push cp s now payload cr of
             Ok (s', cr') \<Rightarrow> (c\<lparr> cn_state := StEstablished s' r cr' \<rparr>, Ok ())
           | Err e \<Rightarrow> (c, Err e)
           | Panic \<Rightarrow> (c, Panic))
      | StClosed reason _ \<Rightarrow> (c, Err (Closed reason)))"

definition next_transmit :: "connection \<Rightarrow> instant \<Rightarrow> (connection \<times> packet option, unit) outcome" where
  "next_transmit c now =
     (case cn_transmit_q c of
        p # q \<Rightarrow> Ok (c\<lparr> cn_transmit_q := q \<rparr>, Some p)
      | [] \<Rightarrow>
          (case cn_state c of
             StConnecting hs pending early \<Rightarrow>
               let (hs', p) = caller_poll_transmit hs now in
               Ok (c\<lparr> cn_state := StConnecting hs' pending early \<rparr>, p)
           | StEstablished s r cr \<Rightarrow>
               (case receiver_poll_control r of
                  (r', Some ct) \<Rightarrow> Ok (c\<lparr> cn_state := StEstablished s r' cr \<rparr>, Some (control ct))
                | (r', None) \<Rightarrow>
                    (case sender_poll_control s of
                       (s', Some ct) \<Rightarrow> Ok (c\<lparr> cn_state := StEstablished s' r' cr \<rparr>, Some (control ct))
                     | (s', None) \<Rightarrow>
                         bind_outcome (poll_transmit s' now) (\<lambda>(s'', data).
                         Ok (c\<lparr> cn_state := StEstablished s'' r' cr \<rparr>, map_option Data data))))
           | StClosed _ _ \<Rightarrow> Ok (c, None)))"

fun is_handshake :: "control_type \<Rightarrow> bool" where
  "is_handshake (Handshake _) = True"
| "is_handshake _ = False"

definition stamp :: "connection \<Rightarrow> instant \<Rightarrow> packet \<Rightarrow> packet" where
  "stamp c now p =
     (case p of
        Control ct \<Rightarrow>
          Control (ct\<lparr> cp_timestamp := timebase_timestamp (cn_timebase c) now,
                       cp_dst_socket_id :=
                         (if is_handshake (cp_control_type ct)
                             \<and> (case cn_state c of StConnecting _ _ _ \<Rightarrow> True | _ \<Rightarrow> False)
                          then SID_HANDSHAKE else cn_peer_socket_id c) \<rparr>)
      | Data d \<Rightarrow> Data (d\<lparr> dp_dst_socket_id := cn_peer_socket_id c \<rparr>))"

definition conn_poll_transmit :: "connection \<Rightarrow> instant \<Rightarrow> (connection \<times> packet option, unit) outcome" where
  "conn_poll_transmit c now =
     bind_outcome (next_transmit c now) (\<lambda>(c1, p).
     case p of
       None \<Rightarrow> Ok (c1, None)
     | Some pkt \<Rightarrow> let c2 = c1\<lparr> cn_last_sent := now \<rparr> in Ok (c2, Some (stamp c2 now pkt)))"

definition conn_poll_deliver :: "connection \<Rightarrow> instant \<Rightarrow> (connection \<times> bytes option, unit) outcome" where
  "conn_poll_deliver c now =
     (case cn_state c of
        StEstablished s r cr \<Rightarrow>
          bind_outcome (poll_deliver r now) (\<lambda>(r', p). Ok (c\<lparr> cn_state := StEstablished s r' cr \<rparr>, p))
      | StClosed reason (Some r) \<Rightarrow>
          bind_outcome (poll_deliver r now) (\<lambda>(r', p). Ok (c\<lparr> cn_state := StClosed reason (Some r') \<rparr>, p))
      | _ \<Rightarrow> Ok (c, None))"

end
