(* ===== verification/Connection_Inv.thy ===== *)
theory Connection_Inv
  imports Connection Handshake_Safety Sender_Inv
begin

text \<open>
  The invariant of a connection and that every input keeps it: no datagram, timer, application call
  or poll makes a connection panic, and its queues stay bounded.
\<close>

section \<open>Parsed packets carry 31-bit sequence numbers\<close>

fun control_seqs_ok :: "control_type \<Rightarrow> bool" where
  "control_seqs_ok (Nak l) = (\<forall>r \<in> set l. seq_ok (lr_first r) \<and> seq_ok (lr_last r))"
| "control_seqs_ok (DropRequest _ f l) = (seq_ok f \<and> seq_ok l)"
| "control_seqs_ok _ = True"

fun packet_seqs_ok :: "packet \<Rightarrow> bool" where
  "packet_seqs_ok (Data d) = seq_ok (dp_seq d)"
| "packet_seqs_ok (Control c) = control_seqs_ok (cp_control_type c)"

lemma loss_list_loop_seqs:
  "loss_list_loop cif words i = Ok l \<Longrightarrow> \<forall>r \<in> set l. seq_ok (lr_first r) \<and> seq_ok (lr_last r)"
proof (induction "words - i" arbitrary: i l rule: less_induct)
  case less
  show ?case
  proof (cases "i < words")
    case True
    then have rest: "loss_list_loop cif words (Suc i) = Ok l' \<Longrightarrow> r \<in> set l' \<Longrightarrow> seq_ok (lr_first r) \<and> seq_ok (lr_last r)"
      "loss_list_loop cif words (Suc (Suc i)) = Ok l' \<Longrightarrow> r \<in> set l' \<Longrightarrow> seq_ok (lr_first r) \<and> seq_ok (lr_last r)" for l' r
      using less.hyps [of "Suc i" l'] less.hyps [of "Suc (Suc i)" l'] by auto
    from less.prems True show ?thesis
      by (subst (asm) loss_list_loop.simps)
        (auto simp: bind_outcome_Ok_iff Let_def dest: rest split: if_splits)
  next
    case False
    with less.prems show ?thesis by (subst (asm) loss_list_loop.simps) simp
  qed
qed

lemma parse_control_type_seqs: "parse_control_type code sub info cif = Ok ct \<Longrightarrow> control_seqs_ok ct"
  by (auto simp: parse_control_type_def parse_loss_list_def bind_outcome_Ok_iff Let_def loss_list_loop_seqs
      split: if_splits)

lemma packet_parse_seqs: "packet_parse buf = Ok p \<Longrightarrow> packet_seqs_ok p"
  by (auto simp: packet_parse_def control_parse_def data_parse_def bind_outcome_Ok_iff Let_def
      dest: parse_control_type_seqs split: if_splits)

section \<open>Components never panic\<close>

lemma first_occupied_nth:
  assumes "first_occupied r = Some i" obtains sl where "i < length (rv_slots r)" "rv_slots r ! i = Some sl"
proof -
  let ?rest = "drop (rv_scan_hint r) (rv_slots r)"
  let ?p = "length (takeWhile (\<lambda>x. x = None) ?rest)"
  have p: "?p < length ?rest" "i = rv_scan_hint r + ?p"
    using assms by (auto simp: first_occupied_def Let_def split: if_splits)
  then have "?rest ! ?p \<noteq> None" using nth_length_takeWhile by blast
  then show thesis using p that by fastforce
qed

lemma deliver_loop_total: "\<exists>r' p. (deliver_loop r a now :: (_, 'e) outcome) = Ok (r', p)"
proof (induction r a now rule: deliver_loop.induct)
  case (1 r a now)
  show ?case
  proof (cases "first_occupied r")
    case None
    then show ?thesis by (subst deliver_loop.simps) simp
  next
    case (Some i)
    then obtain sl where sl: "i < length (rv_slots r)" "rv_slots r ! i = Some sl"
      by (rule first_occupied_nth)
    define r1 where "r1 = r\<lparr> rv_scan_hint := i \<rparr>"
    have hd: "rv_slots (skip_hole r1 i) = Some sl # drop (Suc i) (rv_slots r)"
      using sl Cons_nth_drop_Suc [of i "rv_slots r"] by (auto simp: skip_hole_def r1_def drop_0)
    have r1: "rv_slots r1 = rv_slots r" by (simp add: r1_def)
    show ?thesis
      using "1.IH" [OF Some r1_def] Some sl hd
      by (subst deliver_loop.simps) (auto simp: r1_def [symmetric] r1 Let_def)
  qed
qed

lemma poll_deliver_total: "\<exists>r' p. (poll_deliver r now :: (_, 'e) outcome) = Ok (r', p)"
  using deliver_loop_total by (auto simp: poll_deliver_def split: option.splits)

lemma push_total:
  assumes "sender_inv s" "prims_ok cp" "crypto_ok cp cr"
  shows "(\<exists>s' cr'. push cp s now payload cr = Ok (s', cr') \<and> sender_inv s' \<and> sn_cfg s' = sn_cfg s \<and> crypto_ok cp cr')
    \<or> (\<exists>e. push cp s now payload cr = Err e)"
proof (cases "length payload \<le> sc_max_payload (sn_cfg s)")
  case True
  obtain s' cr' where "push cp s now payload cr = Ok (s', cr')" "sender_inv s'" "evolves s s'" "crypto_ok cp cr'"
    using assms True by (rule push_Ok)
  then show ?thesis by (auto simp: evolves_def)
next
  case False
  then show ?thesis by (simp add: push_eq)
qed

lemma ingest_data_ok:
  assumes "crypto_ok cp cr" shows "crypto_ok cp (snd (ingest_data cp now r cr d))"
proof (cases cr)
  case (Some c)
  then show ?thesis
    using assms decrypt_inv [of cp c "dp_seq d" "dp_encryption d" "dp_payload d"]
    by (auto simp: ingest_data_def crypto_ok_def split: prod.splits outcome.splits)
qed (simp add: ingest_data_def crypto_ok_def)

lemma replay_early_ok: "crypto_ok cp cr \<Longrightarrow> crypto_ok cp (snd (replay_early cp r cr early))"
proof (induction early arbitrary: r cr)
  case (Cons x early)
  then show ?case
    using ingest_data_ok [of cp cr "fst x" r "snd x"] by (cases x) (auto split: prod.splits)
qed simp

lemma flush_pending_ok:
  assumes "prims_ok cp" "sender_inv s" "crypto_ok cp cr"
  shows "\<exists>s' cr'. flush_pending cp now s cr pending = Ok (s', cr') \<and> sender_inv s' \<and> sn_cfg s' = sn_cfg s \<and> crypto_ok cp cr'"
  using assms(2,3)
proof (induction pending arbitrary: s cr)
  case (Cons p pending)
  from push_total [OF Cons.prems(1) assms(1) Cons.prems(2), of now p] show ?case
  proof (elim disjE exE conjE)
    fix s' cr'
    assume "push cp s now p cr = Ok (s', cr')" "sender_inv s'" "sn_cfg s' = sn_cfg s" "crypto_ok cp cr'"
    then show ?thesis using Cons.IH [of s' cr'] by auto
  next
    fix e
    assume "push cp s now p cr = Err e"
    then show ?thesis using Cons by simp
  qed
qed simp

section \<open>The invariant\<close>

text \<open>
  Before establishment the queues are bounded and hold only payloads within the local limit; once
  established the sender's invariant and the engine's hold.
\<close>

fun state_inv :: "crypto_prims \<Rightarrow> srt_options \<Rightarrow> state \<Rightarrow> bool" where
  "state_inv cp opts (StConnecting hs pending early) \<longleftrightarrow>
     crypto_ok cp (ch_crypto hs)
   \<and> length pending \<le> max (op_send_buffer_pkts opts) 1 \<and> (\<forall>p \<in> set pending. length p \<le> max_payload opts)
   \<and> length early \<le> EARLY_DATA_MAX \<and> (\<forall>x \<in> set early. length (dp_payload (snd x)) \<le> max_payload opts)"
| "state_inv cp opts (StEstablished s r cr) \<longleftrightarrow>
     sender_inv s \<and> crypto_ok cp cr \<and> sc_max_payload (sn_cfg s) \<le> max_payload opts"
| "state_inv cp opts (StClosed reason r) \<longleftrightarrow> True"

definition conn_inv :: "crypto_prims \<Rightarrow> connection \<Rightarrow> bool" where
  "conn_inv cp c \<longleftrightarrow> bandwidth_validate (op_bandwidth (cn_opts c)) = Ok () \<and> state_inv cp (cn_opts c) (cn_state c)"

lemma close_with_simps [simp]:
  "cn_opts (close_with c now reason b) = cn_opts c" "is_closed (close_with c now reason b)"
  by (simp_all add: close_with_def is_closed_def Let_def split: state.splits)

lemma state_inv_close [simp]: "state_inv cp opts (cn_state (close_with c now reason b))"
proof -
  have "is_closed (close_with c now reason b)" by simp
  then show ?thesis by (auto simp: is_closed_def split: state.splits)
qed

lemma conn_inv_close:
  "conn_inv cp (close_with c now reason b) \<longleftrightarrow> bandwidth_validate (op_bandwidth (cn_opts c)) = Ok ()"
  by (simp add: conn_inv_def)

lemma conn_inv_frame:
  "cn_opts c' = cn_opts c \<Longrightarrow> cn_state c' = cn_state c \<Longrightarrow> conn_inv cp c' = conn_inv cp c"
  by (simp add: conn_inv_def)

lemma conn_inv_state:
  "conn_inv cp c \<Longrightarrow> cn_opts c' = cn_opts c \<Longrightarrow> state_inv cp (cn_opts c) (cn_state c') \<Longrightarrow> conn_inv cp c'"
  by (simp add: conn_inv_def)

lemma conn_invD: "conn_inv cp c \<Longrightarrow> cn_state c = st \<Longrightarrow> state_inv cp (cn_opts c) st"
  by (simp add: conn_inv_def)

lemma transmission_pair_inv:
  assumes "bandwidth_validate (op_bandwidth opts) = Ok ()" "transmission_pair now n opts tb = (s, r)"
  shows "sender_inv s" "sc_max_payload (sn_cfg s) \<le> max_payload opts"
proof -
  show "sender_inv s"
    using assms sender_new_inv by (auto simp: transmission_pair_def Let_def)
  show "sc_max_payload (sn_cfg s) \<le> max_payload opts"
    using assms(2) by (auto simp: transmission_pair_def Let_def sender_new_def pair_max_payload_def)
qed

section \<open>Every input keeps it\<close>

lemma establish_inv:
  assumes "prims_ok cp" "conn_inv cp c" "cn_state c = StConnecting hs pending early" "crypto_ok cp (ng_crypto n)"
  shows "\<exists>c'. establish cp c now ts n = Ok c' \<and> conn_inv cp c'"
proof -
  obtain s r where pair: "transmission_pair now n (cn_opts c) (cn_timebase c) = (s, r)" by fastforce
  obtain r' cr where rep: "replay_early cp (set_hs_anchor r now ts) (ng_crypto n) early = (r', cr)" by fastforce
  have s: "sender_inv s" "sc_max_payload (sn_cfg s) \<le> max_payload (cn_opts c)"
    using transmission_pair_inv [OF _ pair] assms(2) by (simp_all add: conn_inv_def)
  have "crypto_ok cp cr" using replay_early_ok [OF assms(4), of "set_hs_anchor r now ts" early] rep by simp
  from flush_pending_ok [OF assms(1) s(1) this, of now pending] show ?thesis
    using pair rep s(2) assms(2,3) by (auto simp: establish_def conn_inv_def)
qed

lemma handle_handshake_packet_inv:
  assumes "prims_ok cp" "conn_inv cp c" "\<not> is_closed c"
  shows "\<exists>c'. handle_handshake_packet cp rs rk c now ts cif = Ok c' \<and> conn_inv cp c'"
proof (cases "cn_state c")
  case (StConnecting hs pending early)
  note inv = conn_invD [OF assms(2) StConnecting]
  have cr: "\<forall>x. ch_crypto hs = Some x \<longrightarrow> crypto_inv cp x" using inv by (simp add: crypto_ok_def)
  have keep: "conn_inv cp (c\<lparr> cn_state := StConnecting h pending early \<rparr>)" if "crypto_ok cp (ch_crypto h)" for h
    using assms(2) inv that by (simp add: conn_inv_def)
  from assms(1) show ?thesis
  proof (cases rule: caller_handle_cases [where rs = rs and rk = rk and c = hs and now = now and cif = cif])
    case ignored
    then show ?thesis
      using keep [of hs] inv by (simp add: handle_handshake_packet_def StConnecting)
  next
    case (failed e err)
    then show ?thesis
      using assms(2) by (simp add: handle_handshake_packet_def StConnecting conn_inv_def)
  next
    case (advanced k advert e)
    then show ?thesis
      using keep by (simp add: handle_handshake_packet_def StConnecting crypto_ok_def mid_caller_def)
  next
    case (established k n)
    define c1 where "c1 = c\<lparr> cn_state := StConnecting (hs\<lparr> ch_crypto := None, ch_state := CsEstablished \<rparr>) pending early \<rparr>"
    have "conn_inv cp c1" unfolding c1_def by (rule keep) (simp add: crypto_ok_def)
    moreover have "crypto_ok cp (ng_crypto n)"
      using judge_kmx_inv [OF established(2) cr] by (simp add: crypto_ok_def)
    ultimately show ?thesis
      using establish_inv [OF assms(1), of c1 _ pending early n now ts] established(3)
      by (simp add: handle_handshake_packet_def StConnecting c1_def)
  qed
next
  case (StEstablished s r cr)
  then show ?thesis
    using assms(2)
    by (cases "cn_hs_reply c"; cases "hc_handshake_type cif = Conclusion")
      (simp_all add: handle_handshake_packet_def conn_inv_def)
qed (use assms(3) in \<open>simp add: is_closed_def\<close>)

lemma conn_on_ack_inv:
  assumes "prims_ok cp" "sender_inv s" "crypto_ok cp cr"
  shows "\<exists>s' cr' km reply bad. conn_on_ack cp rk s cr now n cif = Ok (s', cr', km, reply, bad)
    \<and> sender_inv s' \<and> sn_cfg s' = sn_cfg s \<and> crypto_ok cp cr'"
proof -
  obtain s' res where h: "handle_ack s now n cif = (s', res)" by fastforce
  have s': "sender_inv s'" "sn_cfg s' = sn_cfg s"
    using handle_ack_inv [OF assms(2), of now n cif] h by (simp_all add: evolves_def)
  have res: "res \<noteq> Panic"
    using h by (auto simp: handle_ack_def Let_def split: if_splits prod.splits)
  show ?thesis
  proof (cases cr)
    case None
    then show ?thesis using h s' res assms(3) by (cases res) (auto simp: conn_on_ack_def)
  next
    case (Some c)
    obtain c' out where "(crypto_on_ack cp rk c now (unat (fst (sender_rtt s'))) :: (_, unit) outcome) = Ok (c', out)"
        "crypto_inv cp c'"
      using on_ack_inv [OF assms(1)] assms(3) Some by (metis crypto_ok_def)
    then show ?thesis
      using h s' res assms(3) Some by (cases res) (auto simp: conn_on_ack_def crypto_ok_def)
  qed
qed

lemma handle_transmission_control_inv:
  assumes "prims_ok cp" "conn_inv cp c" "control_seqs_ok ct"
    and "case ct of Ack _ _ \<Rightarrow> True | Nak _ \<Rightarrow> True | AckAck _ \<Rightarrow> True | DropRequest _ _ _ \<Rightarrow> True | _ \<Rightarrow> False"
  shows "\<exists>c'. handle_transmission_control cp rk c now ts ct = Ok c' \<and> conn_inv cp c'"
proof (cases "cn_state c")
  case (StEstablished s r cr)
  note inv = conn_invD [OF assms(2) StEstablished]
  have bw: "bandwidth_validate (op_bandwidth (cn_opts c)) = Ok ()" using assms(2) by (simp add: conn_inv_def)
  show ?thesis
  proof (cases ct)
    case (Ack n cif)
    obtain s' cr' km reply bad where "conn_on_ack cp rk s cr now n cif = Ok (s', cr', km, reply, bad)"
        "sender_inv s'" "sn_cfg s' = sn_cfg s" "crypto_ok cp cr'"
      using conn_on_ack_inv [OF assms(1)] inv by (metis state_inv.simps(2))
    then show ?thesis
      using inv bw by (simp add: handle_transmission_control_def StEstablished Ack Let_def conn_inv_def)
  next
    case (Nak l)
    have "sender_inv (handle_nak s l)" "sn_cfg (handle_nak s l) = sn_cfg s"
      using handle_nak_inv [of s l] inv assms(3) Nak by (simp_all add: evolves_def)
    then show ?thesis
      using inv bw by (simp add: handle_transmission_control_def StEstablished Nak Let_def conn_inv_def)
  next
    case (AckAck n)
    then show ?thesis
      using inv bw by (simp add: handle_transmission_control_def StEstablished conn_inv_def)
  next
    case (DropRequest m f l)
    then show ?thesis
      using inv bw by (simp add: handle_transmission_control_def StEstablished conn_inv_def)
  qed (use assms(4) in simp_all)
qed (use assms(2) in \<open>simp_all add: handle_transmission_control_def\<close>)

lemma conn_handle_kmreq_inv:
  assumes "prims_ok cp" "conn_inv cp c"
  shows "\<exists>c'. conn_handle_kmreq cp c payload = Ok c' \<and> conn_inv cp c'"
proof (cases "\<exists>s r x. cn_state c = StEstablished s r (Some x)")
  case True
  then obtain s r x where st: "cn_state c = StEstablished s r (Some x)" by blast
  note inv = conn_invD [OF assms(2) st]
  obtain x' out where "(handle_kmreq cp x payload :: (_, unit) outcome) = Ok (x', out)" "crypto_inv cp x'"
    using handle_kmreq_inv [OF assms(1), of x payload] inv by (auto simp: crypto_ok_def)
  then show ?thesis
    using inv assms(2) by (simp add: conn_handle_kmreq_def st conn_inv_def crypto_ok_def Let_def)
next
  case False
  then show ?thesis
    using assms(2) by (auto simp: conn_handle_kmreq_def split: state.splits option.splits)
qed

lemma conn_handle_kmrsp_inv:
  assumes "conn_inv cp c" shows "conn_inv cp (conn_handle_kmrsp c payload)"
proof (cases "\<exists>s r x. cn_state c = StEstablished s r (Some x)")
  case True
  then obtain s r x where st: "cn_state c = StEstablished s r (Some x)" by blast
  then show ?thesis
    using assms handle_kmrsp_inv [of cp x payload] by (simp add: conn_handle_kmrsp_def conn_inv_def crypto_ok_def)
next
  case False
  then show ?thesis using assms by (auto simp: conn_handle_kmrsp_def split: state.splits option.splits)
qed

lemma handle_data_packet_inv:
  assumes "conn_inv cp c" "\<not> is_closed c"
  shows "\<exists>c'. handle_data_packet cp c now d = Ok c' \<and> conn_inv cp c'"
proof (cases "cn_state c")
  case (StConnecting hs pending early)
  then show ?thesis
    using assms(1) by (auto simp: handle_data_packet_def Let_def conn_inv_def)
next
  case (StEstablished s r cr)
  obtain r' cr' where ing: "ingest_data cp now r cr d = (r', cr')" by fastforce
  have "crypto_ok cp cr'"
    using ingest_data_ok [of cp cr now r d] ing conn_invD [OF assms(1) StEstablished] by simp
  then show ?thesis
    using assms(1) StEstablished ing by (simp add: handle_data_packet_def Let_def conn_inv_def)
qed (use assms(2) in \<open>simp add: is_closed_def\<close>)

lemma touch_simps [simp]:
  "cn_state (touch c now) = cn_state c" "cn_opts (touch c now) = cn_opts c"
  "conn_inv cp (touch c now) = conn_inv cp c" "is_closed (touch c now) = is_closed c"
  by (simp_all add: touch_def conn_inv_def is_closed_def)

lemma handle_control_packet_inv:
  assumes "prims_ok cp" "conn_inv cp c" "\<not> is_closed c" "control_seqs_ok (cp_control_type p)"
  shows "\<exists>c'. handle_control_packet cp rs rk c now p = Ok c' \<and> conn_inv cp c'"
proof -
  have bw: "bandwidth_validate (op_bandwidth (cn_opts c)) = Ok ()" using assms(2) by (simp add: conn_inv_def)
  note tc = handle_transmission_control_inv [OF assms(1,2), of _ rk now "cp_timestamp p"]
  show ?thesis
    using assms(2,4) bw handle_handshake_packet_inv [OF assms(1-3), of rs rk now "cp_timestamp p"]
      conn_handle_kmreq_inv [OF assms(1,2)] conn_handle_kmrsp_inv
    by (cases "cp_control_type p") (simp_all add: handle_control_packet_def tc conn_inv_close)
qed

lemma handle_packet_inv:
  assumes "prims_ok cp" "conn_inv cp c" "packet_seqs_ok p"
  shows "\<exists>c'. handle_packet cp rs rk c now p = Ok c' \<and> conn_inv cp c'"
  using assms handle_data_packet_inv [of cp "touch c now" now] handle_control_packet_inv [of cp "touch c now" _ rs rk now]
  by (cases p) (auto simp: handle_packet_def)

lemma handle_datagram_inv:
  assumes "prims_ok cp" "conn_inv cp c"
  shows "\<exists>c'. handle_datagram cp rs rk c now buf = Ok c' \<and> conn_inv cp c'"
proof (cases "packet_parse buf")
  case (Ok p)
  then show ?thesis
    using handle_packet_inv [OF assms packet_parse_seqs [OF Ok]] by (simp add: handle_datagram_def)
next
  case (Err e)
  then show ?thesis using assms(2) by (cases e) (simp_all add: handle_datagram_def)
next
  case Panic
  moreover have "packet_parse buf \<noteq> Panic" by (simp add: packet_parse_def no_panic)
  ultimately show ?thesis by simp
qed

lemma handle_timer_inv:
  assumes "conn_inv cp c" shows "conn_inv cp (handle_timer c now)"
proof (cases "cn_state c")
  case (StEstablished s r cr)
  have "sender_inv (sender_on_timer s now)" "sn_cfg (sender_on_timer s now) = sn_cfg s"
    using sender_on_timer_inv [of s now] conn_invD [OF assms StEstablished] by (simp_all add: evolves_def)
  then show ?thesis
    using assms StEstablished by (auto simp: handle_timer_def Let_def conn_inv_def split: prod.splits)
qed (use assms in \<open>simp_all add: handle_timer_def conn_inv_def\<close>)

lemma conn_send_inv:
  assumes "prims_ok cp" "conn_inv cp c"
  shows "conn_inv cp (fst (conn_send cp c now payload)) \<and> snd (conn_send cp c now payload) \<noteq> Panic"
proof (cases "cn_state c")
  case (StConnecting hs pending early)
  have "p \<in> set (tl pending) \<Longrightarrow> p \<in> set pending" for p by (rule list.set_sel(2)) auto
  then show ?thesis
    using assms(2) StConnecting by (auto simp: conn_send_def conn_inv_def Let_def)
next
  case (StEstablished s r cr)
  note inv = conn_invD [OF assms(2) StEstablished]
  from inv push_total [of s cp cr now payload] assms(1) show ?thesis
    using assms(2) StEstablished by (auto simp: conn_send_def conn_inv_def)
qed (use assms(2) in \<open>simp add: conn_send_def conn_inv_def\<close>)

lemma conn_close_inv: "conn_inv cp c \<Longrightarrow> conn_inv cp (close c now)"
  by (auto simp: close_def conn_inv_def split: state.splits)

lemma caller_poll_crypto: "ch_crypto (fst (caller_poll_transmit hs now)) = ch_crypto hs"
  by (simp add: caller_poll_transmit_def Let_def)

lemma sender_poll_control_inv:
  assumes "sender_inv s" "sender_poll_control s = (s', ct)" shows "sender_inv s' \<and> sn_cfg s' = sn_cfg s"
  using assms by (auto simp: sender_poll_control_def sender_inv_defs split: list.splits)

lemma next_transmit_inv:
  assumes "conn_inv cp c"
  shows "\<exists>c' p. next_transmit c now = Ok (c', p) \<and> conn_inv cp c'"
proof (cases "cn_transmit_q c")
  case (Cons p q)
  then show ?thesis using assms by (simp add: next_transmit_def conn_inv_def)
next
  case Nil
  show ?thesis
  proof (cases "cn_state c")
    case (StConnecting hs pending early)
    then show ?thesis
      using Nil assms caller_poll_crypto [of hs now]
      by (auto simp: next_transmit_def conn_inv_def split: prod.splits)
  next
    case (StEstablished s r cr)
    note inv = conn_invD [OF assms StEstablished]
    obtain r' ct where r: "receiver_poll_control r = (r', ct)" by fastforce
    obtain s' ct' where s: "sender_poll_control s = (s', ct')" by fastforce
    have s': "sender_inv s'" "sn_cfg s' = sn_cfg s" using sender_poll_control_inv [OF _ s] inv by simp_all
    obtain s'' d where p: "(poll_transmit s' now :: (_, unit) outcome) = Ok (s'', d)" "sender_inv s''" "evolves s' s''"
      using s'(1) by (rule poll_transmit_inv)
    show ?thesis
      using Nil assms inv StEstablished r s s' p
      by (cases ct; cases ct') (auto simp: next_transmit_def conn_inv_def evolves_def)
  next
    case (StClosed reason r)
    then show ?thesis using Nil assms by (simp add: next_transmit_def)
  qed
qed

lemma conn_poll_transmit_inv:
  assumes "conn_inv cp c"
  shows "\<exists>c' p. conn_poll_transmit c now = Ok (c', p) \<and> conn_inv cp c'"
proof -
  obtain c1 p where "next_transmit c now = Ok (c1, p)" "conn_inv cp c1"
    using next_transmit_inv [OF assms] by blast
  then show ?thesis by (cases p) (simp_all add: conn_poll_transmit_def Let_def conn_inv_def)
qed

lemma conn_poll_deliver_inv:
  assumes "conn_inv cp c"
  shows "\<exists>c' p. conn_poll_deliver c now = Ok (c', p) \<and> conn_inv cp c'"
proof (cases "cn_state c")
  case (StEstablished s r cr)
  obtain r' p where "poll_deliver r now = (Ok (r', p) :: (_, unit) outcome)"
    using poll_deliver_total by blast
  then show ?thesis using assms StEstablished by (simp add: conn_poll_deliver_def conn_inv_def)
next
  case (StClosed reason rv)
  show ?thesis
  proof (cases rv)
    case (Some r)
    obtain r' p where "poll_deliver r now = (Ok (r', p) :: (_, unit) outcome)"
      using poll_deliver_total by blast
    then show ?thesis using assms StClosed Some by (simp add: conn_poll_deliver_def conn_inv_def)
  qed (use assms StClosed in \<open>simp add: conn_poll_deliver_def\<close>)
qed (use assms in \<open>simp add: conn_poll_deliver_def\<close>)

lemma conn_set_hs_anchor_inv: "conn_inv cp c \<Longrightarrow> conn_inv cp (conn_set_hs_anchor c t ts)"
  by (cases "cn_state c") (simp_all add: conn_set_hs_anchor_def conn_inv_def)

section \<open>The connection as a machine\<close>

datatype conn_event =
    EvDatagram instant bytes bytes bytes
  | EvTimer instant
  | EvSend instant bytes
  | EvClose instant
  | EvTransmit instant
  | EvDeliver instant
  | EvAnchor instant timestamp

fun conn_call :: "crypto_prims \<Rightarrow> connection \<Rightarrow> conn_event \<Rightarrow> (connection, unit) outcome" where
  "conn_call cp c (EvDatagram now rs rk buf) = handle_datagram cp rs rk c now buf"
| "conn_call cp c (EvTimer now) = Ok (handle_timer c now)"
| "conn_call cp c (EvSend now payload) =
     (case conn_send cp c now payload of (c', Panic) \<Rightarrow> Panic | (c', _) \<Rightarrow> Ok c')"
| "conn_call cp c (EvClose now) = Ok (close c now)"
| "conn_call cp c (EvTransmit now) = bind_outcome (conn_poll_transmit c now) (\<lambda>(c', _). Ok c')"
| "conn_call cp c (EvDeliver now) = bind_outcome (conn_poll_deliver c now) (\<lambda>(c', _). Ok c')"
| "conn_call cp c (EvAnchor at_instant ts) = Ok (conn_set_hs_anchor c at_instant ts)"

definition conn_step :: "crypto_prims \<Rightarrow> (connection, unit) outcome \<Rightarrow> conn_event \<Rightarrow> (connection, unit) outcome" where
  "conn_step cp oc e = bind_outcome oc (\<lambda>c. conn_call cp c e)"

definition conn_good :: "crypto_prims \<Rightarrow> (connection, unit) outcome \<Rightarrow> bool" where
  "conn_good cp oc \<longleftrightarrow> prims_ok cp \<and> (\<exists>c. oc = Ok c \<and> conn_inv cp c)"

lemma conn_call_inv:
  assumes "prims_ok cp" "conn_inv cp c" shows "\<exists>c'. conn_call cp c e = Ok c' \<and> conn_inv cp c'"
proof (cases e)
  case (EvDatagram now rs rk buf)
  then show ?thesis using handle_datagram_inv [OF assms] by simp
next
  case (EvSend now payload)
  then show ?thesis
    using conn_send_inv [OF assms, of now payload]
    by (cases "conn_send cp c now payload"; cases "snd (conn_send cp c now payload)") auto
next
  case (EvTransmit now)
  then show ?thesis using conn_poll_transmit_inv [OF assms(2), of now] by auto
next
  case (EvDeliver now)
  then show ?thesis using conn_poll_deliver_inv [OF assms(2), of now] by auto
qed (use assms(2) in \<open>simp_all add: handle_timer_inv conn_close_inv conn_set_hs_anchor_inv\<close>)

interpretation conn: inv_machine "conn_step cp" "\<lambda>_ _. True" "conn_good cp" for cp
  using conn_call_inv by unfold_locales (auto simp: conn_step_def conn_good_def)

lemma conn_run_ok [simp]: "conn.run_ok cp oc es"
  by (induction es arbitrary: oc) simp_all

lemma connect_inv:
  "bandwidth_validate (op_bandwidth opts) = Ok () \<Longrightarrow> conn_inv cp (connect_with_timebase now remote cid isn opts tb)"
  by (simp add: connect_with_timebase_def conn_inv_def caller_new_def crypto_ok_def split: outcome.splits)

lemma accepted_inv:
  assumes "bandwidth_validate (op_bandwidth opts) = Ok ()" "crypto_ok cp (ng_crypto n)"
  shows "conn_inv cp (accepted_with_timebase now n reply opts tb)"
proof -
  obtain s r where "transmission_pair now n opts tb = (s, r)" by fastforce
  then show ?thesis
    using transmission_pair_inv [OF assms(1), of now n tb s r] assms by (simp add: accepted_with_timebase_def conn_inv_def)
qed

end
