(* ===== verification/Connection_Props.thy ===== *)
theory Connection_Props
  imports Connection_Inv Receiver_Timing "HOL-Library.Sublist"
begin

text \<open>
  Guarantees of a connection over every sequence of inputs: no panic, closing is final, a silent peer
  is detected but never too early, the peer is kept informed, and sleeping until the announced deadline
  misses no timer.
\<close>

section \<open>Any input\<close>

text \<open>
  C5.  A connection never panics.  Opened by either constructor with a valid bandwidth option, it
  survives every sequence of datagrams with arbitrary bytes, timer calls, sends, closes, polls and
  random bytes; its queues before establishment stay bounded, and once established its sender and engine
  satisfy their invariants.
\<close>

theorem connection_never_panics:
  assumes "prims_ok cp" "bandwidth_validate (op_bandwidth opts) = Ok ()"
    and "c0 = connect now remote cid isn opts
       \<or> (case ng_crypto n of None \<Rightarrow> True | Some e \<Rightarrow> crypto_inv cp e) \<and> c0 = accepted now n reply opts"
  shows "\<exists>c. foldl (conn_step cp) (Ok c0) es = Ok c \<and> conn_inv cp c"
proof -
  have "conn_inv cp c0"
    using assms(2,3) connect_inv [of opts cp] accepted_inv [of opts cp n]
    by (auto simp: connect_def accepted_def crypto_ok_def split: option.splits)
  then have "conn_good cp (Ok c0)" using assms(1) by (simp add: conn_good_def)
  then have "conn_good cp (foldl (conn_step cp) (Ok c0) es)" using conn.run_inv by simp
  then show ?thesis by (simp add: conn_good_def)
qed

theorem connection_never_panics_witness:
  "\<exists>c. foldl (conn_step demo_prims) (Ok (connect 0 (demo_addr 9000) (SocketId 5) (SeqNumber 77) (demo_options None)))
      [EvTransmit 0, EvSend 1 [1, 2, 3], EvDatagram 2 [] [] [0x80, 0, 1], EvTimer 3, EvDatagram 4 [] [] [], EvDeliver 5,
       EvClose 6, EvSend 7 []] = Ok c \<and> conn_inv demo_prims c"
  by (rule connection_never_panics [OF demo_prims_ok _ disjI1 [OF refl]]) (simp add: demo_options_def default_options_def)

section \<open>Closing\<close>

lemma closed_call:
  assumes "cn_state c = StClosed reason rv"
  shows "\<exists>c' rv'. conn_call cp c e = Ok c' \<and> cn_state c' = StClosed reason rv' \<and> (rv' = None \<longleftrightarrow> rv = None)
    \<and> cn_closed_stats c' = cn_closed_stats c \<and> suffix (cn_transmit_q c') (cn_transmit_q c)"
proof (cases e)
  case (EvDatagram now rs rk buf)
  have "packet_parse buf \<noteq> Panic" by (simp add: packet_parse_def no_panic)
  then show ?thesis
    using assms EvDatagram
    by (cases "packet_parse buf")
      (auto simp: handle_datagram_def handle_packet_def is_closed_def touch_def split: packet_error.splits)
next
  case (EvTransmit now)
  then show ?thesis
    using assms
    by (cases "cn_transmit_q c")
      (auto simp: conn_poll_transmit_def next_transmit_def Let_def intro: suffix_ConsI)
next
  case (EvDeliver now)
  show ?thesis
  proof (cases rv)
    case (Some r)
    obtain r' p where "poll_deliver r now = (Ok (r', p) :: (_, unit) outcome)" using poll_deliver_total by blast
    then show ?thesis using assms EvDeliver Some by (simp add: conn_poll_deliver_def)
  qed (use assms EvDeliver in \<open>simp add: conn_poll_deliver_def\<close>)
qed (use assms in \<open>simp_all add: handle_timer_def conn_send_def close_def conn_set_hs_anchor_def\<close>)

text \<open>
  C27.  Closing is final.  After a connection is closed, whatever arrives or is called, it stays closed
  with the same reason and the same final statistics, and what it still transmits is the queue of
  packets it owed, in order; sends report the reason, no timer is due once the queue is drained, and the
  receive buffer is kept for draining exactly if the connection had been established.
\<close>

theorem closed_is_final:
  assumes "cn_state c = StClosed reason rv"
  shows "\<exists>c' rv'. foldl (conn_step cp) (Ok c) es = Ok c' \<and> cn_state c' = StClosed reason rv'
    \<and> (rv' = None \<longleftrightarrow> rv = None) \<and> conn_stats c' = conn_stats c \<and> suffix (cn_transmit_q c') (cn_transmit_q c)
    \<and> conn_send cp c' now payload = (c', Err (Closed reason))
    \<and> (cn_transmit_q c' = [] \<longrightarrow> conn_next_deadline c' now = None)"
  using assms
proof (induction es arbitrary: c rv)
  case Nil
  then show ?case by (simp add: conn_send_def conn_next_deadline_def)
next
  case (Cons e es)
  obtain c1 rv1 where c1: "conn_call cp c e = Ok c1" "cn_state c1 = StClosed reason rv1" "rv1 = None \<longleftrightarrow> rv = None"
    "cn_closed_stats c1 = cn_closed_stats c" "suffix (cn_transmit_q c1) (cn_transmit_q c)"
    using closed_call [OF Cons.prems] by blast
  have "conn_stats c1 = conn_stats c" using c1(2,4) Cons.prems by (simp add: conn_stats_def)
  then show ?case
    using Cons.IH [OF c1(2)] c1(1,3,5) suffix_order.trans by (fastforce simp: conn_step_def)
qed

theorem closed_is_final_witness:
  "let c = close (connect 0 (demo_addr 9000) (SocketId 5) (SeqNumber 77) (demo_options None)) 5 in
   \<exists>c' rv'. foldl (conn_step demo_prims) (Ok c) [EvSend 6 [1], EvTimer 7] = Ok c'
     \<and> cn_state c' = StClosed CloseLocal rv' \<and> conn_send demo_prims c' 8 [2] = (c', Err (Closed CloseLocal))"
proof -
  let ?c = "close (connect 0 (demo_addr 9000) (SocketId 5) (SeqNumber 77) (demo_options None)) 5"
  have "cn_state ?c = StClosed CloseLocal None"
    by (simp add: close_def connect_def connect_with_timebase_def close_with_def is_closed_def)
  from closed_is_final [OF this, of demo_prims "[EvSend 6 [1], EvTimer 7]" 8 "[2]"] show ?thesis
    unfolding Let_def by blast
qed

section \<open>Timers\<close>

lemma receiver_on_timer_rtt [simp]: "receiver_rtt (receiver_on_timer r now) = receiver_rtt r"
  by (simp add: receiver_rtt_def receiver_on_timer_def nak_timer_def ack_timer_def queue_full_ack_def emit_full_ack_def
      queue_nak_def Let_def)

lemma exp_deadline_mono:
  assumes "m \<le> n" shows "exp_deadline t m rtt \<le> exp_deadline t n rtt"
proof -
  have "max m 1 \<le> max n 1" using assms by simp
  then have "max m 1 * k \<le> max n 1 * k" for k by (rule mult_le_mono1)
  then show ?thesis
    unfolding exp_deadline_def Let_def
    by (intro add_left_mono from_micros_mono [THEN iffD2] max.mono add_right_mono)
qed

lemma exp_deadline_floor: "t + from_micros (n * EXP_MIN_INTERVAL_US) \<le> exp_deadline t n rtt"
proof -
  have "n * EXP_MIN_INTERVAL_US \<le> max n 1 * EXP_MIN_INTERVAL_US" by (intro mult_le_mono1) simp
  then show ?thesis
    unfolding exp_deadline_def Let_def
    by (intro add_left_mono from_micros_mono [THEN iffD2] max.coboundedI2)
qed

text \<open>One timer call on an established connection, by what the timers decide.\<close>

lemma handle_timer_established:
  assumes "cn_state c = StEstablished s r cr"
  obtains (peer_idle) "fst (exp_timer c now (receiver_rtt r))"
      "cn_state (handle_timer c now) = StClosed PeerIdle (Some (receiver_on_timer r now))"
  | (data_idle) "\<not> fst (exp_timer c now (receiver_rtt r))" "data_idle_due c now"
      "cn_state (handle_timer c now) = StClosed DataIdle (Some (receiver_on_timer r now))"
  | (alive) "\<not> fst (exp_timer c now (receiver_rtt r))" "\<not> data_idle_due c now"
      "handle_timer c now = c\<lparr> cn_state := StEstablished (sender_on_timer s now) (receiver_on_timer r now) cr,
         cn_exp_count := snd (exp_timer c now (receiver_rtt r)),
         cn_transmit_q := cn_transmit_q c @ (if since now (cn_last_sent c) \<ge> KEEPALIVE_INTERVAL then [control KeepAlive] else []),
         cn_last_sent := (if since now (cn_last_sent c) \<ge> KEEPALIVE_INTERVAL then now else cn_last_sent c) \<rparr>"
proof -
  obtain pi n where e: "exp_timer c now (receiver_rtt r) = (pi, n)" by fastforce
  consider "pi" | "\<not> pi" "data_idle_due c now" | "\<not> pi" "\<not> data_idle_due c now" by blast
  then show thesis
  proof cases
    case 1
    then show thesis
      using assms e by (intro peer_idle) (simp_all add: handle_timer_def close_with_def is_closed_def Let_def)
  next
    case 2
    then show thesis
      using assms e by (intro data_idle) (simp_all add: handle_timer_def close_with_def is_closed_def Let_def)
  next
    case 3
    then show thesis
      using assms e by (intro alive) (simp_all add: handle_timer_def Let_def)
  qed
qed

lemma exp_timer_alive:
  assumes "\<not> fst (exp_timer c now rtt)" "cn_exp_count c \<le> n" "exp_deadline (cn_last_recv c) n rtt \<le> now"
    and "cn_last_recv c + op_peer_idle_timeout (cn_opts c) \<le> now"
  shows "snd (exp_timer c now rtt) = cn_exp_count c + 1 \<and> cn_exp_count c \<le> EXP_MAX_COUNT"
proof -
  have "exp_deadline (cn_last_recv c) (cn_exp_count c) rtt \<le> now"
    using exp_deadline_mono [OF assms(2), of "cn_last_recv c" rtt] assms(3) by simp
  then show ?thesis using assms(1,4) by (auto simp: exp_timer_def split: if_splits)
qed

definition idle_bound :: "connection \<Rightarrow> u32 \<times> u32 \<Rightarrow> instant" where
  "idle_bound c rtt =
     max (cn_last_recv c + op_peer_idle_timeout (cn_opts c))
         (exp_deadline (cn_last_recv c) (max (cn_exp_count c) (EXP_MAX_COUNT + 1)) rtt)"

lemma closed_stays_timer: "cn_state c = StClosed reason rv \<Longrightarrow> foldl handle_timer c ts = c"
  by (induction ts) (simp_all add: handle_timer_def)

lemma silent_run:
  assumes "cn_state c = StEstablished s r cr" "\<forall>t \<in> set ts. idle_bound c (receiver_rtt r) \<le> t"
    and "EXP_MAX_COUNT + 1 < cn_exp_count c + length ts"
    and "ts \<noteq> []"
  shows "\<exists>reason rv. cn_state (foldl handle_timer c ts) = StClosed reason (Some rv)
    \<and> (reason = PeerIdle \<or> reason = DataIdle \<and> op_data_idle_timeout (cn_opts c) \<noteq> None)"
  using assms
proof (induction ts arbitrary: c s r)
  case (Cons t ts)
  have bound: "cn_exp_count c \<le> max (cn_exp_count c) (EXP_MAX_COUNT + 1)"
    "exp_deadline (cn_last_recv c) (max (cn_exp_count c) (EXP_MAX_COUNT + 1)) (receiver_rtt r) \<le> t"
    "cn_last_recv c + op_peer_idle_timeout (cn_opts c) \<le> t"
    using Cons.prems(2) by (simp_all add: idle_bound_def)
  from Cons.prems(1) show ?case
  proof (cases rule: handle_timer_established [where now = t])
    case peer_idle
    then show ?thesis using closed_stays_timer by fastforce
  next
    case data_idle
    then have "op_data_idle_timeout (cn_opts c) \<noteq> None" by (auto simp: data_idle_due_def split: option.splits)
    then show ?thesis using data_idle(3) closed_stays_timer by fastforce
  next
    case alive
    note up = exp_timer_alive [OF alive(1) bound]
    define c1 where "c1 = handle_timer c t"
    have c1: "cn_state c1 = StEstablished (sender_on_timer s t) (receiver_on_timer r t) cr" "cn_opts c1 = cn_opts c"
      "cn_last_recv c1 = cn_last_recv c" "cn_exp_count c1 = cn_exp_count c + 1"
      using alive(3) up by (simp_all add: c1_def)
    have "idle_bound c1 (receiver_rtt (receiver_on_timer r t)) = idle_bound c (receiver_rtt r)"
      using up c1 by (simp add: idle_bound_def EXP_MAX_COUNT_def max_def)
    moreover have "ts \<noteq> []" using up Cons.prems(3) by auto
    ultimately show ?thesis
      using Cons.IH [OF c1(1)] Cons.prems(2,3) c1 by (simp add: c1_def [symmetric])
  qed
qed simp

text \<open>
  When a break for peer idleness happens: after the configured timeout, and not before seventeen
  expirations of at least 300 ms each.
\<close>

lemma idle_break_bounds:
  assumes "cn_state c = StEstablished s r cr" "conn_state_of (cn_state (handle_timer c now)) = ClosedState PeerIdle"
  shows "cn_last_recv c + op_peer_idle_timeout (cn_opts c) \<le> now" "cn_last_recv c + from_millis 5100 \<le> now"
proof -
  have "cn_last_recv c + op_peer_idle_timeout (cn_opts c) \<le> now \<and> cn_last_recv c + from_millis 5100 \<le> now"
    using assms(1)
  proof (cases rule: handle_timer_established [where now = now])
    case peer_idle
    then have due: "exp_deadline (cn_last_recv c) (cn_exp_count c) (receiver_rtt r) \<le> now" "17 \<le> cn_exp_count c"
        "op_peer_idle_timeout (cn_opts c) \<le> since now (cn_last_recv c)"
      by (auto simp: exp_timer_def EXP_MAX_COUNT_def split: if_splits)
    have floor: "cn_last_recv c + from_micros (17 * EXP_MIN_INTERVAL_US) \<le> now"
      using exp_deadline_floor [of "cn_last_recv c" 17 "receiver_rtt r"]
        exp_deadline_mono [OF due(2), of "cn_last_recv c" "receiver_rtt r"] due(1) by linarith
    then show ?thesis using due(3) by (simp add: from_micros_def from_millis_def EXP_MIN_INTERVAL_US_def)
  qed (use assms(2) in simp_all)
  then show "cn_last_recv c + op_peer_idle_timeout (cn_opts c) \<le> now" "cn_last_recv c + from_millis 5100 \<le> now"
    by simp_all
qed

lemma silent_run_early:
  assumes "cn_state c = StEstablished s r cr"
    and "conn_state_of (cn_state (foldl handle_timer c ts)) = ClosedState PeerIdle"
  shows "\<exists>t \<in> set ts. cn_last_recv c + op_peer_idle_timeout (cn_opts c) \<le> t"
  using assms
proof (induction ts arbitrary: c s r)
  case (Cons t ts)
  from Cons.prems(1) show ?case
  proof (cases rule: handle_timer_established [where now = t])
    case peer_idle
    then show ?thesis using idle_break_bounds(1) [OF Cons.prems(1), of t] by simp
  next
    case data_idle
    then show ?thesis using Cons.prems(2) closed_stays_timer [OF data_idle(3)] by simp
  next
    case alive
    then show ?thesis
      using Cons.IH [of "handle_timer c t" "sender_on_timer s t" "receiver_on_timer r t"] Cons.prems(2) by simp
  qed
qed simp

text \<open>Every packet addressed to the connection restarts the idle clock.\<close>

lemma close_with_clock [simp]:
  "cn_last_recv (close_with c now reason b) = cn_last_recv c" "cn_exp_count (close_with c now reason b) = cn_exp_count c"
  by (simp_all add: close_with_def Let_def)

lemma packet_restarts_clock:
  assumes "cn_state c = StEstablished s r cr" "handle_packet cp rs rk c now p = Ok c'"
    and "packet_dst_socket_id p \<in> {SID_HANDSHAKE, cn_local_socket_id c}"
  shows "cn_last_recv c' = now \<and> cn_exp_count c' = 1"
proof (cases p)
  case (Data d)
  then show ?thesis
    using assms by (auto simp: handle_packet_def is_closed_def handle_data_packet_def touch_def Let_def split: prod.splits)
next
  case (Control k)
  then have "handle_control_packet cp rs rk (touch c now) now k = Ok c'"
    using assms by (auto simp: handle_packet_def is_closed_def)
  then show ?thesis
    using assms(1)
    by (cases "cp_control_type k")
      (auto simp: handle_control_packet_def handle_handshake_packet_def handle_transmission_control_def
        conn_handle_kmreq_def conn_handle_kmrsp_def touch_def Let_def bind_outcome_Ok_iff
        split: option.splits bool.splits if_splits prod.splits)
qed

text \<open>
  C18.  A silent peer is detected, and never too early.  However often its timer runs, a connection
  breaks for peer idleness only when the configured timeout has passed since the last packet received;
  every packet addressed to it restarts that clock and the count of expirations; and once both the
  timeout and the last expiration deadline have passed, seventeen timer calls without a packet from
  the peer close it.
\<close>

theorem silent_peer_detected:
  assumes "cn_state c = StEstablished s r cr"
  shows "(conn_state_of (cn_state (foldl handle_timer c ts)) = ClosedState PeerIdle \<longrightarrow>
      (\<exists>t \<in> set ts. cn_last_recv c + op_peer_idle_timeout (cn_opts c) \<le> t))
    \<and> (handle_packet cp rs rk c now p = Ok c' \<and> packet_dst_socket_id p \<in> {SID_HANDSHAKE, cn_local_socket_id c} \<longrightarrow>
      cn_last_recv c' = now \<and> cn_exp_count c' = 1)
    \<and> ((\<forall>t \<in> set ts. idle_bound c (receiver_rtt r) \<le> t) \<and> 17 \<le> length ts \<and> 1 \<le> cn_exp_count c \<longrightarrow>
      conn_state_of (cn_state (foldl handle_timer c ts)) = ClosedState PeerIdle
      \<or> conn_state_of (cn_state (foldl handle_timer c ts)) = ClosedState DataIdle
        \<and> op_data_idle_timeout (cn_opts c) \<noteq> None)"
proof (intro conjI impI; (elim conjE)?)
  assume "conn_state_of (cn_state (foldl handle_timer c ts)) = ClosedState PeerIdle"
  with assms show "\<exists>t \<in> set ts. cn_last_recv c + op_peer_idle_timeout (cn_opts c) \<le> t" by (rule silent_run_early)
next
  assume "handle_packet cp rs rk c now p = Ok c'" "packet_dst_socket_id p \<in> {SID_HANDSHAKE, cn_local_socket_id c}"
  with packet_restarts_clock [OF assms] show "cn_last_recv c' = now" "cn_exp_count c' = 1" by blast+
next
  assume "\<forall>t \<in> set ts. idle_bound c (receiver_rtt r) \<le> t" "17 \<le> length ts" "1 \<le> cn_exp_count c"
  then show "conn_state_of (cn_state (foldl handle_timer c ts)) = ClosedState PeerIdle
      \<or> conn_state_of (cn_state (foldl handle_timer c ts)) = ClosedState DataIdle
        \<and> op_data_idle_timeout (cn_opts c) \<noteq> None"
    using silent_run [OF assms, of ts] by (cases ts) (auto simp: EXP_MAX_COUNT_def)
qed

text \<open>
  C30.  The peer is kept informed.  After a timer call an established connection has either closed or
  was heard within the last second: when nothing has been sent for a second exactly one KEEPALIVE is
  queued, otherwise nothing is; and the announced deadline never lies more than a second after the last
  transmission.
\<close>

theorem keepalive_timely:
  assumes "cn_state c = StEstablished s r cr" "c' = handle_timer c now"
  shows "is_closed c' \<or>
    (now < cn_last_sent c' + KEEPALIVE_INTERVAL
     \<and> cn_transmit_q c' = cn_transmit_q c
         @ (if now < cn_last_sent c + KEEPALIVE_INTERVAL then [] else [control KeepAlive])
     \<and> (case conn_next_deadline c' now of
          Some d \<Rightarrow> d \<le> max now (cn_last_sent c' + KEEPALIVE_INTERVAL) | None \<Rightarrow> False))"
  using assms(1)
proof (cases rule: handle_timer_established [where now = now])
  case peer_idle
  then show ?thesis using assms(2) by (simp add: is_closed_def)
next
  case data_idle
  then show ?thesis using assms(2) by (simp add: is_closed_def)
next
  case alive
  have ka: "0 < KEEPALIVE_INTERVAL" by (simp add: KEEPALIVE_INTERVAL_def from_secs_def)
  have dl: "case conn_next_deadline x now of Some d \<Rightarrow> d \<le> max now (cn_last_sent x + KEEPALIVE_INTERVAL) | None \<Rightarrow> False"
    if "cn_state x = StEstablished sx rx crx" for x sx rx crx
    using that by (auto simp: conn_next_deadline_def Let_def split: option.split)
  show ?thesis
    using alive(3) ka dl [of "handle_timer c now"] unfolding assms(2) by auto
qed

lemma sender_timer_quiet:
  assumes "case sender_next_deadline s of Some d \<Rightarrow> now < d | None \<Rightarrow> True"
  shows "sn_buffer (sender_on_timer s now) = sn_buffer s" "sn_control_queue (sender_on_timer s now) = sn_control_queue s"
proof -
  have "check_tlpktdrop s now = s"
  proof (cases "sn_buffer s")
    case (Cons e es)
    show ?thesis
    proof (cases "since (be_origin (last (sn_buffer s))) (be_origin e) \<le> drop_threshold s")
      case False
      then have "now < be_origin e + drop_threshold s"
        using assms Cons by (auto simp: sender_next_deadline_def Let_def split: option.splits if_splits)
      moreover have "0 < drop_threshold s" by (simp add: drop_threshold_def TLPKTDROP_REACTION_def from_millis_def)
      ultimately have "too_late s now = 0" using Cons by (auto simp: too_late_def)
      then show ?thesis using Cons by (simp add: check_tlpktdrop_def)
    qed (use Cons in \<open>simp add: check_tlpktdrop_def\<close>)
  qed (simp add: check_tlpktdrop_def)
  then show "sn_buffer (sender_on_timer s now) = sn_buffer s"
      "sn_control_queue (sender_on_timer s now) = sn_control_queue s"
    by (simp_all add: sender_on_timer_def refresh_pacer_def)
qed

text \<open>The components of the announced deadline.\<close>

lemma next_deadline_parts:
  assumes "cn_state c = StEstablished s r cr" "cn_transmit_q c = []" "conn_next_deadline c t0 = Some d"
  shows "d \<le> cn_last_sent c + KEEPALIVE_INTERVAL"
    "d \<le> exp_deadline (cn_last_recv c) (cn_exp_count c) (receiver_rtt r)"
    "op_data_idle_timeout (cn_opts c) = Some w \<Longrightarrow> d \<le> cn_last_data c + w"
    "sender_next_deadline s = Some ds \<Longrightarrow> d \<le> ds"
    "\<exists>dr. receiver_next_deadline r t0 = Some dr \<and> d \<le> dr"
proof -
  obtain dr where dr: "receiver_next_deadline r t0 = Some dr" by (simp add: receiver_next_deadline_def Let_def)
  define d1 where "d1 = (case sender_next_deadline s of Some t \<Rightarrow> min dr t | None \<Rightarrow> dr)"
  define d3 where "d3 = min (min d1 (cn_last_sent c + KEEPALIVE_INTERVAL))
    (exp_deadline (cn_last_recv c) (cn_exp_count c) (receiver_rtt r))"
  have d: "d = (case op_data_idle_timeout (cn_opts c) of Some w \<Rightarrow> min d3 (cn_last_data c + w) | None \<Rightarrow> d3)"
    using assms by (simp add: conn_next_deadline_def dr Let_def d3_def d1_def cong: option.case_cong)
  have "d \<le> d3" unfolding d by (simp split: option.split)
  moreover have "d1 \<le> dr" "sender_next_deadline s = Some ds \<Longrightarrow> d1 \<le> ds" unfolding d1_def by (simp_all split: option.split)
  ultimately show "d \<le> cn_last_sent c + KEEPALIVE_INTERVAL"
    "d \<le> exp_deadline (cn_last_recv c) (cn_exp_count c) (receiver_rtt r)"
    "sender_next_deadline s = Some ds \<Longrightarrow> d \<le> ds" "\<exists>dr. receiver_next_deadline r t0 = Some dr \<and> d \<le> dr"
    using dr unfolding d3_def by auto
  show "op_data_idle_timeout (cn_opts c) = Some w \<Longrightarrow> d \<le> cn_last_data c + w" unfolding d by simp
qed

text \<open>
  C28.  A driver may sleep.  Before the deadline an idle established connection announces, a timer
  call queues nothing, drops nothing, counts no expiration and does not close; so driving the
  connection only at its deadlines loses no acknowledgement, loss report, keepalive, drop or break.
\<close>

theorem connection_sleep_safe:
  assumes "cn_state c = StEstablished s r cr" "cn_transmit_q c = []"
    and "conn_next_deadline c t0 = Some d" "t0 \<le> now" "now < d" "cn_last_data c \<le> t0"
  shows "\<exists>s' r'. cn_state (handle_timer c now) = StEstablished s' r' cr
    \<and> cn_transmit_q (handle_timer c now) = [] \<and> cn_exp_count (handle_timer c now) = cn_exp_count c
    \<and> sn_buffer s' = sn_buffer s \<and> sn_control_queue s' = sn_control_queue s \<and> rv_control_q r' = rv_control_q r"
proof -
  note parts = next_deadline_parts [OF assms(1-3)]
  obtain dr where "receiver_next_deadline r t0 = Some dr" "d \<le> dr" using parts(5) by blast
  then have rq: "rv_control_q (receiver_on_timer r now) = rv_control_q r"
    using deadline_ahead(1,2) [of r t0 dr now] assms(4,5) by (intro receiver_timer_quiet) simp_all
  have sq: "sn_buffer (sender_on_timer s now) = sn_buffer s" "sn_control_queue (sender_on_timer s now) = sn_control_queue s"
    using parts(4) assms(5) by (auto intro!: sender_timer_quiet split: option.split)
  have exp: "exp_timer c now (receiver_rtt r) = (False, cn_exp_count c)"
    using parts(2) assms(5) by (simp add: exp_timer_def)
  have idle: "\<not> data_idle_due c now"
    using parts(3) assms(4-6) by (fastforce simp: data_idle_due_def split: option.splits)
  from assms(1) show ?thesis
  proof (cases rule: handle_timer_established [where now = now])
    case alive
    have "\<not> since now (cn_last_sent c) \<ge> KEEPALIVE_INTERVAL"
      using parts(1) assms(5) by (simp add: KEEPALIVE_INTERVAL_def from_secs_def)
    then show ?thesis using alive(3) rq sq exp assms(2) by simp
  qed (use exp idle in simp_all)
qed

section \<open>An example connection\<close>

definition demo_negotiated :: "crypto option \<Rightarrow> negotiated" where
  "demo_negotiated e = \<lparr> ng_remote = demo_addr 4000, ng_local_socket_id = SocketId 6, ng_peer_socket_id = SocketId 5,
     ng_send_initial_seq = SeqNumber 77, ng_recv_initial_seq = SeqNumber 77, ng_snd_latency = from_millis 120,
     ng_rcv_latency = from_millis 120, ng_streamid = None, ng_mss = 1500, ng_flow_window = 8192, ng_crypto = e \<rparr>"

definition demo_conn :: connection where
  "demo_conn = (accepted 0 (demo_negotiated None) (control KeepAlive) (demo_options None))\<lparr> cn_transmit_q := [] \<rparr>"

definition demo_pair :: "sender \<times> receiver" where
  "demo_pair = transmission_pair 0 (demo_negotiated None) (demo_options None) \<lparr> tb_start = 0 \<rparr>"

lemma demo_conn_state:
  "cn_state demo_conn = StEstablished (fst demo_pair) (snd demo_pair) None"
  "cn_transmit_q demo_conn = []" "cn_opts demo_conn = demo_options None" "cn_exp_count demo_conn = 1"
  "cn_last_recv demo_conn = 0" "cn_last_sent demo_conn = 0" "cn_last_data demo_conn = 0"
  by (simp_all add: demo_conn_def demo_pair_def accepted_def accepted_with_timebase_def timebase_new_def demo_negotiated_def
      split: prod.split)

lemma demo_rtt: "receiver_rtt (snd demo_pair) = (RCV_INITIAL_RTT_US, RCV_INITIAL_RTT_VAR_US)"
  by (simp add: demo_pair_def transmission_pair_def receiver_rtt_def receiver_new_def set_max_payload_def Let_def)

theorem silent_peer_detected_witness:
  "conn_state_of (cn_state (foldl handle_timer demo_conn (replicate 17 (from_secs 10)))) = ClosedState PeerIdle
    \<and> conn_state_of (cn_state (foldl handle_timer demo_conn (replicate 20 (from_secs 4)))) \<noteq> ClosedState PeerIdle
    \<and> (\<exists>c'. handle_packet demo_prims [] [] demo_conn (from_secs 3) (control KeepAlive) = Ok c' \<and> cn_last_recv c' = from_secs 3)"
proof (intro conjI)
  note idle = silent_peer_detected [OF demo_conn_state(1)]
  have "idle_bound demo_conn (receiver_rtt (snd demo_pair)) \<le> from_secs 10"
    by (simp add: idle_bound_def demo_rtt demo_conn_state demo_options_def default_options_def exp_deadline_def
        EXP_MAX_COUNT_def EXP_MIN_INTERVAL_US_def EXP_PAD_US_def RCV_INITIAL_RTT_US_def RCV_INITIAL_RTT_VAR_US_def
        from_micros_def from_secs_def)
  then show "conn_state_of (cn_state (foldl handle_timer demo_conn (replicate 17 (from_secs 10)))) = ClosedState PeerIdle"
    using idle [of "replicate 17 (from_secs 10)"] demo_conn_state by (simp add: demo_options_def default_options_def)
  show "conn_state_of (cn_state (foldl handle_timer demo_conn (replicate 20 (from_secs 4)))) \<noteq> ClosedState PeerIdle"
    using idle [of "replicate 20 (from_secs 4)"] demo_conn_state
    by (auto simp: demo_options_def default_options_def from_secs_def)
  have dst: "packet_dst_socket_id (control KeepAlive) \<in> {SID_HANDSHAKE, cn_local_socket_id demo_conn}"
    by (simp add: control_def)
  obtain c' where "handle_packet demo_prims [] [] demo_conn (from_secs 3) (control KeepAlive) = Ok c'"
    using dst by (auto simp: handle_packet_def is_closed_def demo_conn_state handle_control_packet_def control_def)
  then show "\<exists>c'. handle_packet demo_prims [] [] demo_conn (from_secs 3) (control KeepAlive) = Ok c' \<and> cn_last_recv c' = from_secs 3"
    using idle [of _ demo_prims "[]" "[]" "from_secs 3" "control KeepAlive" c'] dst by blast
qed

theorem keepalive_timely_witness:
  "let c' = handle_timer demo_conn (from_secs 2) in
   is_closed c' \<or> (from_secs 2 < cn_last_sent c' + KEEPALIVE_INTERVAL \<and> cn_transmit_q c' = [control KeepAlive])"
  using keepalive_timely [OF demo_conn_state(1) refl, of "from_secs 2"] demo_conn_state
  by (auto simp: Let_def KEEPALIVE_INTERVAL_def from_secs_def)

theorem connection_sleep_safe_witness:
  "\<exists>s' r'. cn_state (handle_timer demo_conn 9000000) = StEstablished s' r' None
    \<and> cn_transmit_q (handle_timer demo_conn 9000000) = []"
proof -
  have "conn_next_deadline demo_conn 0 = Some 10000000"
    by (simp add: conn_next_deadline_def demo_conn_state demo_rtt demo_pair_def transmission_pair_def Let_def
        receiver_next_deadline_def set_max_payload_def receiver_new_def sender_next_deadline_def sender_new_def
        demo_options_def default_options_def FULL_ACK_INTERVAL_def from_millis_def from_secs_def exp_deadline_def
        KEEPALIVE_INTERVAL_def EXP_MIN_INTERVAL_US_def EXP_PAD_US_def RCV_INITIAL_RTT_US_def
        RCV_INITIAL_RTT_VAR_US_def from_micros_def pacer_new_def receiver_rtt_def)
  from connection_sleep_safe [OF demo_conn_state(1,2) this, of 9000000] show ?thesis
    using demo_conn_state(7) by auto
qed

end
