(* ===== verification/Data_Path.thy ===== *)
theory Data_Path
  imports Connection_Props Sender_Props
begin

text \<open>
  The path of the data from one application to the other: the sending half of an established
  connection (sender and engine), a network that holds every packet ever sent and hands out any of
  them in any order, any number of times or never, and the receiving half (decryption step, receiver)
  of the peer.
\<close>

section \<open>Opening a packet\<close>

definition opened :: "crypto_prims \<Rightarrow> crypto option \<Rightarrow> data_packet \<Rightarrow> bytes option" where
  "opened cp cb d =
     (case cb of
        None \<Rightarrow> if dp_encryption d = EncNone then Some (dp_payload d) else None
      | Some b \<Rightarrow>
          (case snd (decrypt cp b (dp_seq d) (dp_encryption d) (dp_payload d)) of Ok p \<Rightarrow> Some p | _ \<Rightarrow> None))"

fun as_arrival :: "instant \<Rightarrow> data_packet \<Rightarrow> bytes option \<Rightarrow> rcv_event" where
  "as_arrival now d (Some p) = RcvData now (d\<lparr> dp_payload := p, dp_encryption := EncNone \<rparr>)"
| "as_arrival now d None = RcvUndecryptable now d"

lemma ingest_data_opened:
  "fst (ingest_data cp now r cb d) = rcv_step r (as_arrival now d (opened cp cb d))"
proof (cases cb)
  case None
  then show ?thesis by (simp add: ingest_data_def opened_def)
next
  case (Some b)
  obtain b' res where dec: "decrypt cp b (dp_seq d) (dp_encryption d) (dp_payload d) = (b', res)" by force
  then show ?thesis by (cases res) (simp_all add: Some ingest_data_def opened_def)
qed

text \<open>
  \<open>no_stale\<close>: in the slot the sender encrypts with, the reader has no usable key or the sender's own.
  The keystream carries no authentication, so a reader that still held an older key under the same
  slot would turn the packet into noise.
\<close>

definition no_stale :: "crypto option \<Rightarrow> crypto option \<Rightarrow> bool" where
  "no_stale ca cb =
     (case (ca, cb) of
        (Some a, Some b) \<Rightarrow>
          cr_rcv_state b = KmSecured \<longrightarrow>
          (case (cr_tx a (cr_active a), cr_rx b (cr_active a)) of
             (Some k, Some key) \<Rightarrow> key = tk_cipher k \<and> cr_rx_salt b = cr_salt a
           | _ \<Rightarrow> True)
      | _ \<Rightarrow> True)"

lemma keyed_no_stale:
  assumes "crypto_inv cp a" "keyed_for a b" shows "no_stale (Some a) (Some b)"
proof -
  obtain k where k: "cr_tx a (cr_active a) = Some k" "tk_state k = TxActive" using assms(1) by (rule crypto_inv_tx)
  then have "cr_rx b (cr_active a) = Some (tk_cipher k)" "cr_rx_salt b = cr_salt a"
    using assms(2) by (simp_all add: keyed_for_def)
  then show ?thesis using k(1) by (simp add: no_stale_def)
qed

text \<open>
  An entry of the log is a payload with the engine it was sealed under; opening the packet gives
  that payload or nothing, with every engine that is not stale for it.
\<close>

definition sealed :: "crypto_prims \<Rightarrow> data_packet \<Rightarrow> crypto option \<times> bytes \<Rightarrow> bool" where
  "sealed cp d entry \<longleftrightarrow> (\<forall>cb. no_stale (fst entry) cb \<longrightarrow> opened cp cb d \<in> {None, Some (snd entry)})"

lemma sealed_cong:
  "dp_seq d = dp_seq d' \<Longrightarrow> dp_encryption d = dp_encryption d' \<Longrightarrow> dp_payload d = dp_payload d' \<Longrightarrow>
   sealed cp d entry = sealed cp d' entry"
  by (simp add: sealed_def opened_def cong: option.case_cong)

lemma encrypt_opened:
  assumes "prims_ok cp" "crypto_inv cp a" "no_stale (Some a) (Some b)"
    and "encrypt cp a sq p = (Ok (a', kk, w) :: (_, srt_error) outcome)"
  shows "snd (decrypt cp b sq kk w) \<in> {Ok p, Err NoKey}"
proof -
  obtain k where k: "cr_tx a (cr_active a) = Some k" using assms(2) by (rule crypto_inv_tx)
  then have e: "kk = (if cr_active a = EVEN then EncEven else EncOdd)"
    "w = apply_keystream cp (tk_cipher k) (cr_salt a) (seq_value sq) p"
    using assms(4) by (simp_all add: encrypt_def split: if_splits)
  have slot: "(if kk = EncEven then EVEN else ODD) = cr_active a" by (cases "cr_active a") (simp_all add: e(1))
  have "kk \<noteq> EncNone" by (simp add: e(1))
  then show ?thesis
    using assms(1,3) k slot
    by (cases "cr_rx b (cr_active a)")
      (auto simp: decrypt_def no_stale_def Let_def e(2) apply_keystream_involution)
qed

lemma encrypt_payload_sealed:
  assumes "prims_ok cp" "crypto_ok cp ca" "encrypt_payload cp ca sq p = Ok (ca', kk, w)"
    and "dp_seq d = sq" "dp_encryption d = kk" "dp_payload d = w"
  shows "sealed cp d (ca, p)"
proof (cases "\<exists>a. ca = Some a \<and> p \<noteq> []")
  case True
  then obtain a where a: "ca = Some a" "p \<noteq> []" by blast
  obtain a' where e: "encrypt cp a sq p = (Ok (a', kk, w) :: (_, srt_error) outcome)"
    using assms(3) a by (auto simp: encrypt_payload_def bind_outcome_Ok_iff)
  have kk: "kk \<noteq> EncNone" using e by (auto simp: encrypt_def split: option.splits if_splits)
  show ?thesis unfolding sealed_def
  proof (intro allI impI)
    fix cb assume ns: "no_stale (fst (ca, p)) cb"
    show "opened cp cb d \<in> {None, Some (snd (ca, p))}"
    proof (cases cb)
      case None
      then show ?thesis using kk assms(5) by (simp add: opened_def)
    next
      case (Some b)
      then have "snd (decrypt cp b sq kk w) \<in> {Ok p, Err NoKey}"
        using encrypt_opened [OF assms(1) _ _ e] assms(2) ns a by (simp add: crypto_ok_def)
      then show ?thesis using Some assms(4-6) by (auto simp: opened_def)
    qed
  qed
next
  case False
  then have "kk = EncNone \<and> w = p"
    using assms(3) by (cases ca) (auto simp: encrypt_payload_def)
  then show ?thesis
    using assms(5,6) by (auto simp: sealed_def opened_def decrypt_def split: option.split)
qed

text \<open>
  The calls on the engine that do not belong to this direction of the data; the one that would panic,
  the encryption of an empty payload, is skipped.
\<close>

definition engine_calls :: "crypto_prims \<Rightarrow> crypto option \<Rightarrow> crypto_event \<Rightarrow> crypto option" where
  "engine_calls cp cr e =
     (case cr of
        None \<Rightarrow> None
      | Some c \<Rightarrow> (case engine_call cp c e of Ok c' \<Rightarrow> Some c' | _ \<Rightarrow> Some c))"

lemma engine_calls_ok:
  assumes "prims_ok cp" "crypto_ok cp cr" shows "crypto_ok cp (engine_calls cp cr e)"
proof (cases "call_ok e")
  case True
  then show ?thesis
    using engine_call_inv [OF assms(1), of _ e] assms(2) by (fastforce simp: crypto_ok_def engine_calls_def split: option.splits)
next
  case False
  then have "engine_call cp c e = Panic" for c by (cases e) (simp_all add: encrypt_def)
  then show ?thesis using assms(2) by (simp add: engine_calls_def crypto_ok_def split: option.split)
qed

section \<open>The sending half\<close>

text \<open>
  The log is what the application handed over; the network records each packet with its index as
  the sender itself recovers it from the sequence number.
\<close>

record source =
  so_sender :: sender
  so_crypto :: "crypto option"
  so_log :: "(crypto option \<times> bytes) list"
  so_net :: "(nat \<times> data_packet) list"

datatype source_event =
    SrcSend instant bytes
  | SrcPoll instant
  | SrcAck bytes instant u32 ack_cif
  | SrcNak "loss_range list"
  | SrcTimer instant
  | SrcControl
  | SrcEngine crypto_event

fun source_step :: "crypto_prims \<Rightarrow> source \<Rightarrow> source_event \<Rightarrow> source" where
  "source_step cp x (SrcSend now p) =
     (case push cp (so_sender x) now p (so_crypto x) of
        Ok (s, cr) \<Rightarrow> x\<lparr> so_sender := s, so_crypto := cr, so_log := so_log x @ [(so_crypto x, p)] \<rparr>
      | _ \<Rightarrow> x)"
| "source_step cp x (SrcPoll now) =
     (case (poll_transmit (so_sender x) now :: (_, unit) outcome) of
        Ok (s, Some d) \<Rightarrow> x\<lparr> so_sender := s, so_net := so_net x @ [(nat (ext_of (so_sender x) (dp_seq d)), d)] \<rparr>
      | Ok (s, None) \<Rightarrow> x\<lparr> so_sender := s \<rparr>
      | _ \<Rightarrow> x)"
| "source_step cp x (SrcAck rk now n cif) =
     (case conn_on_ack cp rk (so_sender x) (so_crypto x) now n cif of
        Ok (s, cr, _) \<Rightarrow> x\<lparr> so_sender := s, so_crypto := cr \<rparr>
      | _ \<Rightarrow> x)"
| "source_step cp x (SrcNak l) = x\<lparr> so_sender := handle_nak (so_sender x) l \<rparr>"
| "source_step cp x (SrcTimer now) = x\<lparr> so_sender := sender_on_timer (so_sender x) now \<rparr>"
| "source_step cp x SrcControl = x\<lparr> so_sender := fst (sender_poll_control (so_sender x)) \<rparr>"
| "source_step cp x (SrcEngine e) = x\<lparr> so_crypto := engine_calls cp (so_crypto x) e \<rparr>"

text \<open>Loss reports come from parsed packets.\<close>

fun source_event_ok :: "source \<Rightarrow> source_event \<Rightarrow> bool" where
  "source_event_ok x (SrcNak l) = (\<forall>r \<in> set l. seq_ok (lr_first r) \<and> seq_ok (lr_last r))"
| "source_event_ok x _ = True"

definition index_seq :: "sender_config \<Rightarrow> nat \<Rightarrow> seq_number" where
  "index_seq cfg i = seq_new (of_nat (unat (seq_value (sc_initial_seq cfg)) + i))"

definition net_ok :: "crypto_prims \<Rightarrow> sender_config \<Rightarrow> (crypto option \<times> bytes) list \<Rightarrow> (nat \<times> data_packet) list \<Rightarrow> bool" where
  "net_ok cp cfg sent net \<longleftrightarrow>
     (\<forall>(i, d) \<in> set net. i < length sent \<and> dp_seq d = index_seq cfg i \<and> sealed cp d (sent ! i))"

definition store_carries :: "crypto_prims \<Rightarrow> sender \<Rightarrow> (crypto option \<times> bytes) list \<Rightarrow> bool" where
  "store_carries cp s sent \<longleftrightarrow>
     length sent = end_index s
   \<and> (\<forall>i. sn_base_index s \<le> i \<and> i < end_index s \<longrightarrow> sealed cp (packet_of s i False) (sent ! i))"

definition source_inv :: "crypto_prims \<Rightarrow> sender_config \<Rightarrow> source \<Rightarrow> bool" where
  "source_inv cp cfg x \<longleftrightarrow>
     prims_ok cp \<and> sender_inv (so_sender x) \<and> sn_cfg (so_sender x) = cfg \<and> crypto_ok cp (so_crypto x)
   \<and> store_carries cp (so_sender x) (so_log x) \<and> net_ok cp cfg (so_log x) (so_net x)"

lemma seq_at_index_seq: "seq_at s i = index_seq (sn_cfg s) i"
  by (simp add: seq_at_def index_seq_def)

lemma net_ok_append: "net_ok cp cfg sent net \<Longrightarrow> net_ok cp cfg (sent @ [e]) net"
  by (auto simp: net_ok_def nth_append)

lemma net_ok_snoc:
  "net_ok cp cfg sent (net @ [(i, d)]) \<longleftrightarrow>
   net_ok cp cfg sent net \<and> i < length sent \<and> dp_seq d = index_seq cfg i \<and> sealed cp d (sent ! i)"
  by (auto simp: net_ok_def)

text \<open>A step that keeps the buffered entries and adds none.\<close>

lemma store_carries_frame:
  assumes "store_carries cp s sent" "evolves s s'" "end_index s' = end_index s"
  shows "store_carries cp s' sent"
proof -
  have "sealed cp (packet_of s' i False) (sent ! i)" if "sn_base_index s' \<le> i" "i < end_index s'" for i
  proof -
    have "packet_of s' i False = packet_of s i False" "sn_base_index s \<le> i" "i < end_index s"
      using assms(2,3) that by (auto simp: evolves_def packet_of_def seq_at_index_seq)
    then show ?thesis using assms(1) by (simp add: store_carries_def)
  qed
  then show ?thesis using assms(1,3) by (simp add: store_carries_def)
qed

lemma source_inv_frame:
  assumes "source_inv cp cfg x" "sender_inv s" "evolves (so_sender x) s" "end_index s = end_index (so_sender x)"
    and "crypto_ok cp cr"
  shows "source_inv cp cfg (x\<lparr> so_sender := s, so_crypto := cr \<rparr>)"
  using assms store_carries_frame [OF _ assms(3,4)] by (simp add: source_inv_def evolves_def)

lemma same_core_end: "same_core a b \<Longrightarrow> end_index b = end_index a"
  by (simp add: same_core_def end_index_def)

lemma handle_ack_end:
  assumes "sender_inv s" shows "end_index (fst (handle_ack s now n cif)) = end_index s"
proof (cases "ext_of s (ac_last_ack_seq cif) \<le> int (sn_next_send_index s)")
  case True
  define i where "i = max (sn_base_index s) (nat (ext_of s (ac_last_ack_seq cif)))"
  have "same_core (acked s i) (fst (handle_ack s now n cif))"
    using handle_ack_core(1) [OF assms True i_def] by (metis prod.collapse)
  moreover have "i \<le> end_index s" "sn_base_index s \<le> i"
    using True assms by (auto simp: i_def sender_inv_defs)
  then have "end_index (acked s i) = end_index s" by (simp add: acked_def end_index_def)
  ultimately show ?thesis by (simp add: same_core_end)
next
  case False
  then show ?thesis by (simp add: handle_ack_def Let_def end_index_def)
qed

lemma nak_range_end: "nak_range s r = Some s' \<Longrightarrow> end_index s' = end_index s"
  by (auto simp: nak_range_def Let_def end_index_def split: if_splits)

lemma handle_nak_end: "end_index (handle_nak s l) = end_index s"
proof (induction s l rule: handle_nak.induct)
  case (1 s)
  then show ?case by (simp add: refresh_pacer_def end_index_def)
next
  case (2 s r rs)
  then show ?case using nak_range_end [of s r] by (auto simp: end_index_def split: option.split)
qed

lemma sender_on_timer_end: "sender_inv s \<Longrightarrow> end_index (sender_on_timer s now) = end_index s"
  using check_tlpktdrop_inv(3) [of s now] by (simp add: sender_on_timer_def refresh_pacer_def end_index_def)

lemma sender_poll_control_frame:
  "sender_inv s \<Longrightarrow> evolves s (fst (sender_poll_control s)) \<and> end_index (fst (sender_poll_control s)) = end_index s"
  by (auto simp: sender_poll_control_def end_index_def intro: evolves_frame split: list.split)

lemma source_send_inv:
  assumes "source_inv cp cfg x"
  shows "source_inv cp cfg (source_step cp x (SrcSend now p))"
proof (cases "length p \<le> sc_max_payload (sn_cfg (so_sender x))")
  case True
  define r where "r = push_room (so_sender x) now (length p)"
  have inv: "prims_ok cp" "sender_inv (so_sender x)" "sn_cfg (so_sender x) = cfg" "crypto_ok cp (so_crypto x)"
    "store_carries cp (so_sender x) (so_log x)" "net_ok cp cfg (so_log x) (so_net x)"
    using assms(1) by (simp_all add: source_inv_def)
  note room = push_room_inv [OF inv(2) r_def]
  obtain cr kk w where e: "encrypt_payload cp (so_crypto x) (seq_at r (end_index r)) p = Ok (cr, kk, w)"
    "length w = length p" "crypto_ok cp cr"
    using inv(1,4) by (rule encrypt_payload_Ok)
  define s where "s = queued r now kk w"
  have push: "push cp (so_sender x) now p (so_crypto x) = Ok (s, cr)"
    using True e by (simp add: push_eq r_def [symmetric] s_def)
  have s: "sender_inv s" "evolves r s"
    using queued_inv [of r w] room True e(2) by (simp_all add: s_def)
  have last: "end_index s = Suc (end_index r)" "sn_base_index s = sn_base_index r" "sn_cfg s = cfg"
    "entry_at s (end_index r) = \<lparr> be_msg = sn_next_msg r, be_origin = now,
       be_ts = timebase_timestamp (sc_timebase (sn_cfg r)) now, be_last_rexmit = None, be_encryption = kk, be_payload = w \<rparr>"
    using room(5) inv(3) by (simp_all add: s_def queued_def end_index_def entry_at_def static_def)
  have old: "store_carries cp r (so_log x)" using store_carries_frame [OF inv(5) room(2,3)] .
  have "sealed cp (packet_of s i False) ((so_log x @ [(so_crypto x, p)]) ! i)" if i: "sn_base_index s \<le> i" "i < end_index s" for i
  proof (cases "i < end_index r")
    case True
    then have "packet_of s i False = packet_of r i False"
      using s(2) i by (auto simp: evolves_def packet_of_def seq_at_index_seq)
    then show ?thesis using old True i last(2) by (simp add: store_carries_def nth_append)
  next
    case False
    then have i: "i = end_index r" using i last(1) by simp
    have "seq_at s i = seq_at r i" using s(2) by (simp add: seq_at_index_seq evolves_def)
    then have "sealed cp (packet_of s i False) (so_crypto x, p)"
      using last(4) by (intro encrypt_payload_sealed [OF inv(1,4) e(1)]) (simp_all add: packet_of_def i)
    then show ?thesis using old i by (simp add: store_carries_def nth_append)
  qed
  then have "store_carries cp s (so_log x @ [(so_crypto x, p)])" using old last(1) by (simp add: store_carries_def)
  then show ?thesis
    using push inv s e(3) last net_ok_append [OF inv(6)] by (simp add: source_inv_def)
next
  case False
  then show ?thesis using assms(1) by (simp add: push_eq)
qed

lemma poll_sent:
  assumes "sender_inv s" "(poll_transmit s now :: (_, unit) outcome) = Ok (s', Some d)"
  obtains i r where "d = packet_of s i r" "sn_base_index s \<le> i" "i < end_index s"
  using assms(1)
proof (cases rule: poll_transmit_cases [where now = now and 'e = unit])
  case (rexmit s1 i rest)
  then have "i < sn_next_send_index s" "sn_base_index s \<le> i" using assms(1) by (auto simp: sender_inv_defs)
  then show thesis using rexmit(5) assms by (intro that [of i True]) (auto simp: sender_inv_defs)
next
  case (fresh s1)
  then show thesis
    using assms by (intro that [of "sn_next_send_index s" False]) (auto simp: sender_inv_defs)
qed (use assms(2) in simp_all)

lemma poll_transmit_end:
  assumes "sender_inv s" "(poll_transmit s now :: (_, unit) outcome) = Ok (s', d)"
  shows "end_index s' = end_index s"
  using assms(1)
proof (cases rule: poll_transmit_cases [where now = now and 'e = unit])
  case (rexmit s1 i rest)
  then show ?thesis
    using assms(2) same_core_end [OF rexmit(3)]
    by (auto simp: rexmitted_def end_index_def pace_sent_def count_sent_def Let_def)
next
  case (fresh s1)
  then show ?thesis
    using assms(2) same_core_end [OF fresh(3)] by (auto simp: end_index_def pace_sent_def count_sent_def)
next
  case (idle s1)
  then show ?thesis using assms(2) same_core_end [OF idle(3)] by (auto simp: end_index_def)
qed (use assms(2) in simp)

lemma source_poll_inv:
  assumes "source_inv cp cfg x" "sc_buffer_pkts cfg \<le> 2 ^ 29"
  shows "source_inv cp cfg (source_step cp x (SrcPoll now))"
proof -
  let ?s = "so_sender x"
  have inv: "sender_inv ?s" "sn_cfg ?s = cfg" "crypto_ok cp (so_crypto x)" "store_carries cp ?s (so_log x)"
    "net_ok cp cfg (so_log x) (so_net x)"
    using assms(1) by (simp_all add: source_inv_def)
  obtain s d where p: "(poll_transmit ?s now :: (_, unit) outcome) = Ok (s, d)" "sender_inv s" "evolves ?s s"
    using inv(1) by (rule poll_transmit_inv)
  have fr: "source_inv cp cfg (x\<lparr> so_sender := s, so_crypto := so_crypto x \<rparr>)"
    using assms(1) p(2,3) poll_transmit_end [OF inv(1) p(1)] inv(3) by (rule source_inv_frame)
  show ?thesis
  proof (cases d)
    case None
    then show ?thesis using p(1) fr by simp
  next
    case (Some d')
    obtain i rx where d': "d' = packet_of ?s i rx" "sn_base_index ?s \<le> i" "i < end_index ?s"
      using poll_sent inv(1) p(1) unfolding Some by blast
    have seq: "dp_seq d' = seq_at ?s i" by (simp add: d'(1) packet_of_def)
    have "length (sn_buffer ?s) \<le> 2 ^ 29" using inv(1,2) assms(2) by (auto simp: sender_inv_defs)
    then have "\<bar>int i - int (sn_base_index ?s)\<bar> < 2 ^ 30" using d'(2,3) by (simp add: end_index_def)
    then have ext: "nat (ext_of ?s (dp_seq d')) = i" unfolding seq by (subst ext_of_seq_at) auto
    have "sealed cp d' (so_log x ! i)"
      using inv(4) d' sealed_cong [of d' "packet_of ?s i False"] by (simp add: store_carries_def packet_of_def)
    then have "net_ok cp cfg (so_log x) (so_net x @ [(i, d')])"
      using inv d'(3) seq by (simp add: net_ok_snoc store_carries_def seq_at_index_seq)
    then show ?thesis using p(1) fr Some ext by (simp add: source_inv_def)
  qed
qed

lemma conn_on_ack_sender:
  "conn_on_ack cp rk s cr now n cif = Ok (s', rest) \<Longrightarrow> s' = fst (handle_ack s now n cif)"
  by (auto simp: conn_on_ack_def bind_outcome_Ok_iff split: prod.splits outcome.splits option.splits)

lemma source_ack_inv:
  assumes "source_inv cp cfg x"
  shows "source_inv cp cfg (source_step cp x (SrcAck rk now n cif))"
proof -
  have inv: "prims_ok cp" "sender_inv (so_sender x)" "crypto_ok cp (so_crypto x)"
    using assms by (simp_all add: source_inv_def)
  obtain s cr km reply bad where a: "conn_on_ack cp rk (so_sender x) (so_crypto x) now n cif = Ok (s, cr, km, reply, bad)"
    "sender_inv s" "crypto_ok cp cr"
    using conn_on_ack_inv [OF inv] by blast
  have s: "s = fst (handle_ack (so_sender x) now n cif)" using a(1) by (rule conn_on_ack_sender)
  have "source_inv cp cfg (x\<lparr> so_sender := s, so_crypto := cr \<rparr>)"
    using assms a(2) handle_ack_inv(2) [OF inv(2)] handle_ack_end [OF inv(2)] a(3) unfolding s by (rule source_inv_frame)
  then show ?thesis using a(1) by simp
qed

lemma source_step_inv:
  assumes "source_inv cp cfg x" "sc_buffer_pkts cfg \<le> 2 ^ 29" "source_event_ok x e"
  shows "source_inv cp cfg (source_step cp x e)"
proof -
  have inv: "sender_inv (so_sender x)" "crypto_ok cp (so_crypto x)" using assms(1) by (simp_all add: source_inv_def)
  have fr: "source_inv cp cfg (x\<lparr> so_sender := s \<rparr>)"
    if "sender_inv s" "evolves (so_sender x) s" "end_index s = end_index (so_sender x)" for s
    using source_inv_frame [OF assms(1) that inv(2)] by simp
  show ?thesis
  proof (cases e)
    case (SrcSend now p)
    then show ?thesis using source_send_inv [OF assms(1)] assms(3) by (simp del: source_step.simps)
  next
    case (SrcPoll now)
    then show ?thesis using source_poll_inv [OF assms(1,2)] by (simp del: source_step.simps)
  next
    case (SrcAck rk now n cif)
    then show ?thesis using source_ack_inv [OF assms(1)] by (simp del: source_step.simps)
  next
    case (SrcNak l)
    then show ?thesis using handle_nak_inv [OF inv(1), of l] assms(3) handle_nak_end by (simp add: fr)
  next
    case (SrcTimer now)
    then show ?thesis using sender_on_timer_inv [OF inv(1), of now] sender_on_timer_end [OF inv(1)] by (simp add: fr)
  next
    case SrcControl
    then show ?thesis
      using sender_poll_control_frame [OF inv(1)] sender_poll_control_inv [OF inv(1), of "fst (sender_poll_control (so_sender x))"]
      by (simp add: fr) (metis fr prod.collapse)
  next
    case (SrcEngine ev)
    have "prims_ok cp" using assms(1) by (simp add: source_inv_def)
    then show ?thesis using assms(1) engine_calls_ok [OF _ inv(2)] by (simp add: SrcEngine source_inv_def)
  qed
qed

interpretation src: inv_machine "source_step cp" source_event_ok
  "\<lambda>x. source_inv cp cfg x \<and> sc_buffer_pkts cfg \<le> 2 ^ 29" for cp cfg
  using source_step_inv by unfold_locales blast

definition source_start :: "sender \<Rightarrow> crypto option \<Rightarrow> source" where
  "source_start s ca = \<lparr> so_sender = s, so_crypto = ca, so_log = [], so_net = [] \<rparr>"

lemma source_start_inv:
  assumes "prims_ok cp" "bandwidth_validate (sc_bandwidth cfg) = Ok ()" "crypto_ok cp ca"
  shows "source_inv cp cfg (source_start (sender_new cfg) ca)"
  using assms sender_new_inv [OF assms(2)]
  by (simp add: source_inv_def source_start_def store_carries_def net_ok_def end_index_def sender_new_def)

section \<open>The receiving half\<close>

datatype dest_event = DstArrive instant nat data_packet | DstEngine crypto_event | DstOther rcv_event

fun dest_step :: "crypto_prims \<Rightarrow> receiver \<times> crypto option \<Rightarrow> dest_event \<Rightarrow> receiver \<times> crypto option" where
  "dest_step cp q (DstArrive now i d) = ingest_data cp now (fst q) (snd q) d"
| "dest_step cp q (DstEngine e) = (fst q, engine_calls cp (snd q) e)"
| "dest_step cp q (DstOther e) = (rcv_step (fst q) e, snd q)"

fun dest_out :: "receiver \<Rightarrow> dest_event \<Rightarrow> bytes option" where
  "dest_out r (DstOther e) = rcv_out r e"
| "dest_out r _ = None"

primrec dest_delivered :: "crypto_prims \<Rightarrow> receiver \<times> crypto option \<Rightarrow> dest_event list \<Rightarrow> bytes list" where
  "dest_delivered cp q [] = []"
| "dest_delivered cp q (e # es) =
     (case dest_out (fst q) e of None \<Rightarrow> [] | Some d \<Rightarrow> [d]) @ dest_delivered cp (dest_step cp q e) es"

text \<open>The receiving half as a run of the receiver.\<close>

fun dest_rcv :: "crypto_prims \<Rightarrow> crypto option \<Rightarrow> dest_event \<Rightarrow> rcv_event list" where
  "dest_rcv cp cb (DstArrive now i d) = [as_arrival now d (opened cp cb d)]"
| "dest_rcv cp cb (DstEngine e) = []"
| "dest_rcv cp cb (DstOther e) = [e]"

primrec dest_trace :: "crypto_prims \<Rightarrow> receiver \<times> crypto option \<Rightarrow> dest_event list \<Rightarrow> rcv_event list" where
  "dest_trace cp q [] = []"
| "dest_trace cp q (e # es) = dest_rcv cp (snd q) e @ dest_trace cp (dest_step cp q e) es"

lemma dest_step_rcv: "fst (dest_step cp q e) = foldl rcv_step (fst q) (dest_rcv cp (snd q) e)"
  by (cases e) (simp_all add: ingest_data_opened)

lemma dest_delivered_trace: "dest_delivered cp q es = delivered (fst q) (dest_trace cp q es)"
proof (induction es arbitrary: q)
  case (Cons e es)
  have "rcv_out (fst q) (as_arrival now d x) = None" for now d x by (cases x) simp_all
  then have "delivered (fst q) (dest_rcv cp (snd q) e) = (case dest_out (fst q) e of None \<Rightarrow> [] | Some d \<Rightarrow> [d])"
    by (cases e) simp_all
  then show ?case using Cons.IH by (simp add: delivered_append dest_step_rcv)
qed simp

text \<open>
  What is asked of the environment: arrivals are packets of the network, not delayed by \<open>2 ^ 30\<close>
  sequence numbers or more nor past the life of their key, and the receiver's own environment
  assumptions hold.
\<close>

fun is_arrival :: "rcv_event \<Rightarrow> bool" where
  "is_arrival (RcvData _ _) = True"
| "is_arrival (RcvUndecryptable _ _) = True"
| "is_arrival _ = False"

fun dest_event_ok :: "source \<Rightarrow> rcv_spec \<Rightarrow> crypto option \<Rightarrow> dest_event \<Rightarrow> bool" where
  "dest_event_ok x a cb (DstArrive now i d) =
     ((i, d) \<in> set (so_net x) \<and> no_stale (fst (so_log x ! i)) cb
      \<and> \<bar>uint (raw (sc_initial_seq (sn_cfg (so_sender x)))) + int i - sp_base a\<bar> < 2 ^ 30)"
| "dest_event_ok x a cb (DstEngine e) = True"
| "dest_event_ok x a cb (DstOther e) = (\<not> is_arrival e \<and> rcv_event_ok a e)"

primrec dest_run_ok ::
  "crypto_prims \<Rightarrow> source \<Rightarrow> rcv_spec \<Rightarrow> receiver \<times> crypto option \<Rightarrow> dest_event list \<Rightarrow> bool" where
  "dest_run_ok cp x a q [] = True"
| "dest_run_ok cp x a q (e # es) =
     (dest_event_ok x a (snd q) e
      \<and> dest_run_ok cp x (fst (foldl pair_step (a, fst q) (dest_rcv cp (snd q) e))) (dest_step cp q e) es)"

lemma index_seq_of: "index_seq cfg i = seq_of (uint (raw (sc_initial_seq cfg)) + int i)"
  using seq_at_seq_of [of "sender_new cfg" i] by (simp add: seq_at_index_seq sender_new_def)

lemma near_index: "\<bar>k - sp_base a\<bar> < 2 ^ 30 \<Longrightarrow> near a (seq_of k) = k"
  by (simp add: near_def near_cmp)

text \<open>Every arrival stands for an entry of the log.\<close>

definition entries :: "source \<Rightarrow> (int \<times> bytes) set" where
  "entries x = {(uint (raw (sc_initial_seq (sn_cfg (so_sender x)))) + int i, snd (so_log x ! i)) | i. i < length (so_log x)}"

lemma dest_event_rcv:
  assumes "source_inv cp cfg x" "dest_event_ok x a cb e"
  shows "rcv_machine.run_ok (a, r) (dest_rcv cp cb e) \<and> arrivals (a, r) (dest_rcv cp cb e) \<subseteq> entries x"
proof (cases e)
  case (DstArrive t i d)
  define k where "k = uint (raw (sc_initial_seq (sn_cfg (so_sender x)))) + int i"
  have i: "i < length (so_log x)" "dp_seq d = seq_of k" "sealed cp d (so_log x ! i)"
    "no_stale (fst (so_log x ! i)) cb" "near a (dp_seq d) = k"
    using assms by (auto simp: DstArrive source_inv_def net_ok_def index_seq_of near_index k_def)
  have "opened cp cb d \<in> {None, Some (snd (so_log x ! i))}" using i(3,4) by (auto simp: sealed_def)
  moreover have "(k, snd (so_log x ! i)) \<in> entries x" using i(1) by (auto simp: entries_def k_def)
  ultimately show ?thesis using i(2,5) by (auto simp: DstArrive pair_ok_def)
next
  case (DstOther ev)
  then show ?thesis using assms(2) by (cases ev) (simp_all add: pair_ok_def)
qed simp

lemma arrivals_append: "arrivals p (es @ es') = arrivals p es \<union> arrivals (foldl pair_step p es) es'"
  by (induction es arbitrary: p) auto

lemma dest_run_rcv:
  assumes "source_inv cp cfg x" "dest_run_ok cp x a q es"
  shows "rcv_machine.run_ok (a, fst q) (dest_trace cp q es) \<and> arrivals (a, fst q) (dest_trace cp q es) \<subseteq> entries x"
  using assms(2)
proof (induction es arbitrary: a q)
  case (Cons e es)
  define p where "p = foldl pair_step (a, fst q) (dest_rcv cp (snd q) e)"
  have p: "p = (fst p, fst (dest_step cp q e))" by (simp add: dest_step_rcv p_def snd_run prod_eq_iff)
  have "rcv_machine.run_ok p (dest_trace cp (dest_step cp q e) es)
    \<and> arrivals p (dest_trace cp (dest_step cp q e) es) \<subseteq> entries x"
    using Cons.IH [of "fst p" "dest_step cp q e"] Cons.prems p by (simp add: p_def)
  then show ?case
    using dest_event_rcv [OF assms(1), of a "snd q" e "fst q"] Cons.prems
    by (simp add: rcv_machine.run_ok_append arrivals_append p_def)
qed simp

lemma subseq_nth:
  assumes "sorted_wrt (<) js" "\<forall>i \<in> set js. i < length xs"
  shows "subseq (map ((!) xs) js) xs"
  using assms
proof (induction xs arbitrary: js)
  case (Cons x xs)
  have tail: "subseq (map ((!) (x # xs)) ks) xs"
    if "sorted_wrt (<) ks" "\<forall>i \<in> set ks. 0 < i \<and> i < length (x # xs)" for ks
  proof -
    have "map ((!) (x # xs)) ks = map ((!) xs) (map (\<lambda>i. i - 1) ks)" using that(2) by (auto simp: nth_Cons')
    moreover have "sorted_wrt (<) (map (\<lambda>i. i - 1) ks)"
      using that by (auto simp: sorted_wrt_map intro!: sorted_wrt_mono_rel [of ks "(<)"])
    moreover have "\<forall>i \<in> set (map (\<lambda>i. i - 1) ks). i < length xs" using that(2) by fastforce
    ultimately show ?thesis using Cons.IH by metis
  qed
  show ?case
  proof (cases js)
    case (Cons j ks)
    have ks: "subseq (map ((!) (x # xs)) ks) xs" using Cons.prems Cons by (intro tail) auto
    show ?thesis
    proof (cases "j = 0")
      case True
      then show ?thesis using ks Cons by simp
    next
      case False
      then have "subseq (map ((!) (x # xs)) js) xs" using Cons.prems Cons by (intro tail) auto
      then show ?thesis by (rule list_emb_Cons)
    qed
  qed simp
qed simp

lemma deliveries_subseq:
  assumes "sorted_wrt (<) (map fst ds)" "set ds \<subseteq> {(b + int i, sent ! i) | i. i < length sent}"
  shows "subseq (map snd ds) sent"
proof -
  define js where "js = map (\<lambda>d. nat (fst d - b)) ds"
  have el: "snd d = sent ! nat (fst d - b) \<and> b \<le> fst d \<and> nat (fst d - b) < length sent" if "d \<in> set ds" for d
    using assms(2) that by auto
  have "sorted_wrt (<) js"
    unfolding js_def sorted_wrt_map
  proof (rule sorted_wrt_mono_rel [OF _ assms(1) [unfolded sorted_wrt_map]])
    show "nat (fst x - b) < nat (fst y - b)" if "x \<in> set ds" "y \<in> set ds" "fst x < fst y" for x y
      using el [OF that(1)] that(3) by linarith
  qed
  moreover have "\<forall>i \<in> set js. i < length sent" using el by (auto simp: js_def)
  moreover have "map snd ds = map ((!) sent) js" using el by (simp add: js_def)
  ultimately show ?thesis using subseq_nth by metis
qed

lemma delivered_log:
  assumes "source_inv cp scfg x" "config_ok rcfg" "rc_initial_seq rcfg = sc_initial_seq scfg"
    and "dest_run_ok cp x (spec_init rcfg) (receiver_new t0 rcfg, cb) ds"
  shows "subseq (dest_delivered cp (receiver_new t0 rcfg, cb) ds) (map snd (so_log x))"
proof -
  let ?b = "uint (raw (sc_initial_seq (sn_cfg (so_sender x))))" and ?es = "dest_trace cp (receiver_new t0 rcfg, cb) ds"
  have run: "rcv_machine.run_ok (rcv_start t0 rcfg) ?es" "arrivals (rcv_start t0 rcfg) ?es \<subseteq> entries x"
    using dest_run_rcv [OF assms(1,4)] by (simp_all add: rcv_start_def)
  obtain out where out: "delivered (receiver_new t0 rcfg) ?es = map snd out" "sorted_wrt (<) (map fst out)"
    "set out \<subseteq> arrivals (rcv_start t0 rcfg) ?es"
    using deliveries_ordered [OF rcv_start_inv [OF assms(2)] run(1)]
    by (auto simp: rcv_start_def waiting_def spec_init_def Let_def)
  have "entries x \<subseteq> {(?b + int i, map snd (so_log x) ! i) | i. i < length (map snd (so_log x))}"
    by (auto simp: entries_def)
  then have "subseq (map snd out) (map snd (so_log x))" using out(2,3) run(2) by (intro deliveries_subseq) auto
  then show ?thesis by (simp add: dest_delivered_trace out(1))
qed

end
