(* ===== verification/End_To_End.thy ===== *)
theory End_To_End
  imports Data_Path
begin

text \<open>
  The connection as a whole: from the handshake packets on the wire, over the transmission halves both
  ends build from what they negotiated, to the payloads the applications exchange.
\<close>

section \<open>What the handshake promises the transmission halves\<close>

text \<open>The sending half built from \<open>na\<close> and the receiving half built from \<open>nb\<close> belong together.\<close>

definition fits :: "crypto_prims \<Rightarrow> negotiated \<times> srt_options \<Rightarrow> negotiated \<times> srt_options \<Rightarrow> bool" where
  "fits cp a b \<longleftrightarrow>
     ng_send_initial_seq (fst a) = ng_recv_initial_seq (fst b)
   \<and> ng_snd_latency (fst a) = ng_rcv_latency (fst b)
   \<and> pair_max_payload (fst a) (snd a) = pair_max_payload (fst b) (snd b)
   \<and> crypto_ok cp (ng_crypto (fst a)) \<and> no_stale (ng_crypto (fst a)) (ng_crypto (fst b))"

lemma keyed_pair_halves:
  assumes "keyed_pair cp a b"
  shows "crypto_ok cp a" "crypto_ok cp b" "no_stale a b" "no_stale b a"
  using assms keyed_no_stale
  by (auto simp: keyed_pair_def crypto_ok_def no_stale_def [of None] split: option.splits)

lemma agreed_max_payload: "ng_mss n \<le> op_mss opts \<Longrightarrow> pair_max_payload n opts = unat (ng_mss n) - 44"
  by (simp add: pair_max_payload_def max_payload_def word_le_nat_alt)

lemma agreed_fits:
  assumes "agreed cp cc co lo isn cid lid nc nl"
  shows "fits cp (nc, co) (nl, lo)" "fits cp (nl, lo) (nc, co)"
proof -
  have "pair_max_payload nc co = unat (ng_mss nc) - 44" "pair_max_payload nl lo = unat (ng_mss nl) - 44"
    using assms by (simp_all add: agreed_def agreed_max_payload)
  then show "fits cp (nc, co) (nl, lo)" "fits cp (nl, lo) (nc, co)"
    using assms keyed_pair_halves [of cp "ng_crypto nc" "ng_crypto nl"] by (simp_all add: agreed_def fits_def insert_eq_iff)
qed

section \<open>The halves\<close>


lemma transmission_pair_sender:
  "fst (transmission_pair now n opts tb) = sender_new
     \<lparr> sc_initial_seq = ng_send_initial_seq n, sc_flow_window = min (op_flow_window opts) (ng_flow_window n),
       sc_snd_latency = ng_snd_latency n, sc_max_payload = pair_max_payload n opts,
       sc_buffer_pkts = op_send_buffer_pkts opts, sc_bandwidth = op_bandwidth opts, sc_timebase = tb \<rparr>"
  by (simp add: transmission_pair_def Let_def)

lemma transmission_pair_receiver:
  "snd (transmission_pair now n opts tb) = set_max_payload (receiver_new now
     \<lparr> rc_initial_seq = ng_recv_initial_seq n, rc_rcv_latency = ng_rcv_latency n,
       rc_buffer_pkts = scaled_recv_buffer opts (ng_rcv_latency n) \<rparr>) (pair_max_payload n opts)"
  by (simp add: transmission_pair_def Let_def)


section \<open>Guarantees of the whole\<close>

text \<open>
  Two ends that can establish: matching passphrases or none, usable options, and an exchange within
  the caller's timeout and the life of the cookie.
\<close>

definition exchange_ready ::
  "crypto_prims \<Rightarrow> srt_options \<Rightarrow> srt_options \<Rightarrow> seq_number \<Rightarrow> instant \<Rightarrow> listener \<Rightarrow> (nat \<Rightarrow> instant) \<Rightarrow> bool" where
  "exchange_ready cp co lo isn start l t \<longleftrightarrow>
     prims_ok cp
   \<and> (\<exists>cc lc. crypto_config_of co = Ok cc \<and> crypto_config_of lo = Ok lc
        \<and> map_option cc_passphrase cc = map_option cc_passphrase lc)
   \<and> hs_options_ok co \<and> hs_options_ok lo \<and> raw isn < SEQ_MASK
   \<and> start \<le> t 0 \<and> t 0 \<le> t 1 \<and> t 1 \<le> t 2 \<and> t 2 \<le> t 3 \<and> t 3 \<le> t 4 \<and> t 3 < start + op_connect_timeout co
   \<and> cookie_minute l (t 4) \<le> cookie_minute l (t 1) + 1"

lemma exchange_ready_agrees:
  assumes "exchange_ready cp co lo isn start (listener_new secret ltb lo) t"
  obtains nc nl cc where
    "handshake_exchange cp hsh rs rk (caller_new start remote cid isn ctb co) (listener_new secret ltb lo) peer lid t
       = Some (nc, nl)"
    "crypto_config_of co = Ok cc" "agreed cp cc co lo isn cid lid nc nl"
  using assms exchange_agrees [where cp = cp and t = t and co = co and lo = lo]
  unfolding exchange_ready_def by blast

text \<open>
  C17.  The two ends of a connection fit together.  After the handshake each sender starts at the
  sequence number the peer's receiver expects, with the latency that receiver delays by and a payload
  limit equal to the largest payload that receiver takes -- so nothing the one end accepts from its
  application is refused as oversized by the other -- and both share one flow window.
\<close>

theorem connections_fit:
  assumes "exchange_ready cp co lo isn start (listener_new secret ltb lo) t"
  shows "\<exists>nc nl. handshake_exchange cp hsh rs rk (caller_new start remote cid isn ctb co)
        (listener_new secret ltb lo) peer lid t = Some (nc, nl)
    \<and> (\<forall>a b. (a, b) \<in> {((nc, co), (nl, lo)), ((nl, lo), (nc, co))} \<longrightarrow>
        (let s = fst (transmission_pair ta (fst a) (snd a) tba); r = snd (transmission_pair tb (fst b) (snd b) tbb) in
         sc_initial_seq (sn_cfg s) = rv_base_seq r \<and> sc_snd_latency (sn_cfg s) = rc_rcv_latency (rv_cfg r)
         \<and> sender_max_payload s = rv_max_payload r
         \<and> sc_flow_window (sn_cfg s) = min (op_flow_window co) (op_flow_window lo)))"
proof -
  obtain nc nl cc where n: "handshake_exchange cp hsh rs rk (caller_new start remote cid isn ctb co)
      (listener_new secret ltb lo) peer lid t = Some (nc, nl)" "agreed cp cc co lo isn cid lid nc nl"
    using assms by (rule exchange_ready_agrees)
  have half: "let s = fst (transmission_pair ta (fst a) (snd a) tba); r = snd (transmission_pair tb (fst b) (snd b) tbb) in
     sc_initial_seq (sn_cfg s) = rv_base_seq r \<and> sc_snd_latency (sn_cfg s) = rc_rcv_latency (rv_cfg r)
     \<and> sender_max_payload s = rv_max_payload r
     \<and> sc_flow_window (sn_cfg s) = min (op_flow_window (snd a)) (ng_flow_window (fst a))" if "fits cp a b" for a b
    using that by (simp add: fits_def transmission_pair_sender transmission_pair_receiver sender_new_def
        receiver_new_def set_max_payload_def sender_max_payload_def Let_def)
  have "ng_flow_window nc = op_flow_window lo" "ng_flow_window nl = op_flow_window co"
    using n(2) by (simp_all add: agreed_def)
  then show ?thesis
    using n(1) half [OF agreed_fits(1) [OF n(2)]] half [OF agreed_fits(2) [OF n(2)]]
    by (auto simp: Let_def min.commute)
qed


section \<open>An example connection\<close>

definition demo_link :: "bytes option \<Rightarrow> (negotiated \<times> negotiated) option" where
  "demo_link pw = handshake_exchange demo_prims (\<lambda>s ip p m. s + of_nat m) [1] [2]
     (caller_new 0 (demo_addr 9000) (SocketId 5) (SeqNumber 77) \<lparr> tb_start = 0 \<rparr> (demo_options pw))
     (listener_new 3 \<lparr> tb_start = 0 \<rparr> (demo_options pw)) (demo_addr 4000) (SocketId 6) (\<lambda>i. 1000 * i)"

lemma demo_ready:
  assumes "crypto_config_of (demo_options pw) = Ok cc"
  shows "exchange_ready demo_prims (demo_options pw) (demo_options pw) (SeqNumber 77) 0
    (listener_new 3 \<lparr> tb_start = 0 \<rparr> (demo_options pw)) (\<lambda>i. 1000 * i)"
  using assms demo_options_ok
  by (simp add: exchange_ready_def demo_prims_ok SEQ_MASK_def cookie_minute_def listener_new_def)
    (simp add: demo_options_def default_options_def from_secs_def)

theorem connections_fit_witness:
  "\<exists>nc nl. demo_link (Some (replicate 12 65)) = Some (nc, nl)
    \<and> sender_max_payload (fst (transmission_pair 9000 nc (demo_options (Some (replicate 12 65))) \<lparr> tb_start = 0 \<rparr>))
      = rv_max_payload (snd (transmission_pair 8000 nl (demo_options (Some (replicate 12 65))) \<lparr> tb_start = 0 \<rparr>))"
  using connections_fit [OF demo_ready [OF demo_options_config], where ta = 9000 and tb = 8000
      and tba = "\<lparr> tb_start = 0 \<rparr>" and tbb = "\<lparr> tb_start = 0 \<rparr>" and hsh = "\<lambda>s ip p m. s + of_nat m"
      and rs = "[1]" and rk = "[2]" and remote = "demo_addr 9000" and cid = "SocketId 5" and ctb = "\<lparr> tb_start = 0 \<rparr>"
      and peer = "demo_addr 4000" and lid = "SocketId 6"]
  unfolding demo_link_def by (elim ex_forward) (auto simp: Let_def)









end
