(* ===== verification/Net.thy ===== *)
theory Net
  imports Handshake
begin

text \<open>
  The runtime helpers of \<open>net.rs\<close>: address resolution and the randomness behind socket ids and initial
  sequence numbers.  The per-process SipHash state is a parameter \<open>h\<close> from counter values to hashes; the
  process-wide counter is passed through.  The loops are partial functions: not returning is \<open>None\<close>.
\<close>

unbundle bit_operations_syntax

datatype host_addr = AddrV4 socket_addr | AddrV6

text \<open>The answer of the resolver is an argument: the addresses it found or an I/O error.\<close>

fun first_v4 :: "host_addr list \<Rightarrow> socket_addr option" where
  "first_v4 [] = None"
| "first_v4 (AddrV4 a # _) = Some a"
| "first_v4 (AddrV6 # as) = first_v4 as"

definition resolve_v4 :: "host_addr list option \<Rightarrow> (socket_addr, srt_error) outcome" where
  "resolve_v4 answer =
     (case answer of
        None \<Rightarrow> Err IoError
      | Some addrs \<Rightarrow> (case first_v4 addrs of Some a \<Rightarrow> Ok a | None \<Rightarrow> Err NoIpv4Address))"

partial_function (option) random_u64 :: "(u64 \<Rightarrow> u64) \<Rightarrow> u64 \<Rightarrow> (u64 \<times> u64) option" where
  "random_u64 h counter =
     (let v = h counter in
      if (ucast v :: u32) \<noteq> 0 then Some (v, counter + 1) else random_u64 h (counter + 1))"

partial_function (option) random_socket_id :: "(u64 \<Rightarrow> u64) \<Rightarrow> u64 \<Rightarrow> (socket_id \<times> u64) option" where
  "random_socket_id h counter =
     Option.bind (random_u64 h counter) (\<lambda>(v, counter').
     let i = (ucast v :: u32) AND 0x7FFFFFFF in
     if i \<noteq> 0 then Some (SocketId i, counter') else random_socket_id h counter')"

definition random_isn :: "(u64 \<Rightarrow> u64) \<Rightarrow> u64 \<Rightarrow> (seq_number \<times> u64) option" where
  "random_isn h counter =
     Option.bind (random_u64 h counter) (\<lambda>(v, counter').
     Some (seq_new (ucast (v mod 0x7FFFFFFF)), counter'))"

section \<open>The loops end\<close>

text \<open>Some counter value hashes to a usable socket id.\<close>

definition id_bits :: "u64 \<Rightarrow> u32" where
  "id_bits v = (ucast v :: u32) AND 0x7FFFFFFF"

definition hash_usable :: "(u64 \<Rightarrow> u64) \<Rightarrow> bool" where
  "hash_usable h \<longleftrightarrow> (\<exists>t. id_bits (h t) \<noteq> 0)"

text \<open>The wire id of a connection: not the reserved 0, top bit clear.\<close>

definition socket_id_ok :: "socket_id \<Rightarrow> bool" where
  "socket_id_ok i \<longleftrightarrow> i \<noteq> SID_HANDSHAKE \<and> sid i AND 0x80000000 = 0"

lemma counter_closer:
  fixes t c :: u64
  assumes "t \<noteq> c" shows "unat (t - (c + 1)) < unat (t - c)"
proof -
  have "t - c \<noteq> 0" using assms by simp
  then show ?thesis by (simp add: diff_diff_eq [symmetric] unat_minus_one unat_gt_0)
qed

lemma random_u64_reaches:
  assumes "(ucast (h t) :: u32) \<noteq> 0"
  obtains c1 where "random_u64 h c = Some (h c1, c1 + 1)" "(ucast (h c1) :: u32) \<noteq> 0" "unat (t - c1) \<le> unat (t - c)"
proof -
  have "\<exists>c1. random_u64 h c = Some (h c1, c1 + 1) \<and> (ucast (h c1) :: u32) \<noteq> 0 \<and> unat (t - c1) \<le> unat (t - c)"
  proof (induction "unat (t - c)" arbitrary: c rule: less_induct)
    case less
    show ?case
    proof (cases "(ucast (h c) :: u32) = 0")
      case True
      then have "t \<noteq> c" using assms by auto
      then have "unat (t - (c + 1)) < unat (t - c)" by (rule counter_closer)
      then show ?thesis
        using less [of "c + 1"] True by (subst random_u64.simps) (fastforce simp: Let_def)
    next
      case False
      then show ?thesis by (subst random_u64.simps) (auto simp: Let_def)
    qed
  qed
  with that show thesis by blast
qed

lemma id_bits_low: "id_bits v \<noteq> 0 \<Longrightarrow> (ucast v :: u32) \<noteq> 0"
  by (auto simp: id_bits_def)

lemma id_bits_ok: "id_bits v \<noteq> 0 \<Longrightarrow> socket_id_ok (SocketId (id_bits v))"
  by (simp add: socket_id_ok_def SID_HANDSHAKE_def) (simp add: id_bits_def and.assoc)

lemma random_socket_id_reaches:
  assumes "id_bits (h t) \<noteq> 0"
  obtains c1 where "random_socket_id h c = Some (SocketId (id_bits (h c1)), c1 + 1)" "id_bits (h c1) \<noteq> 0"
    "unat (t - c1) \<le> unat (t - c)"
proof -
  have "\<exists>c1. random_socket_id h c = Some (SocketId (id_bits (h c1)), c1 + 1) \<and> id_bits (h c1) \<noteq> 0
    \<and> unat (t - c1) \<le> unat (t - c)"
  proof (induction "unat (t - c)" arbitrary: c rule: less_induct)
    case less
    obtain c1 where c1: "random_u64 h c = Some (h c1, c1 + 1)" "unat (t - c1) \<le> unat (t - c)"
      using id_bits_low [OF assms] by (rule random_u64_reaches)
    show ?case
    proof (cases "id_bits (h c1) = 0")
      case True
      then have "t \<noteq> c1" using assms by auto
      then have "unat (t - (c1 + 1)) < unat (t - c)" using counter_closer [of t c1] c1(2) by simp
      then show ?thesis
        using less [of "c1 + 1"] c1(1) True by (subst random_socket_id.simps) (fastforce simp: id_bits_def)
    next
      case False
      then show ?thesis
        using c1 by (subst random_socket_id.simps) (auto simp: id_bits_def)
    qed
  qed
  with that show thesis by blast
qed

lemma random_socket_id_Some:
  assumes "hash_usable h"
  obtains i c' where "random_socket_id h c = Some (i, c')" "socket_id_ok i"
proof -
  obtain t where "id_bits (h t) \<noteq> 0" using assms by (auto simp: hash_usable_def)
  then obtain c1 where "random_socket_id h c = Some (SocketId (id_bits (h c1)), c1 + 1)" "id_bits (h c1) \<noteq> 0"
    by (rule random_socket_id_reaches)
  with that id_bits_ok show thesis by blast
qed

lemma random_isn_Some:
  assumes "hash_usable h"
  obtains s c' where "random_isn h c = Some (s, c')" "raw s < SEQ_MASK"
proof -
  obtain t where "id_bits (h t) \<noteq> 0" using assms by (auto simp: hash_usable_def)
  then obtain c1 where c1: "random_u64 h c = Some (h c1, c1 + 1)"
    using id_bits_low random_u64_reaches by metis
  have "(h c1 mod 0x7FFFFFFF) < 0x7FFFFFFF" by (rule word_mod_less_divisor) simp
  then have "unat (h c1 mod 0x7FFFFFFF) < 0x7FFFFFFF" by (simp add: word_less_nat_alt)
  then have "(ucast (h c1 mod 0x7FFFFFFF) :: u32) < SEQ_MASK"
    by (simp add: word_less_nat_alt unsigned_ucast_eq SEQ_MASK_def take_bit_nat_eq_self)
  then have "raw (seq_new (ucast (h c1 mod 0x7FFFFFFF))) < SEQ_MASK"
    unfolding seq_new_def using le_less_trans [OF word_and_le2] by simp
  with c1 that show thesis by (simp add: random_isn_def)
qed

end
