(* ===== verification/Listener_Driver.thy ===== *)
theory Listener_Driver
  imports Net Connection_Inv Handshake_Safety "HOL-Library.Mapping"
begin

text \<open>
  The listener task of \<open>listener.rs\<close>: one UDP socket shared by all accepted connections, with the tables
  that route datagrams to them.  What the task does to the outside -- packets it sends, datagrams it offers
  to a connection's queue, connections it spawns -- is a list of effects; what the outside decides -- the
  bytes that arrive, whether the accept queue has room -- is an argument.
\<close>

unbundle bit_operations_syntax

section \<open>State\<close>

definition REJ_BACKLOG :: u32 where "REJ_BACKLOG = 1005"
definition REJ_CLOSE :: u32 where "REJ_CLOSE = 1007"

type_synonym peer_key = "socket_addr \<times> socket_id"

record conn_entry =
  ce_peer :: peer_key

text \<open>\<open>ld_counter\<close> is the process-wide counter of the random generator.\<close>

record listener_driver =
  ld_core :: listener
  ld_timebase :: timebase
  ld_opts :: srt_options
  ld_accept_open :: bool
  ld_conns :: "(socket_id, conn_entry) mapping"
  ld_by_peer :: "(peer_key, socket_id) mapping"
  ld_counter :: u64

datatype effect =
    SendTo packet socket_addr
  | Forward socket_id bytes
  | Spawn socket_id connection socket_addr

section \<open>Binding\<close>

text \<open>
  \<open>answer\<close> is what the resolver found; \<open>local_addr\<close> the address of the bound UDP socket, \<open>None\<close> when
  binding failed.
\<close>

definition bind_listener ::
  "(u64 \<Rightarrow> u64) \<Rightarrow> u64 \<Rightarrow> instant \<Rightarrow> host_addr list option \<Rightarrow> host_addr option \<Rightarrow> srt_options
   \<Rightarrow> (listener_driver, srt_error) outcome option" where
  "bind_listener h counter now answer local_addr opts =
     (case crypto_config_of opts of
        Err e \<Rightarrow> Some (Err e)
      | Panic \<Rightarrow> Some Panic
      | Ok _ \<Rightarrow>
     (case bandwidth_validate (op_bandwidth opts) of
        Err e \<Rightarrow> Some (Err e)
      | Panic \<Rightarrow> Some Panic
      | Ok _ \<Rightarrow>
     (case resolve_v4 answer of
        Err e \<Rightarrow> Some (Err e)
      | Panic \<Rightarrow> Some Panic
      | Ok _ \<Rightarrow>
     (case local_addr of
        None \<Rightarrow> Some (Err IoError)
      | Some AddrV6 \<Rightarrow> Some (Err NoIpv4Address)
      | Some (AddrV4 _) \<Rightarrow>
          Option.bind (random_u64 h counter) (\<lambda>(secret, counter').
          let tb = timebase_new now in
          Some (Ok \<lparr> ld_core = listener_new secret tb opts, ld_timebase = tb, ld_opts = opts,
                     ld_accept_open = True, ld_conns = Mapping.empty, ld_by_peer = Mapping.empty,
                     ld_counter = counter' \<rparr>))))))"

section \<open>Datagrams\<close>

partial_function (option) unused_socket_id ::
  "(socket_id, conn_entry) mapping \<Rightarrow> (u64 \<Rightarrow> (socket_id \<times> u64) option) \<Rightarrow> u64 \<Rightarrow> (socket_id \<times> u64) option" where
  "unused_socket_id conns gen counter =
     Option.bind (gen counter) (\<lambda>(i, counter').
     if Mapping.lookup conns i = None then Some (i, counter') else unused_socket_id conns gen counter')"

definition driver_rejection :: "listener_driver \<Rightarrow> instant \<Rightarrow> handshake_cif \<Rightarrow> u32 \<Rightarrow> packet" where
  "driver_rejection d now cif code =
     Control \<lparr> cp_timestamp = timebase_timestamp (ld_timebase d) now, cp_dst_socket_id = hc_socket_id cif,
               cp_control_type = Handshake (cif\<lparr> hc_handshake_type := Rejection code, hc_extensions := [] \<rparr>) \<rparr>"

definition on_action ::
  "listener_driver \<Rightarrow> instant \<Rightarrow> socket_addr \<Rightarrow> timestamp \<Rightarrow> handshake_cif \<Rightarrow> bool \<Rightarrow> listener_action
   \<Rightarrow> listener_driver \<times> effect list" where
  "on_action d now from hs_ts cif room act =
     (case act of
        ActReply reply \<Rightarrow> (d, [SendTo reply from])
      | ActDrop \<Rightarrow> (d, [])
      | ActAccept reply n \<Rightarrow>
          if \<not> room then (d, [SendTo (driver_rejection d now cif REJ_BACKLOG) from])
          else
            let local_id = ng_local_socket_id n;
                peer_key = (from, ng_peer_socket_id n);
                c = conn_set_hs_anchor (accepted now n reply (ld_opts d)) now hs_ts
            in (d\<lparr> ld_conns := Mapping.update local_id \<lparr> ce_peer = peer_key \<rparr> (ld_conns d),
                   ld_by_peer := Mapping.update peer_key local_id (ld_by_peer d) \<rparr>,
                [Spawn local_id c from]))"

definition on_request ::
  "crypto_prims \<Rightarrow> hasher \<Rightarrow> (u64 \<Rightarrow> u64) \<Rightarrow> listener_driver \<Rightarrow> instant \<Rightarrow> socket_addr \<Rightarrow> bytes
   \<Rightarrow> timestamp \<Rightarrow> handshake_cif \<Rightarrow> bool \<Rightarrow> (listener_driver \<times> effect list, unit) outcome option" where
  "on_request cp hsh h d now from datagram hs_ts cif room =
     (case Mapping.lookup (ld_by_peer d) (from, hc_socket_id cif) of
        Some local_id \<Rightarrow>
          Some (Ok (d, if Mapping.lookup (ld_conns d) local_id \<noteq> None then [Forward local_id datagram] else []))
      | None \<Rightarrow>
          if \<not> ld_accept_open d then
            Some (Ok (d, if hc_handshake_type cif = Conclusion
                         then [SendTo (driver_rejection d now cif REJ_CLOSE) from] else []))
          else
            Option.bind (unused_socket_id (ld_conns d) (random_socket_id h) (ld_counter d)) (\<lambda>(new_id, counter1).
            Option.bind (random_isn h counter1) (\<lambda>(_, counter2).
            Some (bind_outcome (listener_handle_handshake cp hsh (ld_core d) now from cif new_id) (\<lambda>act.
              Ok (on_action (d\<lparr> ld_counter := counter2 \<rparr>) now from hs_ts cif room act))))))"

definition datagram_dst :: "bytes \<Rightarrow> socket_id" where
  "datagram_dst datagram = SocketId (from_be32 (take 4 (drop 12 datagram)))"

definition on_datagram ::
  "crypto_prims \<Rightarrow> hasher \<Rightarrow> (u64 \<Rightarrow> u64) \<Rightarrow> listener_driver \<Rightarrow> instant \<Rightarrow> socket_addr \<Rightarrow> bytes \<Rightarrow> bool
   \<Rightarrow> (listener_driver \<times> effect list, unit) outcome option" where
  "on_datagram cp hsh h d now from datagram room =
     (if length datagram < 16 then Some (Ok (d, []))
      else if datagram_dst datagram \<noteq> SID_HANDSHAKE then
        Some (Ok (d,
          case Mapping.lookup (ld_conns d) (datagram_dst datagram) of
            Some entry \<Rightarrow> if fst (ce_peer entry) = from then [Forward (datagram_dst datagram) datagram] else []
          | None \<Rightarrow> []))
      else
        case packet_parse datagram of
          Err _ \<Rightarrow> Some (Ok (d, []))
        | Panic \<Rightarrow> Some Panic
        | Ok (Data _) \<Rightarrow> Some (Ok (d, []))
        | Ok (Control c) \<Rightarrow>
            (case cp_control_type c of
               Handshake cif \<Rightarrow> on_request cp hsh h d now from datagram (cp_timestamp c) cif room
             | _ \<Rightarrow> Some (Ok (d, []))))"

section \<open>The task\<close>

definition reap :: "listener_driver \<Rightarrow> socket_id \<Rightarrow> listener_driver" where
  "reap d i =
     (case Mapping.lookup (ld_conns d) i of
        None \<Rightarrow> d
      | Some entry \<Rightarrow>
          d\<lparr> ld_conns := Mapping.delete i (ld_conns d),
             ld_by_peer := (if Mapping.lookup (ld_by_peer d) (ce_peer entry) = Some i
                            then Mapping.delete (ce_peer entry) (ld_by_peer d) else ld_by_peer d) \<rparr>)"

datatype listener_event =
    LdDatagram instant socket_addr bytes bool
  | LdDatagramV6
  | LdRecvError
  | LdReap socket_id
  | LdHandleDropped

fun listener_turn ::
  "crypto_prims \<Rightarrow> hasher \<Rightarrow> (u64 \<Rightarrow> u64) \<Rightarrow> listener_driver \<Rightarrow> listener_event
   \<Rightarrow> (listener_driver \<times> effect list, unit) outcome option" where
  "listener_turn cp hsh h d (LdDatagram now from datagram room) = on_datagram cp hsh h d now from datagram room"
| "listener_turn cp hsh h d LdDatagramV6 = Some (Ok (d, []))"
| "listener_turn cp hsh h d LdRecvError = Some (Ok (d, []))"
| "listener_turn cp hsh h d (LdReap i) = Some (Ok (reap d i, []))"
| "listener_turn cp hsh h d LdHandleDropped = Some (Ok (d\<lparr> ld_accept_open := False \<rparr>, []))"

definition listener_done :: "listener_driver \<Rightarrow> bool" where
  "listener_done d \<longleftrightarrow> \<not> ld_accept_open d \<and> Mapping.is_empty (ld_conns d)"

text \<open>The next socket of the accept queue; an ended queue means the task is gone.\<close>

definition accept_next :: "'a option \<Rightarrow> ('a, srt_error) outcome" where
  "accept_next queue_head = (case queue_head of Some socket \<Rightarrow> Ok socket | None \<Rightarrow> Err (Closed CloseLocal))"

end
