(* ===== verification/Listener_Props.thy ===== *)
theory Listener_Props
  imports Listener_Driver
begin

text \<open>
  Routing at the listener: the two tables stay inverse to each other, every datagram reaches the right
  connection or none, replies never outgrow requests, and no datagram can disturb the entry of a live
  connection.
\<close>

section \<open>The shared fast path\<close>

lemma datagram_dst_parsed:
  assumes "packet_parse datagram = Ok p" shows "datagram_dst datagram = packet_dst_socket_id p"
  using assms
  by (auto simp: packet_parse_def control_parse_def data_parse_def bind_outcome_Ok_iff datagram_dst_def
      read_u32_def Let_def split: if_splits)

lemma parsed_handshake:
  assumes "packet_parse datagram = Ok (Control c)" "cp_control_type c = Handshake cif"
  shows "length (hc_peer_ip cif) = 16" "64 \<le> length datagram"
  using assms
  by (auto simp: packet_parse_def control_parse_def parse_control_type_def parse_cif_def bind_outcome_Ok_iff
      CIF_SIZE_def HEADER_SIZE_def slice_def slice_from_def Let_def split: if_splits)

section \<open>Fresh socket ids\<close>

definition free_id :: "(u64 \<Rightarrow> u64) \<Rightarrow> (socket_id, conn_entry) mapping \<Rightarrow> bool" where
  "free_id h conns \<longleftrightarrow> (\<exists>t. id_bits (h t) \<noteq> 0 \<and> Mapping.lookup conns (SocketId (id_bits (h t))) = None)"

lemma unused_socket_id_Some:
  assumes "free_id h conns"
  obtains i c' where "unused_socket_id conns (random_socket_id h) c = Some (i, c')" "socket_id_ok i"
    "Mapping.lookup conns i = None"
proof -
  obtain t where t: "id_bits (h t) \<noteq> 0" "Mapping.lookup conns (SocketId (id_bits (h t))) = None"
    using assms by (auto simp: free_id_def)
  have "\<exists>i c'. unused_socket_id conns (random_socket_id h) c = Some (i, c') \<and> socket_id_ok i
    \<and> Mapping.lookup conns i = None"
  proof (induction "unat (t - c)" arbitrary: c rule: less_induct)
    case less
    obtain c1 where c1: "random_socket_id h c = Some (SocketId (id_bits (h c1)), c1 + 1)" "id_bits (h c1) \<noteq> 0"
      "unat (t - c1) \<le> unat (t - c)"
      using t(1) by (rule random_socket_id_reaches)
    show ?case
    proof (cases "Mapping.lookup conns (SocketId (id_bits (h c1))) = None")
      case True
      then show ?thesis using c1 id_bits_ok by (subst unused_socket_id.simps) simp
    next
      case False
      then have "t \<noteq> c1" using t(2) by auto
      then have "unat (t - (c1 + 1)) < unat (t - c)" using counter_closer [of t c1] c1(3) by simp
      then show ?thesis using less [of "c1 + 1"] c1(1) False by (subst unused_socket_id.simps) auto
    qed
  qed
  with that show thesis by blast
qed

section \<open>The tables\<close>

definition demux_inv :: "listener_driver \<Rightarrow> bool" where
  "demux_inv d \<longleftrightarrow>
     (\<forall>i entry. Mapping.lookup (ld_conns d) i = Some entry \<longrightarrow>
        Mapping.lookup (ld_by_peer d) (ce_peer entry) = Some i \<and> socket_id_ok i)
   \<and> (\<forall>k i. Mapping.lookup (ld_by_peer d) k = Some i \<longrightarrow> Mapping.lookup (ld_conns d) i = Some \<lparr> ce_peer = k \<rparr>)
   \<and> bandwidth_validate (op_bandwidth (ld_opts d)) = Ok ()"

lemma lookup_delete_if: "Mapping.lookup (Mapping.delete k m) k' = (if k = k' then None else Mapping.lookup m k')"
  by (cases "k = k'") simp_all

lemma reap_inv:
  assumes "demux_inv d"
  shows "demux_inv (reap d i)"
proof (cases "Mapping.lookup (ld_conns d) i")
  case None
  then show ?thesis using assms by (simp add: reap_def)
next
  case (Some entry)
  then have "Mapping.lookup (ld_by_peer d) (ce_peer entry) = Some i"
    using assms by (simp add: demux_inv_def)
  then have "Mapping.lookup (ld_by_peer (reap d i)) k = (if k = ce_peer entry then None else Mapping.lookup (ld_by_peer d) k)"
      "Mapping.lookup (ld_conns (reap d i)) j = (if j = i then None else Mapping.lookup (ld_conns d) j)"
      "ld_opts (reap d i) = ld_opts d" for k j
    using Some by (simp_all add: reap_def lookup_delete_if)
  then show ?thesis using assms Some by (auto simp: demux_inv_def) (metis option.inject)
qed

definition enrol :: "listener_driver \<Rightarrow> socket_id \<Rightarrow> peer_key \<Rightarrow> listener_driver" where
  "enrol d i k = d\<lparr> ld_conns := Mapping.update i \<lparr> ce_peer = k \<rparr> (ld_conns d),
     ld_by_peer := Mapping.update k i (ld_by_peer d) \<rparr>"

lemma enrol_inv:
  assumes "demux_inv d" "socket_id_ok i" "Mapping.lookup (ld_conns d) i = None" "Mapping.lookup (ld_by_peer d) k = None"
  shows "demux_inv (enrol d i k)"
  using assms by (auto simp: demux_inv_def enrol_def lookup_update')

section \<open>One turn\<close>

text \<open>What an effect of a turn may be.\<close>

definition effect_sound :: "crypto_prims \<Rightarrow> listener_driver \<Rightarrow> socket_addr \<Rightarrow> bytes \<Rightarrow> effect \<Rightarrow> bool" where
  "effect_sound cp d from datagram x =
     (case x of
        SendTo p a \<Rightarrow> a = from \<and> length (packet_encode p []) \<le> length datagram
      | Forward i b \<Rightarrow>
          b = datagram \<and> datagram_dst datagram \<in> {SID_HANDSHAKE, i}
        \<and> (\<exists>entry. Mapping.lookup (ld_conns d) i = Some entry \<and> fst (ce_peer entry) = from)
      | Spawn i c a \<Rightarrow>
          a = from \<and> Mapping.lookup (ld_conns d) i = None \<and> socket_id_ok i
        \<and> cn_local_socket_id c = i \<and> cn_remote c = from \<and> conn_inv cp c)"

lemma driver_rejection_size:
  assumes "length (hc_peer_ip cif) = 16" shows "length (packet_encode (driver_rejection d now cif code) []) = 64"
proof -
  define l where "l = \<lparr> ls_secret = 0, ls_timebase = ld_timebase d, ls_opts = ld_opts d, ls_crypto_cfg = Panic \<rparr>"
  have "driver_rejection d now cif code =
      listener_packet l now (hc_socket_id cif) (cif\<lparr> hc_handshake_type := Rejection code, hc_extensions := [] \<rparr>)"
    by (simp add: driver_rejection_def listener_packet_def l_def)
  then show ?thesis using assms by (simp add: bare_handshake_size)
qed

lemma set_hs_anchor_inv: "conn_inv cp c \<Longrightarrow> conn_inv cp (conn_set_hs_anchor c now ts)"
  by (cases "cn_state c") (simp_all add: conn_inv_def conn_set_hs_anchor_def)

lemma accepted_fields [simp]:
  "cn_local_socket_id (conn_set_hs_anchor (accepted now n reply opts) t ts) = ng_local_socket_id n"
  "cn_remote (conn_set_hs_anchor (accepted now n reply opts) t ts) = ng_remote n"
  by (auto simp: conn_set_hs_anchor_def accepted_def accepted_with_timebase_def split: state.split prod.split)

definition turn_ok ::
  "crypto_prims \<Rightarrow> listener_driver \<Rightarrow> socket_addr \<Rightarrow> bytes \<Rightarrow> listener_driver \<times> effect list \<Rightarrow> bool" where
  "turn_ok cp d from datagram r \<longleftrightarrow>
     demux_inv (fst r) \<and> (\<forall>x \<in> set (snd r). effect_sound cp d from datagram x)
   \<and> (\<forall>i entry. Mapping.lookup (ld_conns d) i = Some entry \<longrightarrow> Mapping.lookup (ld_conns (fst r)) i = Some entry)"

lemma on_action_ok:
  assumes "prims_ok cp" "demux_inv d" "length (hc_peer_ip cif) = 16" "64 \<le> length datagram"
    and "action_sound cp hsh l now from cif new_id act" "socket_id_ok new_id"
    and "Mapping.lookup (ld_conns d) new_id = None" "Mapping.lookup (ld_by_peer d) (from, hc_socket_id cif) = None"
  shows "turn_ok cp d from datagram (on_action d now from ts cif room act)"
proof (cases act)
  case (ActReply p)
  then show ?thesis using assms by (simp add: turn_ok_def on_action_def effect_sound_def action_sound_def)
next
  case (ActAccept p n)
  have n: "ng_local_socket_id n = new_id" "ng_peer_socket_id n = hc_socket_id cif" "ng_remote n = from"
    "crypto_ok cp (ng_crypto n)"
    using assms(5) ActAccept by (auto simp: action_sound_def crypto_ok_def split: option.splits)
  show ?thesis
  proof (cases room)
    case True
    let ?c = "conn_set_hs_anchor (accepted now n p (ld_opts d)) now ts"
    have "conn_inv cp ?c"
      using accepted_inv [of "ld_opts d" cp n] assms(2) n(4) set_hs_anchor_inv by (simp add: accepted_def demux_inv_def)
    then have "effect_sound cp d from datagram (Spawn new_id ?c from)"
      using assms(6,7) n by (simp add: effect_sound_def)
    moreover have "demux_inv (enrol d new_id (from, hc_socket_id cif))" using assms(2,6,7,8) by (rule enrol_inv)
    ultimately show ?thesis
      using ActAccept True n assms(7) by (auto simp: on_action_def turn_ok_def enrol_def lookup_update' Let_def)
  next
    case False
    then show ?thesis
      using ActAccept assms(2,3,4) driver_rejection_size
      by (simp add: on_action_def turn_ok_def effect_sound_def)
  qed
next
  case ActDrop
  then show ?thesis using assms by (simp add: turn_ok_def on_action_def)
qed

lemma on_request_ok:
  assumes "prims_ok cp" "demux_inv d" "length (hc_peer_ip cif) = 16" "64 \<le> length datagram"
    and "datagram_dst datagram = SID_HANDSHAKE" "free_id h (ld_conns d)"
  shows "\<exists>r. on_request cp hsh h d now from datagram ts cif room = Some (Ok r) \<and> turn_ok cp d from datagram r"
proof (cases "Mapping.lookup (ld_by_peer d) (from, hc_socket_id cif)")
  case (Some i)
  then have "Mapping.lookup (ld_conns d) i = Some \<lparr> ce_peer = (from, hc_socket_id cif) \<rparr>"
    using assms(2) by (auto simp: demux_inv_def)
  then show ?thesis using Some assms(2,5) by (simp add: on_request_def turn_ok_def effect_sound_def)
next
  case None
  show ?thesis
  proof (cases "ld_accept_open d")
    case True
    obtain i c1 where i: "unused_socket_id (ld_conns d) (random_socket_id h) (ld_counter d) = Some (i, c1)"
      "socket_id_ok i" "Mapping.lookup (ld_conns d) i = None"
      using assms(6) by (rule unused_socket_id_Some)
    have "hash_usable h" using assms(6) by (auto simp: free_id_def hash_usable_def)
    then obtain s c2 where s: "random_isn h c1 = Some (s, c2)" by (rule random_isn_Some)
    obtain act where act: "listener_handle_handshake cp hsh (ld_core d) now from cif i = Ok act"
      "action_sound cp hsh (ld_core d) now from cif i act"
      using listener_handshake_sound [OF assms(1,3)] by blast
    have "turn_ok cp (d\<lparr> ld_counter := c2 \<rparr>) from datagram (on_action (d\<lparr> ld_counter := c2 \<rparr>) now from ts cif room act)"
      using assms(1-4) act(2) i(2,3) None by (intro on_action_ok) (simp_all add: demux_inv_def)
    then show ?thesis
      using None True i(1) s act(1) by (simp add: on_request_def turn_ok_def effect_sound_def cong: effect.case_cong)
  next
    case False
    then show ?thesis
      using None assms(2,3,4) driver_rejection_size by (simp add: on_request_def turn_ok_def effect_sound_def)
  qed
qed

lemma on_datagram_ok:
  assumes "prims_ok cp" "demux_inv d" "free_id h (ld_conns d)"
  shows "\<exists>r. on_datagram cp hsh h d now from datagram room = Some (Ok r) \<and> turn_ok cp d from datagram r"
proof -
  have idle: "turn_ok cp d from datagram (d, [])" using assms(2) by (simp add: turn_ok_def)
  consider (runt) "length datagram < 16" | (routed) "16 \<le> length datagram" "datagram_dst datagram \<noteq> SID_HANDSHAKE"
    | (request) "16 \<le> length datagram" "datagram_dst datagram = SID_HANDSHAKE"
    by linarith
  then show ?thesis
  proof cases
    case runt
    then show ?thesis using idle by (simp add: on_datagram_def)
  next
    case routed
    then show ?thesis
      using assms(2)
      by (cases "Mapping.lookup (ld_conns d) (datagram_dst datagram)")
        (simp_all add: on_datagram_def turn_ok_def effect_sound_def)
  next
    case request
    show ?thesis
    proof (cases "\<exists>c cif. packet_parse datagram = Ok (Control c) \<and> cp_control_type c = Handshake cif")
      case True
      then obtain c cif where c: "packet_parse datagram = Ok (Control c)" "cp_control_type c = Handshake cif" by blast
      then show ?thesis
        using on_request_ok [OF assms(1,2) parsed_handshake [OF c] request(2) assms(3)] request
        by (simp add: on_datagram_def)
    next
      case False
      moreover have "packet_parse datagram \<noteq> Panic" by (simp add: packet_parse_def no_panic)
      ultimately show ?thesis
        using idle request
        by (auto simp: on_datagram_def split: outcome.splits packet.splits control_type.splits)
    qed
  qed
qed

section \<open>Runs\<close>

definition listener_step :: "crypto_prims \<Rightarrow> hasher \<Rightarrow> (u64 \<Rightarrow> u64) \<Rightarrow> listener_driver \<Rightarrow> listener_event \<Rightarrow> listener_driver" where
  "listener_step cp hsh h d e = (case listener_turn cp hsh h d e of Some (Ok (d', _)) \<Rightarrow> d' | _ \<Rightarrow> d)"

text \<open>While a request is handled the hash reaches an id no live connection uses.\<close>

fun listener_event_ok :: "(u64 \<Rightarrow> u64) \<Rightarrow> listener_driver \<Rightarrow> listener_event \<Rightarrow> bool" where
  "listener_event_ok h d (LdDatagram now from datagram room) = free_id h (ld_conns d)"
| "listener_event_ok h d _ = True"

lemma listener_turn_inv:
  assumes "prims_ok cp" "demux_inv d" "listener_event_ok h d e"
  shows "\<exists>d' effs. listener_turn cp hsh h d e = Some (Ok (d', effs)) \<and> demux_inv d'
    \<and> (\<forall>i entry. Mapping.lookup (ld_conns d) i = Some entry \<and> e \<noteq> LdReap i \<longrightarrow>
         Mapping.lookup (ld_conns d') i = Some entry)
    \<and> (case e of LdDatagram now from datagram room \<Rightarrow> \<forall>x \<in> set effs. effect_sound cp d from datagram x | _ \<Rightarrow> effs = [])"
proof (cases e)
  case (LdDatagram now a datagram room)
  then have "free_id h (ld_conns d)" using assms(3) by simp
  then obtain r where "on_datagram cp hsh h d now a datagram room = Some (Ok r)" "turn_ok cp d a datagram r"
    using on_datagram_ok [OF assms(1,2)] by blast
  then show ?thesis using LdDatagram by (cases r) (auto simp: turn_ok_def)
next
  case (LdReap i)
  then show ?thesis
    using reap_inv [OF assms(2), of i]
    by (auto simp: reap_def lookup_delete_if split: option.splits)
qed (use assms(2) in \<open>simp_all add: demux_inv_def\<close>)

interpretation lstn: inv_machine "listener_step cp hsh h" "listener_event_ok h" "\<lambda>d. prims_ok cp \<and> demux_inv d"
  for cp hsh h
proof (unfold_locales, elim conjE, intro conjI)
  fix d e assume "prims_ok cp" "demux_inv d" "listener_event_ok h d e"
  then obtain d' effs where "listener_turn cp hsh h d e = Some (Ok (d', effs))" "demux_inv d'"
    using listener_turn_inv by blast
  then show "demux_inv (listener_step cp hsh h d e)" by (simp add: listener_step_def)
qed

lemma bind_listener_inv:
  "bind_listener h counter now answer local_addr opts = Some (Ok d) \<Longrightarrow> demux_inv d"
  by (auto simp: bind_listener_def demux_inv_def Let_def bind_eq_Some_conv
      split: outcome.splits option.splits host_addr.splits)

lemma routed_to_owner:
  assumes "demux_inv d" "Mapping.lookup (ld_conns d) (datagram_dst datagram) = Some entry" "fst (ce_peer entry) = from"
    and "16 \<le> length datagram"
  shows "on_datagram cp hsh h d now from datagram room = Some (Ok (d, [Forward (datagram_dst datagram) datagram]))"
proof -
  have "socket_id_ok (datagram_dst datagram)" using assms(1,2) by (auto simp: demux_inv_def)
  then have "datagram_dst datagram \<noteq> SID_HANDSHAKE" by (simp add: socket_id_ok_def)
  then show ?thesis using assms(2-4) by (simp add: on_datagram_def)
qed

text \<open>
  C6.  The listener routes correctly under any traffic.  From a successful bind, through every sequence
  of datagrams, closed connections and the listener handle being dropped, each turn completes and the
  two demultiplexing tables stay inverse to each other, with ids that are non-zero and have the top bit
  clear.  A datagram is offered only to the connection registered for its source address, and always to
  the one its destination id names when the source matches; a reply goes to the source and is never
  longer than the request; a new connection gets an id no live one uses and starts in its invariant; and
  nothing but its own end removes or changes the entry of a live connection.
\<close>

theorem listener_routing:
  assumes "prims_ok cp" "bind_listener h counter t0 answer local_addr opts = Some (Ok d0)"
    and "inv_machine.run_ok (listener_step cp hsh h) (listener_event_ok h) d0 es" "d = foldl (listener_step cp hsh h) d0 es"
    and "listener_event_ok h d e"
  shows "\<exists>d' effs. listener_turn cp hsh h d e = Some (Ok (d', effs)) \<and> demux_inv d'
    \<and> (\<forall>i entry. Mapping.lookup (ld_conns d) i = Some entry \<and> e \<noteq> LdReap i \<longrightarrow>
         Mapping.lookup (ld_conns d') i = Some entry)
    \<and> (case e of
         LdDatagram now from datagram room \<Rightarrow>
           (\<forall>x \<in> set effs. effect_sound cp d from datagram x)
         \<and> (\<forall>entry. Mapping.lookup (ld_conns d) (datagram_dst datagram) = Some entry \<and> fst (ce_peer entry) = from
              \<and> 16 \<le> length datagram \<longrightarrow> effs = [Forward (datagram_dst datagram) datagram])
       | _ \<Rightarrow> effs = [])"
proof -
  have inv: "demux_inv d"
    using lstn.run_inv [of cp d0 hsh h es] assms(1,3,4) bind_listener_inv [OF assms(2)] by simp
  show ?thesis
    using listener_turn_inv [OF assms(1) inv assms(5), of hsh] routed_to_owner [OF inv]
    by (cases e) (fastforce | simp)+
qed

section \<open>An example run\<close>

definition demo_request :: bytes where
  "demo_request = packet_encode (Control \<lparr> cp_timestamp = Timestamp 5, cp_dst_socket_id = SID_HANDSHAKE,
     cp_control_type = Handshake (demo_cif Conclusion [demo_hsrsp]) \<rparr>) []"

definition demo_listener :: listener_driver where
  "demo_listener = \<lparr> ld_core = listener_new 9 \<lparr> tb_start = 0 \<rparr> (demo_options None), ld_timebase = \<lparr> tb_start = 0 \<rparr>,
     ld_opts = demo_options None, ld_accept_open = True, ld_conns = Mapping.empty, ld_by_peer = Mapping.empty,
     ld_counter = 10 \<rparr>"

lemma demo_bind:
  "bind_listener (\<lambda>c. c) 9 0 (Some [AddrV6, AddrV4 (demo_addr 9000)]) (Some (AddrV4 (demo_addr 9000))) (demo_options None)
    = Some (Ok demo_listener)"
  by (simp add: bind_listener_def demo_options_def default_options_def crypto_config_of_def resolve_v4_def
      demo_listener_def timebase_new_def random_u64.simps Let_def)

lemma demo_request_parsed:
  "packet_parse demo_request = Ok (Control \<lparr> cp_timestamp = Timestamp 5, cp_dst_socket_id = SID_HANDSHAKE,
     cp_control_type = Handshake (demo_cif Conclusion [demo_hsrsp]) \<rparr>)"
proof -
  have "cif_wf (demo_cif Conclusion [demo_hsrsp])"
    by (simp add: cif_wf_def demo_cif_def demo_hsrsp_def SEQ_MASK_def extension_bits_def HS_EXT_HSREQ_def)
  then show ?thesis unfolding demo_request_def by (intro packet_wire) (simp add: control_wf_def)
qed

lemma demo_turn:
  "listener_step demo_prims (\<lambda>s ip p m. s + of_nat m) (\<lambda>c. c) demo_listener (LdDatagram 5 (demo_addr 4000) demo_request True)
    = enrol (demo_listener\<lparr> ld_counter := 12 \<rparr>) (SocketId 10) (demo_addr 4000, SocketId 6)"
proof -
  have ids: "unused_socket_id Mapping.empty (random_socket_id (\<lambda>c. c)) 10 = Some (SocketId 10, 11)"
    "random_isn (\<lambda>c. c) 11 = Some (SeqNumber 11, 12)"
    by (simp_all add: unused_socket_id.simps random_socket_id.simps random_u64.simps random_isn_def seq_new_def SEQ_MASK_def)
  have "64 \<le> length demo_request" by (rule parsed_handshake(2) [OF demo_request_parsed]) simp
  moreover have "datagram_dst demo_request = SID_HANDSHAKE"
    using datagram_dst_parsed [OF demo_request_parsed] by simp
  moreover obtain p n where "listener_handle_handshake demo_prims (\<lambda>s ip p m. s + of_nat m)
      (listener_new 9 \<lparr> tb_start = 0 \<rparr> (demo_options None)) 5 (demo_addr 4000) (demo_cif Conclusion [demo_hsrsp]) (SocketId 10)
      = Ok (ActAccept p n)" "ng_local_socket_id n = SocketId 10" "ng_peer_socket_id n = SocketId 6"
    by (simp add: listener_handle_handshake_def on_conclusion_def caller_eval cookie_ok_def cookie_at_def
        cookie_minute_def listener_new_def HS_VERSION_SRT1_def HS_EXT_KMREQ_def hs_ext_def listener_kmx_def
        accept_conclusion_def)
  ultimately show ?thesis
    using ids demo_request_parsed
    by (simp add: listener_step_def on_datagram_def on_request_def demo_listener_def on_action_def enrol_def Let_def
        demo_cif_def)
qed

theorem listener_routing_witness:
  "\<exists>d'. listener_turn demo_prims (\<lambda>s ip p m. s + of_nat m) (\<lambda>c. c)
       (enrol (demo_listener\<lparr> ld_counter := 12 \<rparr>) (SocketId 10) (demo_addr 4000, SocketId 6))
       (LdDatagram 6 (demo_addr 4000) (replicate 15 0 @ [10]) True)
     = Some (Ok (d', [Forward (SocketId 10) (replicate 15 0 @ [10])])) \<and> demux_inv d'"
proof -
  let ?h = "\<lambda>c :: u64. c" and ?d = "enrol (demo_listener\<lparr> ld_counter := 12 \<rparr>) (SocketId 10) (demo_addr 4000, SocketId 6)"
  let ?dg = "replicate 15 0 @ [10] :: bytes" and ?hsh = "\<lambda>s ip p m. s + of_nat m :: u64"
  let ?e0 = "LdDatagram 5 (demo_addr 4000) demo_request True"
  have "take 4 (drop 12 ?dg) = [0, 0, 0, 10]" by (simp add: numeral_eq_Suc)
  then have dst: "datagram_dst ?dg = SocketId 10" by (simp add: datagram_dst_def)
  have free: "free_id ?h (ld_conns demo_listener)" "free_id ?h (ld_conns ?d)"
    by (auto simp: free_id_def demo_listener_def enrol_def lookup_update' id_bits_def intro: exI [of _ 1])
  have "inv_machine.run_ok (listener_step demo_prims ?hsh ?h) (listener_event_ok ?h) demo_listener [?e0]"
    using free(1) by simp
  moreover have "?d = foldl (listener_step demo_prims ?hsh ?h) demo_listener [?e0]" using demo_turn by simp
  moreover have "listener_event_ok ?h ?d (LdDatagram 6 (demo_addr 4000) ?dg True)" using free(2) by simp
  moreover have "Mapping.lookup (ld_conns ?d) (SocketId 10) = Some \<lparr> ce_peer = (demo_addr 4000, SocketId 6) \<rparr>"
    by (simp add: enrol_def)
  ultimately show ?thesis
    using listener_routing [OF demo_prims_ok demo_bind, of ?hsh "[?e0]" ?d "LdDatagram 6 (demo_addr 4000) ?dg True"] dst
    by auto
qed

end
