(* ===== verification/Socket_Driver.thy ===== *)
theory Socket_Driver
  imports Net Connection_Inv
begin

text \<open>
  The connection task and the socket handle of \<open>socket.rs\<close>.  The task drains what the connection owes,
  publishes its state, and waits for the next datagram, command or deadline.  The kernel's answers to
  sends, the arriving bytes and the instants are arguments; what the task does is a list of effects.
\<close>

section \<open>Sending\<close>

definition CLOSE_DRAIN_HORIZON :: duration where "CLOSE_DRAIN_HORIZON = from_secs 70"

datatype cmd = CmdSend bytes | CmdClose

datatype recv_event = Buffered bytes | Owned bytes | RecvFault | RecvGone

datatype send_outcome = Sent | SendIoError | Short

record output_stats =
  os_udp_send_errors :: nat
  os_udp_short_sends :: nat

fun record_outcome :: "output_stats \<Rightarrow> send_outcome \<Rightarrow> output_stats" where
  "record_outcome o1 Sent = o1"
| "record_outcome o1 SendIoError = o1\<lparr> os_udp_send_errors := os_udp_send_errors o1 + 1 \<rparr>"
| "record_outcome o1 Short = o1\<lparr> os_udp_short_sends := os_udp_short_sends o1 + 1 \<rparr>"

definition stats_snapshot :: "output_stats \<Rightarrow> stats \<Rightarrow> stats" where
  "stats_snapshot o1 st = st\<lparr> st_udp_send_errors := os_udp_send_errors o1, st_udp_short_sends := os_udp_short_sends o1 \<rparr>"

text \<open>The kernel answers a send with a byte count or an error.\<close>

definition classify_send :: "nat option \<Rightarrow> nat \<Rightarrow> send_outcome" where
  "classify_send result expected =
     (case result of Some n \<Rightarrow> if n = expected then Sent else Short | None \<Rightarrow> SendIoError)"

text \<open>The bytes of one datagram: two segments for data, the codec's buffer otherwise.\<close>

definition vectored :: "data_packet \<Rightarrow> bytes" where
  "vectored d = encode_header d @ dp_payload d"

fun send_packet :: "packet \<Rightarrow> bytes" where
  "send_packet (Data d) = vectored d"
| "send_packet (Control c) = packet_encode (Control c) []"

fun record_sends :: "output_stats \<Rightarrow> (nat \<Rightarrow> nat option) \<Rightarrow> packet list \<Rightarrow> output_stats" where
  "record_sends o1 answers [] = o1"
| "record_sends o1 answers (p # ps) =
     record_sends (record_outcome o1 (classify_send (answers 0) (length (send_packet p)))) (\<lambda>i. answers (Suc i)) ps"

section \<open>The task\<close>

text \<open>
  \<open>dr_waiting\<close>: the caller's connect call still waits for the outcome.  The published cells
  \<open>dr_stats\<close>, \<open>dr_close_reason\<close> and \<open>dr_max_payload\<close> are read by the handle.
\<close>

record driver_state =
  dr_conn :: connection
  dr_output :: output_stats
  dr_cmd_open :: bool
  dr_announced :: bool
  dr_waiting :: bool
  dr_stats :: stats
  dr_close_reason :: "close_reason option"
  dr_max_payload :: nat

datatype drive_effect =
    UdpSend bytes
  | Deliver bytes
  | Signal "(unit, srt_error) outcome"

definition spawn_connection :: "connection \<Rightarrow> bool \<Rightarrow> driver_state" where
  "spawn_connection c waiting_caller =
     \<lparr> dr_conn = c, dr_output = \<lparr> os_udp_send_errors = 0, os_udp_short_sends = 0 \<rparr>, dr_cmd_open = True,
       dr_announced = (conn_state_of (cn_state c) = Established), dr_waiting = waiting_caller,
       dr_stats = conn_stats c, dr_close_reason = None, dr_max_payload = conn_max_payload c \<rparr>"

fun connect_error :: "close_reason \<Rightarrow> srt_error" where
  "connect_error CloseConnectTimeout = ConnectTimeout"
| "connect_error (CloseRejected code) =
     (if code = REJ_BADSECRET then WrongPassphrase
      else if code = REJ_UNSECURE then EncryptionUnsupported
      else Rejected code)"
| "connect_error other = Closed other"

text \<open>The drains; not ending is \<open>None\<close>.\<close>

partial_function (option) drain_transmit ::
  "connection \<Rightarrow> instant \<Rightarrow> (connection \<times> packet list, unit) outcome option" where
  "drain_transmit c now =
     (case conn_poll_transmit c now of
        Ok (c1, None) \<Rightarrow> Some (Ok (c1, []))
      | Ok (c1, Some p) \<Rightarrow>
          Option.bind (drain_transmit c1 now) (\<lambda>rest.
          Some (bind_outcome rest (\<lambda>(c2, ps). Ok (c2, p # ps))))
      | _ \<Rightarrow> Some Panic)"

partial_function (option) drain_deliver ::
  "connection \<Rightarrow> instant \<Rightarrow> (connection \<times> bytes list, unit) outcome option" where
  "drain_deliver c now =
     (case conn_poll_deliver c now of
        Ok (c1, None) \<Rightarrow> Some (Ok (c1, []))
      | Ok (c1, Some p) \<Rightarrow>
          Option.bind (drain_deliver c1 now) (\<lambda>rest.
          Some (bind_outcome rest (\<lambda>(c2, ps). Ok (c2, p # ps))))
      | _ \<Rightarrow> Some Panic)"

text \<open>
  The part of the loop before the wait.  The flag of the result says that the task ended; \<open>later\<close> is the
  second clock reading, for the close drain.
\<close>

definition announce :: "driver_state \<Rightarrow> driver_state \<times> drive_effect list" where
  "announce d =
     (d\<lparr> dr_announced := True, dr_max_payload := conn_max_payload (dr_conn d), dr_waiting := False \<rparr>,
      if dr_waiting d then [Signal (Ok ())] else [])"

definition finish ::
  "driver_state \<Rightarrow> instant \<Rightarrow> close_reason \<Rightarrow> (driver_state \<times> drive_effect list, unit) outcome option" where
  "finish d later reason =
     Option.bind (drain_deliver (dr_conn d) (later + CLOSE_DRAIN_HORIZON)) (\<lambda>r.
     Some (bind_outcome r (\<lambda>(c, ps).
       Ok (d\<lparr> dr_conn := c, dr_close_reason := Some reason, dr_waiting := False,
              dr_stats := stats_snapshot (dr_output d) (conn_stats c) \<rparr>,
           (if dr_waiting d then [Signal (Err (connect_error reason))] else []) @ map Deliver ps))))"

definition drive_drain ::
  "(nat \<Rightarrow> nat option) \<Rightarrow> driver_state \<Rightarrow> instant \<Rightarrow> (driver_state \<times> drive_effect list, unit) outcome option" where
  "drive_drain answers d now =
     Option.bind (drain_transmit (dr_conn d) now) (\<lambda>r1.
     case r1 of
       Ok (c1, ps) \<Rightarrow>
         Option.bind (drain_deliver c1 now) (\<lambda>r2.
         Some (bind_outcome r2 (\<lambda>(c2, bs).
           let out = record_sends (dr_output d) answers ps in
           Ok (d\<lparr> dr_conn := c2, dr_output := out, dr_stats := stats_snapshot out (conn_stats c2) \<rparr>,
               map (\<lambda>p. UdpSend (send_packet p)) ps @ map Deliver bs))))
     | _ \<Rightarrow> Some Panic)"

definition drive_settle ::
  "driver_state \<Rightarrow> instant \<Rightarrow> (driver_state \<times> drive_effect list \<times> bool, unit) outcome option" where
  "drive_settle d later =
     (case conn_state_of (cn_state (dr_conn d)) of
        Established \<Rightarrow>
          Some (Ok (if dr_announced d then (d, [], False) else (fst (announce d), snd (announce d), False)))
      | ClosedState reason \<Rightarrow>
          Option.bind (finish d later reason) (\<lambda>r.
          Some (bind_outcome r (\<lambda>(d', effs). Ok (d', effs, True))))
      | Connecting \<Rightarrow> Some (Ok (d, [], False)))"

definition drive_head ::
  "(nat \<Rightarrow> nat option) \<Rightarrow> driver_state \<Rightarrow> instant \<Rightarrow> instant
   \<Rightarrow> (driver_state \<times> drive_effect list \<times> bool, unit) outcome option" where
  "drive_head answers d now later =
     Option.bind (drive_drain answers d now) (\<lambda>r1.
     case r1 of
       Ok (d1, effs1) \<Rightarrow>
         Option.bind (drive_settle d1 later) (\<lambda>r2.
         Some (bind_outcome r2 (\<lambda>(d2, effs2, ended). Ok (d2, effs1 @ effs2, ended))))
     | _ \<Rightarrow> Some Panic)"

text \<open>The wait: what woke the task up.\<close>

datatype wake =
    WakeRecv instant bytes bytes recv_event
  | WakeCmd instant "cmd option"
  | WakeTimer instant

fun drive_wake :: "crypto_prims \<Rightarrow> driver_state \<Rightarrow> wake \<Rightarrow> (driver_state, unit) outcome" where
  "drive_wake cp d (WakeRecv now rs rk (Buffered b)) =
     bind_outcome (handle_datagram cp rs rk (dr_conn d) now b) (\<lambda>c. Ok (d\<lparr> dr_conn := c \<rparr>))"
| "drive_wake cp d (WakeRecv now rs rk (Owned b)) =
     bind_outcome (handle_datagram cp rs rk (dr_conn d) now b) (\<lambda>c. Ok (d\<lparr> dr_conn := c \<rparr>))"
| "drive_wake cp d (WakeRecv now rs rk RecvFault) = Ok d"
| "drive_wake cp d (WakeRecv now rs rk RecvGone) = Ok (d\<lparr> dr_conn := close (dr_conn d) now \<rparr>)"
| "drive_wake cp d (WakeCmd now (Some (CmdSend payload))) =
     (case conn_send cp (dr_conn d) now payload of (c, Panic) \<Rightarrow> Panic | (c, _) \<Rightarrow> Ok (d\<lparr> dr_conn := c \<rparr>))"
| "drive_wake cp d (WakeCmd now (Some CmdClose)) = Ok (d\<lparr> dr_conn := close (dr_conn d) now \<rparr>)"
| "drive_wake cp d (WakeCmd now None) = Ok (d\<lparr> dr_cmd_open := False, dr_conn := close (dr_conn d) now \<rparr>)"
| "drive_wake cp d (WakeTimer now) = Ok (d\<lparr> dr_conn := handle_timer (dr_conn d) now \<rparr>)"

section \<open>The handle\<close>

text \<open>Options are checked before any I/O.\<close>

definition check_options :: "srt_options \<Rightarrow> (unit, srt_error) outcome" where
  "check_options opts =
     (if (case op_streamid opts of Some s \<Rightarrow> length s > 512 | None \<Rightarrow> False) then Err StreamIdTooLong
      else bind_outcome (crypto_config_of opts) (\<lambda>_. bandwidth_validate (op_bandwidth opts)))"

text \<open>\<open>bound\<close>: the UDP socket was bound and connected to the resolved address.\<close>

definition socket_connect ::
  "(u64 \<Rightarrow> u64) \<Rightarrow> u64 \<Rightarrow> instant \<Rightarrow> host_addr list option \<Rightarrow> bool \<Rightarrow> srt_options
   \<Rightarrow> (driver_state \<times> u64, srt_error) outcome option" where
  "socket_connect h counter now answer bound opts =
     (case bind_outcome (check_options opts) (\<lambda>_. resolve_v4 answer) of
        Err e \<Rightarrow> Some (Err e)
      | Panic \<Rightarrow> Some Panic
      | Ok remote \<Rightarrow>
          if \<not> bound then Some (Err IoError)
          else
            Option.bind (random_socket_id h counter) (\<lambda>(i, counter1).
            Option.bind (random_isn h counter1) (\<lambda>(isn, counter2).
            Some (Ok (spawn_connection (connect now remote i isn opts) True, counter2)))))"

text \<open>The answer of the rendezvous, \<open>None\<close> when the driver died or the backstop timeout passed.\<close>

definition connect_outcome :: "(unit, srt_error) outcome option \<Rightarrow> (unit, srt_error) outcome" where
  "connect_outcome answer = (case answer of Some r \<Rightarrow> r | None \<Rightarrow> Err ConnectTimeout)"

definition socket_recv :: "bytes option \<Rightarrow> close_reason option \<Rightarrow> (bytes option, srt_error) outcome" where
  "socket_recv next_payload reason =
     (case next_payload of
        Some payload \<Rightarrow> Ok (Some payload)
      | None \<Rightarrow>
          (case reason of
             None \<Rightarrow> Ok None
           | Some r \<Rightarrow> if r = CloseShutdown \<or> r = CloseLocal then Ok None else Err (Closed r)))"

definition closed_error :: "close_reason option \<Rightarrow> srt_error" where
  "closed_error reason = Closed (case reason of Some r \<Rightarrow> r | None \<Rightarrow> CloseLocal)"

text \<open>\<open>accepted_cmd\<close>: the command queue took the command; it fails once the driver is gone.\<close>

definition socket_send :: "driver_state \<Rightarrow> bytes \<Rightarrow> bool \<Rightarrow> (cmd, srt_error) outcome" where
  "socket_send d payload accepted_cmd =
     (if length payload > dr_max_payload d then Err (PayloadTooLarge (length payload))
      else if accepted_cmd then Ok (CmdSend payload) else Err (closed_error (dr_close_reason d)))"

definition socket_close :: cmd where "socket_close = CmdClose"

definition socket_stats :: "driver_state \<Rightarrow> stats" where "socket_stats d = dr_stats d"

end
