(* ===== verification/Socket_Props.thy ===== *)
theory Socket_Props
  imports Socket_Driver Data_Path
begin

text \<open>
  The connection task always completes its turn: both drains end after a bounded number of steps, no turn
  panics, and the published cells and the caller's signal agree with the connection.
\<close>

section \<open>The transmit drain ends\<close>

lemma send_packet_encode: "send_packet p = packet_encode p []"
  by (cases p) (simp_all add: vectored_def data_encode_def)

fun owed_by :: "instant \<Rightarrow> state \<Rightarrow> nat" where
  "owed_by now (StConnecting hs _ _) = (if waiting_reply hs \<and> ch_next_send hs \<le> now then 1 else 0)"
| "owed_by now (StEstablished s r _) =
     length (rv_control_q r) + length (sn_control_queue s) + length (sn_loss_list s) + (end_index s - sn_next_send_index s)"
| "owed_by now (StClosed _ _) = 0"

definition owed :: "connection \<Rightarrow> instant \<Rightarrow> nat" where
  "owed c now = length (cn_transmit_q c) + owed_by now (cn_state c)"

lemma sent_frame [simp]:
  "sn_loss_list (pace_sent s now len b) = sn_loss_list s"
  "sn_next_send_index (pace_sent s now len b) = sn_next_send_index s"
  "sn_control_queue (pace_sent s now len b) = sn_control_queue s"
  "sn_loss_list (count_sent s p b) = sn_loss_list s"
  "sn_next_send_index (count_sent s p b) = sn_next_send_index s"
  "sn_control_queue (count_sent s p b) = sn_control_queue s"
  by (simp_all add: pace_sent_def count_sent_def Let_def)

definition backlog :: "sender \<Rightarrow> nat" where
  "backlog s = length (sn_loss_list s) + (end_index s - sn_next_send_index s)"

lemma poll_transmit_owed:
  assumes "sender_inv s" "(poll_transmit s now :: (_, unit) outcome) = Ok (s', Some d)"
  shows "backlog s' < backlog s \<and> sn_control_queue s' = sn_control_queue s"
proof -
  note fin = poll_transmit_end [OF assms]
  show ?thesis
    using assms(1)
  proof (cases rule: poll_transmit_cases [where now = now and 'e = unit])
    case (rexmit s1 i rest)
    have "length (i # rest) \<le> length (sn_loss_list s1)" using rexmit(4) length_dropWhile_le by metis
    moreover have "sn_loss_list s' = rest" "sn_next_send_index s' = sn_next_send_index s1"
      "sn_control_queue s' = sn_control_queue s1"
      using rexmit(5) assms(2) by (auto simp: rexmitted_def Let_def)
    ultimately show ?thesis using rexmit(3) fin by (simp add: backlog_def same_core_def)
  next
    case (fresh s1)
    have "sn_loss_list s' = []" "sn_next_send_index s' = sn_next_send_index s + 1" "sn_control_queue s' = sn_control_queue s1"
      using fresh(6) assms(2) by auto
    then show ?thesis using fresh(3,4) fin by (simp add: backlog_def same_core_def)
  qed (use assms(2) in simp_all)
qed

lemma established_owed:
  assumes "sender_inv s" "cn_state c = StEstablished s r cr" "cn_transmit_q c = []" "next_transmit c now = Ok (c', Some p)"
  shows "owed c' now < owed c now"
proof (cases "rv_control_q r")
  case (Cons x xs)
  then show ?thesis using assms(2-4) by (auto simp: next_transmit_def owed_def receiver_poll_control_def)
next
  case r: Nil
  show ?thesis
  proof (cases "sn_control_queue s")
    case (Cons x xs)
    then show ?thesis
      using assms(2-4) r by (auto simp: next_transmit_def owed_def receiver_poll_control_def sender_poll_control_def end_index_def)
  next
    case Nil
    then obtain s' d where "(poll_transmit s now :: (_, unit) outcome) = Ok (s', Some d)"
      "c' = c\<lparr> cn_state := StEstablished s' r cr \<rparr>"
      using assms(2-4) r
      by (auto simp: next_transmit_def receiver_poll_control_def sender_poll_control_def bind_outcome_Ok_iff)
    then show ?thesis
      using poll_transmit_owed [OF assms(1)] assms(2,3) by (auto simp: owed_def backlog_def)
  qed
qed

lemma next_transmit_owed:
  assumes "conn_inv cp c" "next_transmit c now = Ok (c', Some p)" shows "owed c' now < owed c now"
proof (cases "cn_transmit_q c")
  case Nil
  show ?thesis
  proof (cases "cn_state c")
    case (StConnecting hs pending early)
    then show ?thesis
      using assms(2) Nil
      by (auto simp: next_transmit_def owed_def caller_poll_transmit_def HS_RETRY_INTERVAL_def Let_def from_millis_def
          split: if_splits)
  next
    case (StEstablished s r cr)
    have "sender_inv s" using assms(1) StEstablished by (simp add: conn_inv_def)
    then show ?thesis using StEstablished Nil assms(2) by (rule established_owed)
  next
    case (StClosed reason r)
    then show ?thesis using assms(2) Nil by (simp add: next_transmit_def)
  qed
next
  case (Cons q qs)
  then show ?thesis using assms(2) by (auto simp: next_transmit_def owed_def)
qed

lemma conn_poll_transmit_owed:
  assumes "conn_inv cp c" "conn_poll_transmit c now = Ok (c', Some p)" shows "owed c' now < owed c now"
proof -
  obtain c1 q where "next_transmit c now = Ok (c1, Some q)" "c' = c1\<lparr> cn_last_sent := now \<rparr>"
    using assms(2) by (auto simp: conn_poll_transmit_def bind_outcome_Ok_iff Let_def split: option.splits)
  then show ?thesis using next_transmit_owed [OF assms(1)] by (simp add: owed_def)
qed

lemma drain_transmit_total:
  assumes "conn_inv cp c"
  shows "\<exists>c' ps. drain_transmit c now = Some (Ok (c', ps)) \<and> conn_inv cp c' \<and> length ps \<le> owed c now"
  using assms
proof (induction "owed c now" arbitrary: c rule: less_induct)
  case less
  obtain c1 p where c1: "conn_poll_transmit c now = Ok (c1, p)" "conn_inv cp c1"
    using conn_poll_transmit_inv [OF less.prems] by blast
  show ?case
  proof (cases p)
    case None
    then show ?thesis using c1 by (subst drain_transmit.simps) simp
  next
    case (Some q)
    have lt: "owed c1 now < owed c now" using conn_poll_transmit_owed [OF less.prems] c1(1) Some by simp
    then obtain c' ps where "drain_transmit c1 now = Some (Ok (c', ps))" "conn_inv cp c'" "length ps \<le> owed c1 now"
      using less.hyps c1(2) by blast
    then show ?thesis using c1(1) Some lt by (subst drain_transmit.simps) simp
  qed
qed

section \<open>The delivery drain ends\<close>

lemma deliver_loop_shrinks:
  "deliver_loop r a now = (Ok (r', Some p) :: (_, 'e) outcome) \<Longrightarrow> length (rv_slots r') < length (rv_slots r)"
proof (induction "length (rv_slots r)" arbitrary: r rule: less_induct)
  case less
  obtain i peek where i: "first_occupied r = Some i" "rv_slots r ! i = Some peek"
    "\<not> now < tsbpd_deadline (r\<lparr> rv_scan_hint := i \<rparr>) a (sl_ext_us peek)"
    using less.prems by (subst (asm) deliver_loop.simps) (auto simp: Let_def split: option.splits if_splits)
  define r2 where "r2 = skip_hole (r\<lparr> rv_scan_hint := i \<rparr>) i"
  obtain sl rest where r2: "rv_slots r2 = Some sl # rest"
    using less.prems i unfolding r2_def
    by (subst (asm) deliver_loop.simps) (auto simp: Let_def split: option.splits if_splits list.splits)
  have shorter: "length (rv_slots (pop_slot r2)) < length (rv_slots r)"
    using r2 by (auto simp: r2_def skip_hole_def pop_slot_def dest: drop_eq_Cons_length split: if_splits)
  define r3 where "r3 = (pop_slot r2)\<lparr> rv_stats := (rv_stats (pop_slot r2))
    \<lparr> rs_pkts_dropped := rs_pkts_dropped (rv_stats (pop_slot r2)) + 1 \<rparr> \<rparr>"
  have "(if sl_undecryptable sl then deliver_loop r3 a now else Ok (pop_slot r2, Some (sl_payload sl)))
      = (Ok (r', Some p) :: (_, 'e) outcome)"
    using less.prems i r2 unfolding r3_def r2_def by (subst (asm) deliver_loop.simps) (simp add: Let_def)
  then show ?case using less.hyps [of r3] shorter by (auto simp: r3_def split: if_splits)
qed

fun waiting_slots :: "state \<Rightarrow> nat" where
  "waiting_slots (StEstablished _ r _) = length (rv_slots r)"
| "waiting_slots (StClosed _ (Some r)) = length (rv_slots r)"
| "waiting_slots _ = 0"

lemma conn_poll_deliver_step:
  assumes "conn_poll_deliver c now = Ok (c', p)"
  shows "conn_state_of (cn_state c') = conn_state_of (cn_state c)"
    "p \<noteq> None \<Longrightarrow> waiting_slots (cn_state c') < waiting_slots (cn_state c)"
  using assms deliver_loop_shrinks [where 'e = unit]
  by (auto simp: conn_poll_deliver_def poll_deliver_def bind_outcome_Ok_iff split: state.splits option.splits)

lemma drain_deliver_total:
  assumes "conn_inv cp c"
  shows "\<exists>c' ps. drain_deliver c now = Some (Ok (c', ps)) \<and> conn_inv cp c'
    \<and> conn_state_of (cn_state c') = conn_state_of (cn_state c) \<and> length ps \<le> waiting_slots (cn_state c)"
  using assms
proof (induction "waiting_slots (cn_state c)" arbitrary: c rule: less_induct)
  case less
  obtain c1 p where c1: "conn_poll_deliver c now = Ok (c1, p)" "conn_inv cp c1"
    using conn_poll_deliver_inv [OF less.prems] by blast
  note step = conn_poll_deliver_step [OF c1(1)]
  show ?case
  proof (cases p)
    case None
    then show ?thesis using c1 step(1) by (subst drain_deliver.simps) simp
  next
    case (Some q)
    then have lt: "waiting_slots (cn_state c1) < waiting_slots (cn_state c)" using step(2) by simp
    then obtain c' ps where "drain_deliver c1 now = Some (Ok (c', ps))" "conn_inv cp c'"
      "conn_state_of (cn_state c') = conn_state_of (cn_state c1)" "length ps \<le> waiting_slots (cn_state c1)"
      using less.hyps c1(2) by blast
    then show ?thesis using c1(1) Some lt step(1) by (subst drain_deliver.simps) simp
  qed
qed

section \<open>One turn of the task\<close>

fun is_send :: "drive_effect \<Rightarrow> bool" where
  "is_send (UdpSend b) = True"
| "is_send _ = False"

fun signal_of :: "drive_effect \<Rightarrow> (unit, srt_error) outcome option" where
  "signal_of (Signal r) = Some r"
| "signal_of _ = None"

definition signals :: "drive_effect list \<Rightarrow> (unit, srt_error) outcome list" where
  "signals effs = List.map_filter signal_of effs"

lemma signals_simps [simp]:
  "signals [] = []" "signals (x # xs) = (case signal_of x of None \<Rightarrow> signals xs | Some r \<Rightarrow> r # signals xs)"
  "signals (xs @ ys) = signals xs @ signals ys" "signals (map Deliver bs) = []" "signals (map (\<lambda>p. UdpSend (f p)) ps) = []"
  by (simp_all add: signals_def map_filter_def split: option.split)

lemma sends_simps [simp]:
  "filter is_send (map Deliver bs) = []" "filter is_send (map (\<lambda>p. UdpSend (f p)) ps) = map (\<lambda>p. UdpSend (f p)) ps"
  by (simp_all add: filter_empty_conv filter_id_conv)

text \<open>What the caller is told and what is published, given the state the connection is in.\<close>

definition settled :: "driver_state \<Rightarrow> driver_state \<Rightarrow> (unit, srt_error) outcome list \<Rightarrow> bool \<Rightarrow> bool" where
  "settled d d' sigs ended \<longleftrightarrow>
     (case conn_state_of (cn_state (dr_conn d')) of
        Connecting \<Rightarrow> \<not> ended \<and> sigs = []
      | Established \<Rightarrow>
          \<not> ended \<and> dr_announced d'
        \<and> (\<not> dr_announced d \<longrightarrow> dr_max_payload d' = conn_max_payload (dr_conn d') \<and> \<not> dr_waiting d'
             \<and> sigs = (if dr_waiting d then [Ok ()] else []))
        \<and> (dr_announced d \<longrightarrow> sigs = [])
      | ClosedState reason \<Rightarrow>
          ended \<and> dr_close_reason d' = Some reason \<and> \<not> dr_waiting d'
        \<and> sigs = (if dr_waiting d then [Err (connect_error reason)] else []))"

lemma settled_frame: "settled (d\<lparr> dr_conn := c, dr_output := x, dr_stats := y \<rparr>) = settled d"
  by (intro ext) (simp add: settled_def cong: conn_state.case_cong)

lemma drive_drain_total:
  assumes "conn_inv cp (dr_conn d)"
  obtains c ps bs where "drive_drain answers d now = Some (Ok
      (d\<lparr> dr_conn := c, dr_output := record_sends (dr_output d) answers ps,
          dr_stats := stats_snapshot (record_sends (dr_output d) answers ps) (conn_stats c) \<rparr>,
       map (\<lambda>p. UdpSend (send_packet p)) ps @ map Deliver bs))"
    "conn_inv cp c" "length ps \<le> owed (dr_conn d) now"
proof -
  obtain c1 ps where 1: "drain_transmit (dr_conn d) now = Some (Ok (c1, ps))" "conn_inv cp c1"
    "length ps \<le> owed (dr_conn d) now"
    using drain_transmit_total [OF assms] by blast
  obtain c bs where "drain_deliver c1 now = Some (Ok (c, bs))" "conn_inv cp c" using drain_deliver_total [OF 1(2)] by blast
  then show thesis using 1 by (intro that [where c = c and ps = ps and bs = bs]) (simp_all add: drive_drain_def Let_def)
qed

lemma drive_settle_total:
  assumes "conn_inv cp (dr_conn d)" "dr_stats d = stats_snapshot (dr_output d) (conn_stats (dr_conn d))"
  shows "\<exists>d' effs ended. drive_settle d later = Some (Ok (d', effs, ended)) \<and> conn_inv cp (dr_conn d')
    \<and> settled d d' (signals effs) ended \<and> filter is_send effs = []
    \<and> dr_stats d' = stats_snapshot (dr_output d') (conn_stats (dr_conn d'))"
proof (cases "conn_state_of (cn_state (dr_conn d))")
  case (ClosedState reason)
  obtain c ps where "drain_deliver (dr_conn d) (later + CLOSE_DRAIN_HORIZON) = Some (Ok (c, ps))" "conn_inv cp c"
    "conn_state_of (cn_state c) = ClosedState reason"
    using drain_deliver_total [OF assms(1)] ClosedState by metis
  then show ?thesis using ClosedState by (auto simp: drive_settle_def finish_def settled_def)
qed (use assms in \<open>auto simp: drive_settle_def settled_def announce_def\<close>)

lemma drive_head_total:
  assumes "conn_inv cp (dr_conn d)"
  shows "\<exists>d' effs ended. drive_head answers d now later = Some (Ok (d', effs, ended)) \<and> conn_inv cp (dr_conn d')
    \<and> settled d d' (signals effs) ended \<and> length (filter is_send effs) \<le> owed (dr_conn d) now
    \<and> (\<forall>b. UdpSend b \<in> set effs \<longrightarrow> (\<exists>p. b = packet_encode p []))
    \<and> dr_stats d' = stats_snapshot (dr_output d') (conn_stats (dr_conn d'))"
proof -
  obtain c ps bs where 1: "drive_drain answers d now = Some (Ok
      (d\<lparr> dr_conn := c, dr_output := record_sends (dr_output d) answers ps,
          dr_stats := stats_snapshot (record_sends (dr_output d) answers ps) (conn_stats c) \<rparr>,
       map (\<lambda>p. UdpSend (send_packet p)) ps @ map Deliver bs))"
    "conn_inv cp c" "length ps \<le> owed (dr_conn d) now"
    using assms by (rule drive_drain_total)
  define d1 where "d1 = d\<lparr> dr_conn := c, dr_output := record_sends (dr_output d) answers ps,
          dr_stats := stats_snapshot (record_sends (dr_output d) answers ps) (conn_stats c) \<rparr>"
  obtain d' effs ended where 2: "drive_settle d1 later = Some (Ok (d', effs, ended))" "conn_inv cp (dr_conn d')"
    "settled d1 d' (signals effs) ended" "filter is_send effs = []"
    "dr_stats d' = stats_snapshot (dr_output d') (conn_stats (dr_conn d'))"
    using drive_settle_total [of cp d1 later] 1(2) by (auto simp: d1_def)
  have "UdpSend b \<notin> set effs" for b using 2(4) by (metis filter_empty_conv is_send.simps(1))
  moreover have "settled d d' (signals effs) ended" using 2(3) by (simp add: settled_frame d1_def)
  ultimately show ?thesis
    using 1 2 by (auto simp: drive_head_def d1_def [symmetric] send_packet_encode)
qed

lemma drive_wake_total:
  assumes "prims_ok cp" "conn_inv cp (dr_conn d)"
  shows "\<exists>d'. drive_wake cp d w = Ok d' \<and> conn_inv cp (dr_conn d')"
proof -
  have call: "\<exists>c'. conn_call cp (dr_conn d) e = Ok c' \<and> conn_inv cp c'" for e using conn_call_inv [OF assms] .
  have closed: "conn_inv cp (close (dr_conn d) now)" "conn_inv cp (handle_timer (dr_conn d) now)" for now
    using call [of "EvClose now"] call [of "EvTimer now"] by simp_all
  have input: "\<exists>d'. bind_outcome (handle_datagram cp rs rk (dr_conn d) now b) (\<lambda>c. Ok (d\<lparr> dr_conn := c \<rparr>)) = (Ok d' :: (_, unit) outcome)
      \<and> conn_inv cp (dr_conn d')" for rs rk now b
    using call [of "EvDatagram now rs rk b"] by auto
  show ?thesis
  proof (cases "(cp, d, w)" rule: drive_wake.cases)
    case (5 cp' d' now payload)
    then show ?thesis
      using call [of "EvSend now payload"] by (auto split: prod.splits outcome.splits)
  qed (use closed input assms(2) in simp_all)
qed

section \<open>Runs of the task\<close>

type_synonym turn = "(nat \<Rightarrow> nat option) \<times> instant \<times> instant \<times> wake"

fun drive_turn :: "crypto_prims \<Rightarrow> driver_state \<Rightarrow> turn \<Rightarrow> driver_state" where
  "drive_turn cp d (answers, now, later, w) =
     (case drive_head answers d now later of
        Some (Ok (d1, _, ended)) \<Rightarrow> if ended then d1 else (case drive_wake cp d1 w of Ok d2 \<Rightarrow> d2 | _ \<Rightarrow> d1)
      | _ \<Rightarrow> d)"

interpretation task: inv_machine "drive_turn cp" "\<lambda>_ _. True" "\<lambda>d. prims_ok cp \<and> conn_inv cp (dr_conn d)" for cp
proof (unfold_locales, elim conjE, intro conjI)
  fix d :: driver_state and x :: turn assume inv: "prims_ok cp" "conn_inv cp (dr_conn d)"
  obtain answers now later w where x: "x = (answers, now, later, w)" by (cases x)
  obtain d1 effs ended where 1: "drive_head answers d now later = Some (Ok (d1, effs, ended))" "conn_inv cp (dr_conn d1)"
    using drive_head_total [OF inv(2)] by blast
  obtain d2 where "drive_wake cp d1 w = Ok d2" "conn_inv cp (dr_conn d2)" using drive_wake_total [OF inv(1) 1(2)] by blast
  then show "conn_inv cp (dr_conn (drive_turn cp d x))" using 1 x by simp
qed

lemma task_run_ok [simp]: "inv_machine.run_ok (drive_turn cp) (\<lambda>_ _. True) d es"
  by (induction es arbitrary: d) simp_all

text \<open>
  C7.  The connection task never hangs and tells the truth.  In any run of the task of a caller's or an
  accepted connection, whatever arrives and however the kernel answers, the next turn ends: both drains
  return, after at most as many datagrams as the connection owes, each the codec's encoding of a packet,
  and every way to wake up is handled without panic.  The task ends exactly when the connection is closed, with the
  reason published; a waiting caller is told once, success only when established and with the negotiated
  payload limit already published, failure with the error of the close reason; and the published
  statistics are those of the connection.
\<close>

theorem driver_completes:
  assumes "prims_ok cp" "bandwidth_validate (op_bandwidth opts) = Ok ()"
    and "c0 = connect t0 remote cid isn opts
       \<or> (case ng_crypto n of None \<Rightarrow> True | Some e \<Rightarrow> crypto_inv cp e) \<and> c0 = accepted t0 n reply opts"
    and "d = foldl (drive_turn cp) (spawn_connection c0 waits) turns"
  shows "\<exists>d' effs ended. drive_head answers d now later = Some (Ok (d', effs, ended))
    \<and> (ended \<longleftrightarrow> is_closed (dr_conn d')) \<and> settled d d' (signals effs) ended
    \<and> length (filter is_send effs) \<le> owed (dr_conn d) now
    \<and> (\<forall>b. UdpSend b \<in> set effs \<longrightarrow> (\<exists>p. b = packet_encode p []))
    \<and> dr_stats d' = stats_snapshot (dr_output d') (conn_stats (dr_conn d'))
    \<and> (\<forall>w. \<exists>d''. drive_wake cp d' w = Ok d'')"
proof -
  have "conn_inv cp c0"
    using assms(2,3) connect_inv [of opts cp] accepted_inv [of opts cp n]
    by (auto simp: connect_def accepted_def crypto_ok_def split: option.splits)
  then have "conn_inv cp (dr_conn d)"
    using task.run_inv [of cp "spawn_connection c0 waits" turns] assms(1,4) by (simp add: spawn_connection_def)
  then obtain d' effs ended where d': "drive_head answers d now later = Some (Ok (d', effs, ended))" "conn_inv cp (dr_conn d')"
    "settled d d' (signals effs) ended" "length (filter is_send effs) \<le> owed (dr_conn d) now"
    "\<forall>b. UdpSend b \<in> set effs \<longrightarrow> (\<exists>p. b = packet_encode p [])"
    "dr_stats d' = stats_snapshot (dr_output d') (conn_stats (dr_conn d'))"
    using drive_head_total by blast
  moreover have "ended \<longleftrightarrow> is_closed (dr_conn d')"
    using d'(3) by (cases "cn_state (dr_conn d')") (simp_all add: settled_def is_closed_def)
  ultimately show ?thesis using drive_wake_total [OF assms(1)] by blast
qed

definition demo_turns :: "turn list" where
  "demo_turns = [(\<lambda>_. None, 0, 0, WakeCmd 1 (Some (CmdSend [1, 2]))), (\<lambda>_. Some 64, 2, 2, WakeRecv 3 [] [] (Buffered [0x80, 0])),
     (\<lambda>_. Some 64, 4, 4, WakeCmd 5 None)]"

theorem driver_completes_witness:
  "\<exists>d d' effs ended. d = foldl (drive_turn demo_prims)
       (spawn_connection (connect 0 (demo_addr 9000) (SocketId 5) (SeqNumber 77) (demo_options None)) True) demo_turns
    \<and> drive_head (\<lambda>_. None) d 6 6 = Some (Ok (d', effs, ended)) \<and> (ended \<longleftrightarrow> is_closed (dr_conn d'))
    \<and> settled d d' (signals effs) ended"
  using driver_completes [OF demo_prims_ok _ disjI1 [OF refl] refl, where opts = "demo_options None" and ?t0.0 = 0
      and remote = "demo_addr 9000" and cid = "SocketId 5" and isn = "SeqNumber 77" and waits = True
      and turns = demo_turns and answers = "\<lambda>_. None" and now = 6 and later = 6]
  by (auto simp: demo_options_def default_options_def)

end
