(* ===== verification/Spec2Isabelle.thy ===== *)
theory Spec2Isabelle
  imports Packet_Codec Time_Base Crypto_Refresh Pacing Sender_Props Receiver_Timing Receiver_Journal Handshake_Safety End_To_End
    Listener_Props Socket_Props
begin

text \<open>
  \<^bold>\<open>A verified model of an SRT implementation.\<close>

  The program under \<open>src/src/\<close> is a live-mode SRT endpoint.  A sans-I/O core (\<open>core/\<close>, \<open>packet/\<close>, \<open>crypto/\<close>)
  turns datagrams, timer ticks and application messages into state changes and packets; a thin runtime
  (\<open>listener.rs\<close>, \<open>socket.rs\<close>, \<open>net.rs\<close>) connects it to UDP sockets and tasks.  A caller and a listener run the
  handshake, which negotiates latencies, MSS and keys; each end then holds a connection made of a sender, a
  receiver and, with a passphrase, an encryption engine.

  \<^bold>\<open>Conventions.\<close>  Wire integers and 32-bit counters are words and wrap; statistics, indices and the 64-bit
  extended sequence numbers are naturals.  An \<open>Instant\<close> or \<open>Duration\<close> is a natural number of nanoseconds, with the
  saturating subtraction of \<open>duration_since\<close>.  Fallible code returns \<open>outcome\<close>: \<open>Ok\<close>, \<open>Err\<close> or \<open>Panic\<close>; every slice out
  of range, \<open>unwrap\<close>, \<open>expect\<close> and \<open>unreachable!\<close> of the source is a \<open>Panic\<close> branch.  So are the debug assertions of
  the cipher and key-wrap calls (\<open>encrypt\<close>, \<open>wrap_key\<close>, key lengths); those of the encoders are the well-formedness
  predicates (\<open>km_wf\<close>, \<open>ext_wf\<close>, \<open>packet_wf\<close>), and the one of \<open>drop_front\<close> holds at each of its calls.  \<open>&mut self\<close> is state passing
  over a record with the fields of the struct.  Random bytes are arguments.  Code outside the repository is a
  parameter: the cipher, key-wrap and key-derivation crates as the record \<open>crypto_prims\<close> with the documented laws
  \<open>prims_ok\<close> (unwrapping inverts wrapping; the lengths of derived keys, wrapped keys and keystreams), the standard
  hasher of the cookie as \<open>hasher\<close>, the process-wide SipHash as a function of the counter, and the answers of
  resolver, kernel and channels as arguments.  \<open>demo_prims\<close> and the \<open>demo_\<close> constants are concrete instances.

  \<^bold>\<open>Theories and what they model.\<close>
  \<^item> \<open>Srt_Prelude\<close>: outcomes, big-endian fields, durations; the interfaces \<open>be_field\<close> (a field codec), \<open>wire_format\<close>
    (encode, then decode), \<open>inv_machine\<close> (a step function with an invariant) and \<open>seq_space\<close> (circular numbers).
  \<^item> \<open>Seq_Number\<close>, \<open>Packet_Base\<close>, \<open>Packet_Data\<close>, \<open>Packet_Control\<close>, \<open>Packet_Handshake\<close>, \<open>Packet_Codec\<close>, \<open>Utf8_Lossy\<close>:
    \<open>packet/\<close> -- every parser and encoder, with \<open>String::from_utf8_lossy\<close> of the standard library.
  \<^item> \<open>Time_Base\<close>: \<open>core/time.rs\<close> -- wire timestamps, their 64-bit extension, the drift tracer.
  \<^item> \<open>Srt_Options\<close>: \<open>options.rs\<close> and \<open>error.rs\<close>.
  \<^item> \<open>Crypto_Keys\<close>, \<open>Crypto_Km\<close>, \<open>Crypto_Context\<close>, \<open>Crypto_Engine\<close>, \<open>Crypto_Refresh\<close>: \<open>crypto/\<close> -- keys, CTR
    keystream, key-material messages, the engine; \<open>Crypto_Refresh\<close> joins two engines by a link that loses messages.
  \<^item> \<open>Float64\<close>, \<open>Pacing\<close>: \<open>core/pacing.rs\<close>, with the rounding of the \<open>f64\<close> computations.
  \<^item> \<open>Sender\<close>, \<open>Sender_Inv\<close>, \<open>Sender_Props\<close>: \<open>core/sender.rs\<close>.
  \<^item> \<open>Receiver\<close>, \<open>Receiver_Spec\<close>, \<open>Receiver_Refine\<close>, \<open>Receiver_Props\<close>, \<open>Receiver_Delivery\<close>, \<open>Receiver_Timing\<close>,
    \<open>Receiver_Journal\<close>: \<open>core/receiver.rs\<close>, an abstract receiver over unbounded indices, and the refinement.
  \<^item> \<open>Handshake\<close>, \<open>Handshake_Props\<close>, \<open>Handshake_Safety\<close>: \<open>core/handshake.rs\<close>.
  \<^item> \<open>Connection\<close>, \<open>Connection_Inv\<close>, \<open>Connection_Props\<close>: \<open>core/mod.rs\<close>.
  \<^item> \<open>Net\<close>: \<open>net.rs\<close>; \<open>Listener_Driver\<close>, \<open>Listener_Props\<close>: \<open>listener.rs\<close>; \<open>Socket_Driver\<close>, \<open>Socket_Props\<close>:
    \<open>socket.rs\<close>.  The tasks return the list of their effects: packets sent, datagrams forwarded, connections
    spawned, payloads delivered, signals to a waiting caller.
  \<^item> \<open>Data_Path\<close>, \<open>End_To_End\<close>: two connected ends and an adversarial network between them.

  \<^bold>\<open>What is shown.\<close>
  \<^item> Codec: parsing inverts encoding on every well-formed packet (C10); no byte string makes a parser panic (C34).
  \<^item> Time: timestamp extension recovers a sent time within \<open>2 ^ 31\<close> microseconds of the expected one (C37); the drift
    correction stays within the measured offsets and the time base moves by at most 5 ms per batch (C38).
  \<^item> Encryption: resolved options are usable (C40); the engine keeps its key invariant and panics on nothing but
    the encryption of an empty payload (C33), which the sender never asks for (C5); a key exchange secures both
    directions (C13); over a link that loses refresh messages the peer reads every packet whose key has reached it,
    although the sender switches without waiting for that (C9).
  \<^item> Pacing: the truncated floating-point period equals the integer quotient (C35) and sending respects the configured rate (C36).
  \<^item> Sender: invariant over every run (C14); exact effect of acknowledgements (C15), loss reports (C22) and too-late
    drop (C23); new data stays in the window (C24), losses go first (C25), a retransmission carries the
    same bytes (C8).
  \<^item> Receiver: refinement of the unbounded specification (C2), in-order exactly-once delivery (C3), delivery
    on time (C16), exact acknowledgements (C19, C20, C31) and loss reports (C21, C26), bounded round-trip estimates
    (C39), a safe wake-up time (C29).
  \<^item> Handshake: both ends agree (C4); encryption is enforced by the caller (C11) and the listener (C12), which does
    not amplify traffic; a caller ends (C32).
  \<^item> Connection: no input makes it panic (C5); closing is final (C27); a silent peer is detected, and not before the
    configured timeout (C18); keepalives (C30); the announced deadline misses no timer (C28).
  \<^item> Runtime: the listener routes every datagram to the right connection or none (C6); the connection task always
    completes its turn and publishes the truth (C7).
  \<^item> Composition: connected halves fit (C17), and what the receiving application gets is a subsequence of
    what the sending application passed in (C1).

  \<^bold>\<open>Structure of the proofs.\<close>  Each stateful component has a record, one definition per operation, an invariant with a
  preservation lemma per operation, and a datatype of events; \<open>inv_machine\<close> is interpreted on the resulting step
  function (\<open>engine\<close>, \<open>refresh\<close>, \<open>snd_machine\<close>, \<open>rcv_machine\<close>, \<open>journal\<close>, \<open>caller\<close>, \<open>conn\<close>, \<open>src\<close>, \<open>lstn\<close>, \<open>task\<close>), which gives the
  invariant over every run.  The \<open>wire_format\<close> interpretations give the round trips, \<open>seq_space\<close> the arithmetic of the
  31-bit sequence numbers.

  \<^bold>\<open>Bounds, loops and assumptions.\<close>  Loops over lists are structural recursion or functions with a termination
  proof; there is no fuel.  The loops that could run forever -- rolling random ids and draining a connection --
  are partial functions into \<open>option\<close>, and C6 and C7 show that they return.  Receiver theorems assume a buffer of at
  most \<open>2 ^ 29\<close> packets (the code caps scaling at \<open>2 ^ 20\<close> above the configured size), drop requests within \<open>2 ^ 29\<close>
  of the delivery point, and fewer than \<open>2 ^ 30\<close> packets acknowledged without an ACKACK.  C1 assumes that a packet is not
  delayed by \<open>2 ^ 30\<close> sequence numbers nor past the life of its key: the stream carries no authentication, so a
  later key under the same slot would turn it into noise.  C4 assumes latencies in whole milliseconds up to
  65535, the range of the wire field.

  \<^bold>\<open>Not modelled.\<close>  Logging; the text of error messages; zeroization of secrets; the system calls that create a UDP
  socket (\<open>net::bind_udp\<close>) and the two options that configure it; the scheduling of tasks by the tokio runtime,
  of which only the events a task reacts to remain; \<open>lib.rs\<close> (re-exports) and the command-line programs
  under \<open>src/examples/\<close>, which call the library.
\<close>

end
